(* ===== verification/Prelude.thy ===== *)
theory Prelude
  imports Main "HOL-Library.Word"
begin

text \<open>
  Shared vocabulary of the ChainWatch development: Go's machine integers as words, results
  of fallible operations as sums, decimal printing and reading (the part of
  \<^verbatim>\<open>strconv\<close>, \<^verbatim>\<open>fmt\<close> and \<^verbatim>\<open>math/big\<close> the program uses), and the generic lemmas
  the component theories share.
\<close>

section \<open>Types\<close>

type_synonym u64 = "64 word"
type_synonym u8 = "8 word"
type_synonym bytes = "u8 list"

text \<open>A Go function returning \<^verbatim>\<open>(T, error)\<close> gives \<^term>\<open>Inl e\<close> for a non-nil error.
  An operation on a mutable world also returns the world after the call.\<close>

type_synonym ('e, 'a, 'w) outcome = "('e + 'a) \<times> 'w"

named_theorems view_simps \<open>how the operations of a component act on its abstract view\<close>
named_theorems step_intros \<open>introduction rules of the step relations\<close>

section \<open>Machine integers\<close>

text \<open>\<^verbatim>\<open>int64(x)\<close> of a \<^verbatim>\<open>uint64\<close> reinterprets the bits; \<^verbatim>\<open>uint64(n)\<close> reduces modulo \<open>2^64\<close>.\<close>

definition int64_of :: "u64 \<Rightarrow> int" where
  "int64_of x = sint x"

definition uint64_of :: "int \<Rightarrow> u64" where
  "uint64_of i = word_of_int i"

text \<open>The value of an \<^verbatim>\<open>int64\<close> expression whose mathematical value is \<open>i\<close>.\<close>

definition wrap_int64 :: "int \<Rightarrow> int" where
  "wrap_int64 i = (i + 2 ^ 63) mod 2 ^ 64 - 2 ^ 63"

lemma wrap_int64_id: "- (2 ^ 63) \<le> i \<Longrightarrow> i < 2 ^ 63 \<Longrightarrow> wrap_int64 i = i"
  by (simp add: wrap_int64_def)

lemma int64_of_eq_iff [simp]: "int64_of a = int64_of b \<longleftrightarrow> a = b"
  by (auto simp: int64_of_def intro: signed_word_eqI)

lemma int64_of_unfold:
  "int64_of n = (if unat n < 2 ^ 63 then int (unat n) else int (unat n) - 2 ^ 64)"
proof -
  have range: "0 \<le> uint n" "uint n < 2 ^ 64"
    using uint_range_size [of n] by (simp_all add: word_size)
  have shifted: "sint n = (uint n + 2 ^ 63) mod 2 ^ 64 - 2 ^ 63"
    using int_word_sint [of "uint n", where ?'a = 64] by simp
  have unat: "int (unat n) = uint n" by simp
  have "unat n < 2 ^ 63 \<longleftrightarrow> int (unat n) < int (2 ^ 63)" by (simp only: of_nat_less_iff)
  then have small: "unat n < 2 ^ 63 \<longleftrightarrow> uint n < 2 ^ 63" by (simp only: unat) simp
  show ?thesis
  proof (cases "uint n < 2 ^ 63")
    case True
    with range have "(uint n + 2 ^ 63) mod 2 ^ 64 = uint n + 2 ^ 63"
      by (intro mod_pos_pos_trivial) simp_all
    with True show ?thesis by (simp only: int64_of_def shifted small unat if_True add_diff_cancel)
  next
    case False
    with range have "(uint n + 2 ^ 63) mod 2 ^ 64 = uint n - 2 ^ 63"
      using mod_pos_pos_trivial [of "uint n - 2 ^ 63" "2 ^ 64"] mod_add_self2 [of "uint n - 2 ^ 63" "2 ^ 64"]
      by (simp add: add.commute)
    with False show ?thesis by (simp only: int64_of_def shifted small unat if_False) simp
  qed
qed

lemma int64_of_nonneg: "unat n < 2 ^ 63 \<Longrightarrow> int64_of n = int (unat n)"
  by (simp add: int64_of_unfold)

lemma int64_of_neg_iff: "int64_of n < 0 \<longleftrightarrow> 2 ^ 63 \<le> unat n"
proof -
  have "int (unat n) < 2 ^ 64" using uint_range_size [of n] by (simp add: word_size)
  then show ?thesis by (auto simp: int64_of_unfold)
qed

lemma uint64_of_int64_of [simp]: "uint64_of (int64_of n) = n"
  by (simp add: uint64_of_def int64_of_def)

lemma int64_of_range: "- (2 ^ 63) \<le> int64_of n \<and> int64_of n < 2 ^ 63"
  using sint_greater_eq [of n] sint_less [of n] by (simp add: int64_of_def)

lemma int64_of_uint64_of: "- (2 ^ 63) \<le> i \<Longrightarrow> i < 2 ^ 63 \<Longrightarrow> int64_of (uint64_of i) = i"
  by (simp add: int64_of_def uint64_of_def signed_of_int signed_take_bit_int_eq_self)

lemma unat_bound_u64: "unat (x :: u64) < 2 ^ 64"
  using unsigned_less [of x, where ?'a = nat] by simp

lemma unat_of_nat_u64: "n < 2 ^ 64 \<Longrightarrow> unat (of_nat n :: u64) = n"
  by (simp add: unat_of_nat)

lemma of_nat_u64_eq_iff: "m < 2 ^ 64 \<Longrightarrow> n < 2 ^ 64 \<Longrightarrow> (of_nat m :: u64) = of_nat n \<longleftrightarrow> m = n"
  by (metis unat_of_nat_u64)

text \<open>Counting up from a word that is not the largest never wraps.\<close>

lemma unat_plus_one: "(n::u64) < m \<Longrightarrow> unat (n + 1) = unat n + 1"
proof -
  assume "n < m"
  then have "unat n < unat m" by (simp add: word_less_nat_alt)
  with unsigned_less [of m, where ?'a = nat] have "unat n + 1 < 2 ^ 64" by simp
  then show ?thesis by (simp add: unat_word_ariths)
qed

lemma unat_minus_one_u64: "(n::u64) \<noteq> 0 \<Longrightarrow> unat (n - 1) = unat n - 1"
  by (rule unat_minus_one)

lemma plus_one_le_u64: "n + 1 = 0 \<or> \<not> n + 1 \<le> n" for n :: u64
proof (cases "unat n + 1 < 2 ^ 64")
  case True
  then have "unat (n + 1) = unat n + 1" by (simp add: unat_word_ariths)
  then show ?thesis by (simp add: word_le_nat_alt)
next
  case False
  with unat_bound_u64 [of n] have "unat n + 1 = 2 ^ 64" by linarith
  then have "unat (n + 1) = 0" by (simp add: unat_word_ariths)
  then show ?thesis by (simp add: unat_eq_0)
qed

lemma unat_pred_u64:
  fixes h :: u64
  assumes "0 < h"
  shows "unat (h - 1) = unat h - 1" "0 < unat h" "h - 1 < h"
proof -
  from assms show "0 < unat h" by (simp add: word_less_nat_alt)
  then show "unat (h - 1) = unat h - 1" by (intro unat_minus_one_u64) auto
  with \<open>0 < unat h\<close> show "h - 1 < h" by (simp add: word_less_nat_alt)
qed


section \<open>Decimal numerals\<close>

definition digit_char :: "nat \<Rightarrow> char" where
  "digit_char d = char_of (48 + d)"

definition digit_val :: "char \<Rightarrow> nat option" where
  "digit_val c = (let k = (of_char c :: nat) in if 48 \<le> k \<and> k \<le> 57 then Some (k - 48) else None)"

fun show_nat :: "nat \<Rightarrow> string" where
  "show_nat n = (if n < 10 then [digit_char n] else show_nat (n div 10) @ [digit_char (n mod 10)])"

declare show_nat.simps [simp del]

definition show_int :: "int \<Rightarrow> string" where
  "show_int i = (if i < 0 then CHR ''-'' # show_nat (nat (- i)) else show_nat (nat i))"

definition show_u64 :: "u64 \<Rightarrow> string" where
  "show_u64 n = show_nat (unat n)"

fun read_digits :: "nat \<Rightarrow> string \<Rightarrow> nat option" where
  "read_digits acc [] = Some acc"
| "read_digits acc (c # cs) =
     (case digit_val c of None \<Rightarrow> None | Some d \<Rightarrow> read_digits (10 * acc + d) cs)"

definition read_nat :: "string \<Rightarrow> nat option" where
  "read_nat s = (if s = [] then None else read_digits 0 s)"

text \<open>\<^verbatim>\<open>new(big.Int).SetString(s, 10)\<close>: an optional sign, then at least one digit.\<close>

definition read_int :: "string \<Rightarrow> int option" where
  "read_int s =
     (case s of
        [] \<Rightarrow> None
      | c # cs \<Rightarrow>
          if c = CHR ''-'' then map_option (\<lambda>n. - int n) (read_nat cs)
          else if c = CHR ''+'' then map_option int (read_nat cs)
          else map_option int (read_nat s))"

abbreviation is_digit :: "char \<Rightarrow> bool" where
  "is_digit c \<equiv> digit_val c \<noteq> None"

lemma digit_val_digit_char [simp]: "d < 10 \<Longrightarrow> digit_val (digit_char d) = Some d"
  by (simp add: digit_val_def digit_char_def Let_def)

lemma digit_char_inj: "d < 10 \<Longrightarrow> e < 10 \<Longrightarrow> digit_char d = digit_char e \<longleftrightarrow> d = e"
  by (metis digit_val_digit_char option.inject)

lemma digit_char_0: "digit_char 0 = CHR ''0''"
  by code_simp

lemma not_digit_signs [simp]: "\<not> is_digit CHR ''-''" "\<not> is_digit CHR ''+''" "\<not> is_digit CHR ''.''"
  by (simp_all add: digit_val_def Let_def)

lemma show_nat_digits: "\<forall>c \<in> set (show_nat n). is_digit c"
proof (induction n rule: show_nat.induct)
  case (1 n)
  then show ?case by (cases "n < 10") (auto simp: show_nat.simps [of n])
qed

lemma show_nat_nonempty [simp]: "show_nat n \<noteq> []"
  by (subst show_nat.simps) simp

lemma read_digits_append:
  "read_digits acc (xs @ ys) = Option.bind (read_digits acc xs) (\<lambda>a. read_digits a ys)"
  by (induction xs arbitrary: acc) (auto split: option.splits)

lemma read_digits_show_nat: "read_digits 0 (show_nat n) = Some n"
proof (induction n rule: show_nat.induct)
  case (1 n)
  then show ?case
    by (cases "n < 10") (auto simp: show_nat.simps [of n] read_digits_append)
qed

lemma read_nat_show_nat [simp]: "read_nat (show_nat n) = Some n"
  by (simp add: read_nat_def read_digits_show_nat)

lemma show_nat_inject [simp]: "show_nat m = show_nat n \<longleftrightarrow> m = n"
  by (metis option.inject read_nat_show_nat)

lemma show_nat_hd_not_sign: "show_nat n = c # cs \<Longrightarrow> c \<noteq> CHR ''-'' \<and> c \<noteq> CHR ''+''"
  using show_nat_digits [of n] not_digit_signs by fastforce

lemma read_int_show_int [simp]: "read_int (show_int i) = Some i"
proof (cases "i < 0")
  case True
  then show ?thesis by (simp add: read_int_def show_int_def)
next
  case False
  obtain c cs where cs: "show_nat (nat i) = c # cs"
    by (cases "show_nat (nat i)") auto
  with show_nat_hd_not_sign [OF cs] have "read_int (show_nat (nat i)) = map_option int (read_nat (c # cs))"
    by (simp add: read_int_def)
  with False cs show ?thesis
    by (metis show_int_def read_nat_show_nat option.simps(9) int_nat_eq not_less)
qed

lemma show_int_inject [simp]: "show_int i = show_int j \<longleftrightarrow> i = j"
  by (metis option.inject read_int_show_int)

lemma show_u64_inject [simp]: "show_u64 m = show_u64 n \<longleftrightarrow> m = n"
  by (auto simp: show_u64_def unsigned_word_eqI)

text \<open>A numeral below \<open>10^k\<close> has at most \<open>k\<close> digits, and at least \<open>k\<close> from \<open>10^(k-1)\<close> on.\<close>

lemma read_digits_bound: "read_digits acc s = Some n \<Longrightarrow> n < (acc + 1) * 10 ^ length s"
proof (induction s arbitrary: acc)
  case Nil
  then show ?case by simp
next
  case (Cons c cs)
  then obtain d where d: "digit_val c = Some d" and r: "read_digits (10 * acc + d) cs = Some n"
    by (auto split: option.splits)
  from d have "d < 10" by (auto simp: digit_val_def Let_def split: if_splits)
  from Cons.IH [OF r] have "n < (10 * acc + d + 1) * 10 ^ length cs" .
  also have "\<dots> \<le> (10 * (acc + 1)) * 10 ^ length cs"
    using \<open>d < 10\<close> by (intro mult_right_mono) auto
  finally show ?case by (simp add: algebra_simps)
qed

lemma show_nat_length: "n < 10 ^ k \<Longrightarrow> 0 < k \<Longrightarrow> length (show_nat n) \<le> k"
proof (induction n arbitrary: k rule: show_nat.induct)
  case (1 n)
  show ?case
  proof (cases "n < 10")
    case True
    with "1.prems" show ?thesis by (simp add: show_nat.simps [of n])
  next
    case False
    with "1.prems" obtain j where j: "k = Suc j" by (cases k) auto
    with False "1.prems" have "n div 10 < 10 ^ j" and "0 < j"
      by (auto simp: less_mult_imp_div_less mult.commute intro: gr0I)
    with "1.IH" [OF False] have "length (show_nat (n div 10)) \<le> j" by blast
    with False j show ?thesis by (simp add: show_nat.simps [of n])
  qed
qed

section \<open>ASCII case folding\<close>

text \<open>\<^verbatim>\<open>strings.ToLower\<close> and SQL's \<^verbatim>\<open>LOWER\<close> on the ASCII strings addresses are.\<close>

definition lower_char :: "char \<Rightarrow> char" where
  "lower_char c = (let k = (of_char c :: nat) in if 65 \<le> k \<and> k \<le> 90 then char_of (k + 32) else c)"

definition ToLower :: "string \<Rightarrow> string" where
  "ToLower s = map lower_char s"

lemma lower_char_idem [simp]: "lower_char (lower_char c) = lower_char c"
  by (auto simp: lower_char_def Let_def)

lemma ToLower_idem [simp]: "ToLower (ToLower s) = ToLower s"
  by (simp add: ToLower_def)

section \<open>Lists and maps\<close>

lemma restrict_map_upd_self: "m |` {x. P x} = (\<lambda>x. if P x then m x else None)"
  by (auto simp: restrict_map_def)

lemma fold_append_one: "fold f (xs @ [x]) s = f x (fold f xs s)"
  by simp

text \<open>\<^verbatim>\<open>%q\<close> of a printable string without quotes or backslashes.\<close>

definition quoted :: "string \<Rightarrow> string" where
  "quoted s = [CHR 0x22] @ s @ [CHR 0x22]"

section \<open>Trimming\<close>

text \<open>\<^verbatim>\<open>strings.TrimSpace\<close> on ASCII text.\<close>

definition is_space :: "char \<Rightarrow> bool" where
  "is_space c \<longleftrightarrow> (let k = (of_char c :: nat) in k = 32 \<or> (9 \<le> k \<and> k \<le> 13))"

definition TrimSpace :: "string \<Rightarrow> string" where
  "TrimSpace s = rev (dropWhile is_space (rev (dropWhile is_space s)))"

lemma TrimSpace_Nil [simp]: "TrimSpace [] = []"
  by (simp add: TrimSpace_def)

lemma TrimSpace_empty_iff: "TrimSpace s = [] \<longleftrightarrow> (\<forall>c \<in> set s. is_space c)"
proof
  assume "TrimSpace s = []"
  then have "\<forall>c \<in> set (dropWhile is_space s). is_space c" by (simp add: TrimSpace_def)
  then have "dropWhile is_space s = []" by (metis hd_dropWhile list.set_sel(1))
  then show "\<forall>c \<in> set s. is_space c" by simp
qed (auto simp: TrimSpace_def dest: set_dropWhileD)

lemma TrimSpace_idem [simp]: "TrimSpace (TrimSpace s) = TrimSpace s"
proof -
  have keep: "dropWhile is_space (rev (dropWhile is_space (rev t))) = rev (dropWhile is_space (rev t))"
    if "t = [] \<or> \<not> is_space (hd t)" for t
  proof (cases "dropWhile is_space (rev t) = []")
    case False
    then obtain u where u: "rev t = u @ dropWhile is_space (rev t)" by (metis takeWhile_dropWhile_id)
    with False have "hd t = last (dropWhile is_space (rev t))" by (metis hd_rev last_appendR rev_rev_ident)
    moreover have "t \<noteq> []" using False by auto
    ultimately have "\<not> is_space (hd (rev (dropWhile is_space (rev t))))" using that by (simp add: hd_rev)
    with False show ?thesis by (cases "rev (dropWhile is_space (rev t))") auto
  qed (simp only: rev.simps dropWhile.simps)
  have "dropWhile is_space s = [] \<or> \<not> is_space (hd (dropWhile is_space s))" by (metis hd_dropWhile)
  from keep [OF this] show ?thesis by (simp add: TrimSpace_def)
qed


end
