(* ===== verification/Go_Errors.thy ===== *)
theory Go_Errors
  imports Prelude
begin

text \<open>
  Go error values and \<^verbatim>\<open>internal/domain/error.go\<close>. An error is a tree: a sentinel
  (\<^verbatim>\<open>errors.New\<close> at package level, compared by identity), an anonymous error, a
  \<^verbatim>\<open>fmt.Errorf\<close> wrapper whose format ends in \<^verbatim>\<open>: %w\<close>, a \<^verbatim>\<open>DomainError\<close>, a
  \<^verbatim>\<open>PublicError\<close> of the API, an \<^verbatim>\<open>errors.Join\<close>, or an error value of a library that the
  program only inspects. \<^verbatim>\<open>errors.Is\<close> and \<^verbatim>\<open>errors.As\<close> walk the tree in pre-order through
  \<open>Unwrap\<close>. A nil error is \<^term>\<open>None\<close>.
\<close>

section \<open>Error values\<close>

datatype sentinel =
    ErrTransactionAlreadyProcessed | ErrSenderNotFound | ErrInsufficientBalance
  | ErrEmptyTransactionHash | ErrEmptySender | ErrEmptyReceiver | ErrZeroValue
  | ErrNotERC20Transfer | ErrInvalidERC20TransferData
  | ErrConfiguration | ErrRPC | ErrDatabase | ErrValidation | ErrIndexing | ErrMetadata
  | ErrNotFound | ErrBadInput | ErrTemporaryDependency | ErrInvalidTokenAddress | ErrChainReorg
  | ErrInvalidBlockRange | ErrInvalidWorkerCount | ErrReorgTooDeep | ErrReorgHistoryUnavailable
  | ErrInvalidTransferCursor | ErrServiceStopped
  | ContextCanceled | ContextDeadlineExceeded
  | IoEOF | IoErrUnexpectedEOF | SyscallECONNRESET | SyscallECONNREFUSED | SyscallEPIPE
  | PgxErrNoRows | EthereumNotFound | HttpErrServerClosed

datatype go_error =
    Sentinel sentinel
  | Anonymous string
  | Wrapf string go_error
  | DomainError "go_error option" string "go_error option"
  | PublicError int string go_error
  | Joined "go_error list"
  | HTTPErrorValue int string
  | HTTPErrorPointer int string
  | NetError bool bool string "go_error option"
  | RPCError int string

fun sentinel_text :: "sentinel \<Rightarrow> string" where
  "sentinel_text ErrTransactionAlreadyProcessed = ''transaction already processed''"
| "sentinel_text ErrSenderNotFound = ''sender does not exist''"
| "sentinel_text ErrInsufficientBalance = ''insufficient balance''"
| "sentinel_text ErrEmptyTransactionHash = ''transaction hash is empty''"
| "sentinel_text ErrEmptySender = ''sender is empty''"
| "sentinel_text ErrEmptyReceiver = ''receiver is empty''"
| "sentinel_text ErrZeroValue = ''transaction value must be greater than zero''"
| "sentinel_text ErrNotERC20Transfer = ''log is not an ERC20 transfer''"
| "sentinel_text ErrInvalidERC20TransferData = ''invalid ERC20 transfer data''"
| "sentinel_text ErrConfiguration = ''configuration error''"
| "sentinel_text ErrRPC = ''RPC error''"
| "sentinel_text ErrDatabase = ''database error''"
| "sentinel_text ErrValidation = ''validation error''"
| "sentinel_text ErrIndexing = ''indexing error''"
| "sentinel_text ErrMetadata = ''metadata error''"
| "sentinel_text ErrNotFound = ''not found''"
| "sentinel_text ErrBadInput = ''bad input''"
| "sentinel_text ErrTemporaryDependency = ''temporary dependency failure''"
| "sentinel_text ErrInvalidTokenAddress = ''invalid token address''"
| "sentinel_text ErrChainReorg = ''Ethereum chain reorganization detected''"
| "sentinel_text ErrInvalidBlockRange = ''invalid block range''"
| "sentinel_text ErrInvalidWorkerCount = ''worker count must be greater than zero''"
| "sentinel_text ErrReorgTooDeep = ''reorganization exceeds maximum rollback depth''"
| "sentinel_text ErrReorgHistoryUnavailable = ''indexed block history is unavailable''"
| "sentinel_text ErrInvalidTransferCursor = ''invalid transfer cursor''"
| "sentinel_text ErrServiceStopped = ''service stopped unexpectedly''"
| "sentinel_text ContextCanceled = ''context canceled''"
| "sentinel_text ContextDeadlineExceeded = ''context deadline exceeded''"
| "sentinel_text IoEOF = ''EOF''"
| "sentinel_text IoErrUnexpectedEOF = ''unexpected EOF''"
| "sentinel_text SyscallECONNRESET = ''connection reset by peer''"
| "sentinel_text SyscallECONNREFUSED = ''connection refused''"
| "sentinel_text SyscallEPIPE = ''broken pipe''"
| "sentinel_text PgxErrNoRows = ''no rows in result set''"
| "sentinel_text EthereumNotFound = ''not found''"
| "sentinel_text HttpErrServerClosed = ''http: Server closed''"

text \<open>\<^verbatim>\<open>errors.Join\<close> drops nil errors and is nil when none is left.\<close>

definition errors_Join :: "go_error option list \<Rightarrow> go_error option" where
  "errors_Join es =
     (let present = List.map_filter id es in if present = [] then None else Some (Joined present))"

section \<open>Unwrapping, printing, classification\<close>

text \<open>\<^verbatim>\<open>(*DomainError).Unwrap\<close>: category first, then cause, nil ones left out.\<close>

definition DomainError_Unwrap :: "go_error option \<Rightarrow> go_error option \<Rightarrow> go_error list" where
  "DomainError_Unwrap category cause =
     (case category of None \<Rightarrow> [] | Some c \<Rightarrow> [c]) @ (case cause of None \<Rightarrow> [] | Some c \<Rightarrow> [c])"

fun Unwrap :: "go_error \<Rightarrow> go_error list" where
  "Unwrap (Wrapf _ e) = [e]"
| "Unwrap (DomainError category _ cause) = DomainError_Unwrap category cause"
| "Unwrap (PublicError _ _ cause) = [cause]"
| "Unwrap (Joined es) = es"
| "Unwrap (NetError _ _ _ cause) = (case cause of None \<Rightarrow> [] | Some c \<Rightarrow> [c])"
| "Unwrap _ = []"

lemma Unwrap_size: "c \<in> set (Unwrap e) \<Longrightarrow> size c < size e"
  by (cases e) (auto simp: DomainError_Unwrap_def split: option.splits
      dest: size_list_estimation' [where f = size, OF _ order_refl])

function errors_is :: "go_error \<Rightarrow> sentinel \<Rightarrow> bool" where
  "errors_is e t = (e = Sentinel t \<or> list_ex (\<lambda>c. errors_is c t) (Unwrap e))"
  by pat_completeness auto
termination
  by (relation "measure (\<lambda>(e, t). size e)") (auto dest: Unwrap_size)

text \<open>\<^verbatim>\<open>errors.As\<close> with a target type: the first error in pre-order that \<open>p\<close> accepts.\<close>

fun first_some :: "'a option list \<Rightarrow> 'a option" where
  "first_some [] = None"
| "first_some (x # xs) = (case x of None \<Rightarrow> first_some xs | Some y \<Rightarrow> Some y)"

function errors_as :: "(go_error \<Rightarrow> 'a option) \<Rightarrow> go_error \<Rightarrow> 'a option" where
  "errors_as p e =
     (case p e of Some x \<Rightarrow> Some x | None \<Rightarrow> first_some (map (errors_as p) (Unwrap e)))"
  by pat_completeness auto
termination
  by (relation "measure (\<lambda>(p, e). size e)") (auto dest: Unwrap_size)

declare errors_is.simps [simp del] errors_as.simps [simp del]

fun error_text :: "go_error \<Rightarrow> string" where
  "error_text (Sentinel s) = sentinel_text s"
| "error_text (Anonymous s) = s"
| "error_text (Wrapf prefix e) = prefix @ '': '' @ error_text e"
| "error_text (DomainError _ operation None) = operation"
| "error_text (DomainError _ operation (Some cause)) = operation @ '': '' @ error_text cause"
| "error_text (PublicError _ message _) = message"
| "error_text (Joined []) = []"
| "error_text (Joined [e]) = error_text e"
| "error_text (Joined (e # e' # es)) = error_text e @ [CHR 0x0A] @ error_text (Joined (e' # es))"
| "error_text (HTTPErrorValue _ text) = text"
| "error_text (HTTPErrorPointer _ text) = text"
| "error_text (NetError _ _ text _) = text"
| "error_text (RPCError _ text) = text"

definition NewDomainError :: "go_error option \<Rightarrow> string \<Rightarrow> go_error option \<Rightarrow> go_error" where
  "NewDomainError category operation cause = DomainError category operation cause"

text \<open>The deferred \<^verbatim>\<open>ClassifyError(&err, category, operation)\<close>: what \<^verbatim>\<open>err\<close> is afterwards.\<close>

definition ClassifyError :: "go_error option \<Rightarrow> sentinel \<Rightarrow> string \<Rightarrow> go_error option" where
  "ClassifyError target category operation =
     (case target of
        None \<Rightarrow> None
      | Some e \<Rightarrow>
          if errors_is e category then Some e
          else Some (NewDomainError (Some (Sentinel category)) operation (Some e)))"

text \<open>The same on a result: an operation that defers \<^verbatim>\<open>ClassifyError\<close> ends in this.\<close>

definition classified :: "sentinel \<Rightarrow> string \<Rightarrow> go_error + 'a \<Rightarrow> go_error + 'a" where
  "classified category operation r =
     (case r of
        Inr x \<Rightarrow> Inr x
      | Inl e \<Rightarrow> (case ClassifyError (Some e) category operation of None \<Rightarrow> r | Some e' \<Rightarrow> Inl e'))"

section \<open>Laws\<close>

lemma errors_is_simps [simp]:
  "errors_is (Sentinel s) t \<longleftrightarrow> s = t"
  "\<not> errors_is (Anonymous m) t"
  "errors_is (Wrapf m e) t \<longleftrightarrow> errors_is e t"
  "errors_is (PublicError code m e) t \<longleftrightarrow> errors_is e t"
  "errors_is (Joined es) t \<longleftrightarrow> (\<exists>e \<in> set es. errors_is e t)"
  "\<not> errors_is (HTTPErrorValue code m) t"
  "\<not> errors_is (HTTPErrorPointer code m) t"
  "errors_is (NetError b c m cause) t \<longleftrightarrow> (\<exists>e. cause = Some e \<and> errors_is e t)"
  "\<not> errors_is (RPCError code m) t"
  by (subst errors_is.simps; auto simp: list_ex_iff split: option.splits)+

lemma errors_is_DomainError [simp]:
  "errors_is (DomainError category operation cause) t \<longleftrightarrow>
     (\<exists>e. category = Some e \<and> errors_is e t) \<or> (\<exists>e. cause = Some e \<and> errors_is e t)"
  by (subst errors_is.simps) (auto simp: DomainError_Unwrap_def split: option.splits)

lemma classified_Inr [simp]: "classified c op (Inr x) = Inr x"
  by (simp add: classified_def)

lemma classified_Inl:
  "classified c op (Inl e) = Inl (if errors_is e c then e else NewDomainError (Some (Sentinel c)) op (Some e))"
  by (simp add: classified_def ClassifyError_def)

lemma classified_eq_Inr [simp]:
  "classified c op r = Inr x \<longleftrightarrow> r = Inr x" "Inr x = classified c op r \<longleftrightarrow> r = Inr x"
  by (cases r; auto simp: classified_Inl)+

lemma classified_is_Inl [simp]: "(\<exists>e. classified c op r = Inl e) \<longleftrightarrow> (\<exists>e. r = Inl e)"
  by (cases r) (auto simp: classified_Inl)

lemma isl_classified [simp]: "isl (classified c op r) = isl r"
  by (cases r) (auto simp: classified_Inl)

lemma classified_keeps: "classified c op (Inl e) = Inl e' \<Longrightarrow> errors_is e t \<Longrightarrow> errors_is e' t"
  by (auto simp: classified_Inl NewDomainError_def split: if_splits)

lemma classified_category: "classified c op r = Inl e \<Longrightarrow> errors_is e c"
  by (cases r) (auto simp: classified_Inl NewDomainError_def)

lemma classified_only: "classified c op (Inl e) = Inl e' \<Longrightarrow> errors_is e' t \<Longrightarrow> t = c \<or> errors_is e t"
  by (auto simp: classified_Inl NewDomainError_def split: if_splits)

text \<open>
  C28. Deferring \<^verbatim>\<open>ClassifyError\<close> leaves a nil error nil; otherwise the outgoing error is of
  the given category, is exactly of the categories the original error had besides, and
  classifying a second time with the same category changes nothing.
\<close>
theorem ClassifyError_sound:
  "(ClassifyError target category operation = None \<longleftrightarrow> target = None) \<and>
   (\<forall>e e'. target = Some e \<and> ClassifyError target category operation = Some e' \<longrightarrow>
      (\<forall>t. errors_is e' t \<longleftrightarrow> t = category \<or> errors_is e t) \<and>
      ClassifyError (Some e') category again = Some e')"
  by (auto simp: ClassifyError_def NewDomainError_def split: option.splits)

theorem ClassifyError_sound_witness:
  "ClassifyError (Some (Sentinel ErrChainReorg)) ErrIndexing ''op'' =
     Some (DomainError (Some (Sentinel ErrIndexing)) ''op'' (Some (Sentinel ErrChainReorg))) \<and>
   (\<forall>t. errors_is (DomainError (Some (Sentinel ErrIndexing)) ''op'' (Some (Sentinel ErrChainReorg))) t
        \<longleftrightarrow> t = ErrIndexing \<or> errors_is (Sentinel ErrChainReorg) t)"
proof -
  have eq: "ClassifyError (Some (Sentinel ErrChainReorg)) ErrIndexing ''op'' =
     Some (DomainError (Some (Sentinel ErrIndexing)) ''op'' (Some (Sentinel ErrChainReorg)))"
    by (simp add: ClassifyError_def NewDomainError_def)
  with ClassifyError_sound [of "Some (Sentinel ErrChainReorg)" ErrIndexing "''op''" "''op''"]
  show ?thesis by blast
qed

end
