(* ===== verification/Domain_Types.thy ===== *)
theory Domain_Types
  imports Go_Errors
begin

text \<open>
  The shared value types of \<^verbatim>\<open>internal/domain\<close>: identifiers, observed blocks, receipts and
  logs, decoded transfers, block transfer indexes, checkpoints, queries and pages. A pointer
  field is an option (nil is \<^term>\<open>None\<close>); \<^verbatim>\<open>*big.Int\<close> is \<^typ>\<open>int option\<close>; \<^verbatim>\<open>uint\<close> is 64 bits
  wide, as on the platforms the container images target. Field names carry a prefix for
  their struct, since record selectors are global.
\<close>

type_synonym Address = string
type_synonym TransactionHash = string
type_synonym BlockHash = string

record BlockCheckpoint =
  cp_Number :: u64
  cp_Hash :: BlockHash

record ObservedTransaction =
  otx_Hash :: TransactionHash
  otx_From :: Address
  otx_To :: "Address option"
  otx_ValueWei :: "int option"
  otx_Nonce :: u64
  otx_GasLimit :: u64
  otx_Type :: u8

record ObservedBlock =
  ob_Number :: u64
  ob_Hash :: BlockHash
  ob_ParentHash :: BlockHash
  ob_Timestamp :: u64
  ob_Transactions :: "ObservedTransaction list"

definition TransactionCount :: "ObservedBlock \<Rightarrow> nat" where
  "TransactionCount block = length (ob_Transactions block)"

record ObservedLog =
  log_Address :: Address
  log_Topics :: "string list"
  log_Data :: bytes
  log_Index :: u64
  log_TransactionHash :: TransactionHash
  log_BlockNumber :: u64
  log_Removed :: bool

record ObservedReceipt =
  rc_TransactionHash :: TransactionHash
  rc_Status :: u64
  rc_GasUsed :: u64
  rc_EffectiveGasPrice :: "int option"
  rc_ContractAddress :: "Address option"
  rc_Logs :: "ObservedLog list"

definition Successful :: "ObservedReceipt \<Rightarrow> bool" where
  "Successful r \<longleftrightarrow> rc_Status r = 1"

definition LogCount :: "ObservedReceipt \<Rightarrow> nat" where
  "LogCount r = length (rc_Logs r)"

definition FeeWei :: "ObservedReceipt \<Rightarrow> int" where
  "FeeWei r =
     (case rc_EffectiveGasPrice r of None \<Rightarrow> 0 | Some price \<Rightarrow> uint (rc_GasUsed r) * price)"

record ERC20Transfer =
  tr_Token :: Address
  tr_From :: Address
  tr_To :: Address
  tr_Value :: "int option"
  tr_TransactionHash :: TransactionHash
  tr_LogIndex :: u64

record BlockTransferIndex =
  ix_BlockNumber :: u64
  ix_BlockHash :: BlockHash
  ix_ParentHash :: BlockHash
  ix_Transfers :: "ERC20Transfer list"

definition TransferCount :: "BlockTransferIndex \<Rightarrow> nat" where
  "TransferCount index = length (ix_Transfers index)"

definition HasTransfers :: "BlockTransferIndex \<Rightarrow> bool" where
  "HasTransfers index \<longleftrightarrow> 0 < length (ix_Transfers index)"

text \<open>\<^verbatim>\<open>BlockCheckpoint{Number: index.BlockNumber, Hash: index.BlockHash}\<close>, built wherever a
  block is persisted.\<close>

definition checkpoint_of :: "BlockTransferIndex \<Rightarrow> BlockCheckpoint" where
  "checkpoint_of index = \<lparr>cp_Number = ix_BlockNumber index, cp_Hash = ix_BlockHash index\<rparr>"

record StoredERC20Transfer =
  st_BlockNumber :: u64
  st_BlockHash :: BlockHash
  st_TransactionHash :: TransactionHash
  st_LogIndex :: u64
  st_Token :: Address
  st_From :: Address
  st_To :: Address
  st_Value :: "int option"

record TokenMetadata =
  md_Address :: Address
  md_Name :: string
  md_Symbol :: string
  md_Decimals :: u8

text \<open>A pagination cursor; cursors are ordered by block number, then log index.\<close>

datatype TransferCursor = TransferCursor (cur_BlockNumber: u64) (cur_LogIndex: u64)

instantiation TransferCursor :: linorder
begin

definition less_eq_TransferCursor :: "TransferCursor \<Rightarrow> TransferCursor \<Rightarrow> bool" where
  "a \<le> b \<longleftrightarrow> cur_BlockNumber a < cur_BlockNumber b \<or>
     cur_BlockNumber a = cur_BlockNumber b \<and> cur_LogIndex a \<le> cur_LogIndex b"

definition less_TransferCursor :: "TransferCursor \<Rightarrow> TransferCursor \<Rightarrow> bool" where
  "a < b \<longleftrightarrow> cur_BlockNumber a < cur_BlockNumber b \<or>
     cur_BlockNumber a = cur_BlockNumber b \<and> cur_LogIndex a < cur_LogIndex b"

instance
  by standard
    (auto simp: less_eq_TransferCursor_def less_TransferCursor_def intro: TransferCursor.expand)

end

record TransferQuery =
  q_BlockNumber :: "u64 option"
  q_Token :: "Address option"
  q_Address :: "Address option"
  q_Limit :: int
  q_Cursor :: "TransferCursor option"

record TransferPage =
  pg_Transfers :: "StoredERC20Transfer list"
  pg_NextCursor :: "TransferCursor option"

lemma checkpoint_of_simps [simp]:
  "cp_Number (checkpoint_of index) = ix_BlockNumber index"
  "cp_Hash (checkpoint_of index) = ix_BlockHash index"
  by (simp_all add: checkpoint_of_def)

lemma TransferCount_pos [simp]: "0 < TransferCount index \<longleftrightarrow> HasTransfers index"
  by (simp add: TransferCount_def HasTransfers_def)

end
