(* ===== verification/Blockchain_Ledger.thy ===== *)
theory Blockchain_Ledger
  imports Domain_Types
begin

text \<open>
  The in-memory ledger of \<^verbatim>\<open>internal/domain/blockchain.go\<close>: balances in \<^verbatim>\<open>uint64\<close> wei, a set of
  processed transaction hashes, and blocks applied atomically. A failing transaction leaves
  the ledger as it was, so \<^verbatim>\<open>ProcessTransaction\<close> is a sum: an error, or the ledger after the
  mutation. \<^verbatim>\<open>PrintBalances\<close> only writes to standard output and is left out.
\<close>

section \<open>State and operations\<close>

record Transaction =
  tx_Hash :: TransactionHash
  tx_From :: Address
  tx_To :: Address
  tx_ValueWei :: u64
  tx_GasUsed :: u64

record Block =
  blk_Number :: u64
  blk_Hash :: BlockHash
  blk_Transactions :: "Transaction list"
  blk_Timestamp :: u64

record Blockchain =
  blocks :: "Block list"
  balances :: "Address \<rightharpoonup> u64"
  processedTransactions :: "TransactionHash \<rightharpoonup> bool"

text \<open>The copies the code makes of its maps: the same keys and values.\<close>

definition copyBalances :: "(Address \<rightharpoonup> u64) \<Rightarrow> (Address \<rightharpoonup> u64)" where
  "copyBalances bals = (\<lambda>address. case bals address of None \<Rightarrow> None | Some balance \<Rightarrow> Some balance)"

definition copyProcessedTransactions :: "(TransactionHash \<rightharpoonup> bool) \<Rightarrow> (TransactionHash \<rightharpoonup> bool)" where
  "copyProcessedTransactions processed =
     (\<lambda>hash. case processed hash of None \<Rightarrow> None | Some value \<Rightarrow> Some value)"

definition NewBlockchain :: "(Address \<rightharpoonup> u64) \<Rightarrow> Blockchain" where
  "NewBlockchain initialBalances =
     \<lparr>blocks = [], balances = copyBalances initialBalances, processedTransactions = Map.empty\<rparr>"

definition Validate :: "Transaction \<Rightarrow> go_error option" where
  "Validate tx =
     (if tx_Hash tx = '''' then Some (Sentinel ErrEmptyTransactionHash)
      else if tx_From tx = '''' then Some (Sentinel ErrEmptySender)
      else if tx_To tx = '''' then Some (Sentinel ErrEmptyReceiver)
      else if tx_ValueWei tx = 0 then Some (Sentinel ErrZeroValue)
      else None)"

text \<open>A Go map read gives the zero value for an absent key.\<close>

definition map_get :: "('k \<rightharpoonup> 'v) \<Rightarrow> 'v \<Rightarrow> 'k \<Rightarrow> 'v" where
  "map_get m zero k = (case m k of None \<Rightarrow> zero | Some v \<Rightarrow> v)"

definition BalanceOf :: "Blockchain \<Rightarrow> Address \<Rightarrow> u64" where
  "BalanceOf bc address = map_get (balances bc) 0 address"

definition IsTransactionProcessed :: "Blockchain \<Rightarrow> TransactionHash \<Rightarrow> bool" where
  "IsTransactionProcessed bc hash = map_get (processedTransactions bc) False hash"

definition BlockCount :: "Blockchain \<Rightarrow> nat" where
  "BlockCount bc = length (blocks bc)"

definition LatestBlock :: "Blockchain \<Rightarrow> Block option" where
  "LatestBlock bc = (if length (blocks bc) = 0 then None else Some (blocks bc ! (length (blocks bc) - 1)))"

definition ProcessTransaction :: "Blockchain \<Rightarrow> Transaction \<Rightarrow> go_error + Blockchain" where
  "ProcessTransaction bc tx =
     (case Validate tx of
        Some err \<Rightarrow> Inl err
      | None \<Rightarrow>
          if IsTransactionProcessed bc (tx_Hash tx) then Inl (Sentinel ErrTransactionAlreadyProcessed)
          else (case balances bc (tx_From tx) of
             None \<Rightarrow> Inl (Sentinel ErrSenderNotFound)
           | Some senderBalance \<Rightarrow>
               if senderBalance < tx_ValueWei tx then Inl (Sentinel ErrInsufficientBalance)
               else
                 let debited = (balances bc)(tx_From tx \<mapsto> map_get (balances bc) 0 (tx_From tx) - tx_ValueWei tx);
                     credited = debited(tx_To tx \<mapsto> map_get debited 0 (tx_To tx) + tx_ValueWei tx)
                 in Inr (bc\<lparr>balances := credited,
                            processedTransactions := (processedTransactions bc)(tx_Hash tx \<mapsto> True)\<rparr>)))"

text \<open>The loop of \<^verbatim>\<open>ProcessBlock\<close> over the block's transactions, on the temporary chain.\<close>

fun process_all :: "Blockchain \<Rightarrow> Transaction list \<Rightarrow> go_error + Blockchain" where
  "process_all bc [] = Inr bc"
| "process_all bc (tx # txs) =
     (case ProcessTransaction bc tx of
        Inl err \<Rightarrow> Inl (Wrapf (''failed to process transaction '' @ tx_Hash tx) err)
      | Inr bc' \<Rightarrow> process_all bc' txs)"

text \<open>The error, if any, and the chain afterwards.\<close>

definition ProcessBlock :: "Blockchain \<Rightarrow> Block \<Rightarrow> go_error option \<times> Blockchain" where
  "ProcessBlock bc block =
     (let tempBlockchain =
            \<lparr>blocks = [], balances = copyBalances (balances bc),
             processedTransactions = copyProcessedTransactions (processedTransactions bc)\<rparr>
      in case process_all tempBlockchain (blk_Transactions block) of
           Inl err \<Rightarrow> (Some err, bc)
         | Inr temp \<Rightarrow>
             (None, bc\<lparr>balances := balances temp,
                       processedTransactions := processedTransactions temp,
                       blocks := blocks bc @ [block]\<rparr>))"

section \<open>Supply\<close>

text \<open>Total supply, computed without wrap-around.\<close>

definition total_supply :: "Blockchain \<Rightarrow> nat" where
  "total_supply bc = (\<Sum>a \<in> dom (balances bc). unat (the (balances bc a)))"

definition recorded_hashes :: "Blockchain \<Rightarrow> TransactionHash list" where
  "recorded_hashes bc = concat (map (\<lambda>b. map tx_Hash (blk_Transactions b)) (blocks bc))"

definition ledger_ok :: "Blockchain \<Rightarrow> bool" where
  "ledger_ok bc \<longleftrightarrow> finite (dom (balances bc)) \<and> total_supply bc < 2 ^ 64 \<and>
     distinct (recorded_hashes bc) \<and>
     (\<forall>h. IsTransactionProcessed bc h \<longleftrightarrow> h \<in> set (recorded_hashes bc))"

definition map_total :: "('k \<rightharpoonup> u64) \<Rightarrow> nat" where
  "map_total m = (\<Sum>a \<in> dom m. unat (the (m a)))"

lemma supply_eq: "total_supply bc = map_total (balances bc)"
  by (simp add: total_supply_def map_total_def)

lemma copyBalances_id [simp]: "copyBalances m = m"
  by (auto simp: copyBalances_def split: option.splits)

lemma copyProcessedTransactions_id [simp]: "copyProcessedTransactions m = m"
  by (auto simp: copyProcessedTransactions_def split: option.splits)

lemma map_total_upd:
  "finite (dom m) \<Longrightarrow> map_total (m(k \<mapsto> v)) + unat (map_get m 0 k) = map_total m + unat v"
proof -
  assume fin: "finite (dom m)"
  have "map_total (m(k \<mapsto> v)) = unat v + (\<Sum>a \<in> dom m - {k}. unat (the (m a)))"
    using fin by (simp add: map_total_def sum.insert_remove)
  moreover have "map_total m = unat (map_get m 0 k) + (\<Sum>a \<in> dom m - {k}. unat (the (m a)))"
    using fin by (cases "m k") (auto simp: map_total_def map_get_def sum.remove [of "dom m" k] domIff)
  ultimately show ?thesis by simp
qed

lemma map_get_le_total: "finite (dom m) \<Longrightarrow> unat (map_get m 0 k) \<le> map_total m"
  using map_total_upd [of m k 0] by simp

text \<open>Moving \<open>v\<close> out of one entry and into another keeps the total, when the total fits.\<close>

lemma map_total_move:
  assumes fin: "finite (dom m)" and bound: "map_total m < 2 ^ 64"
    and enough: "v \<le> map_get m 0 src"
  shows "map_total ((m(src \<mapsto> map_get m 0 src - v))(dst \<mapsto>
           map_get (m(src \<mapsto> map_get m 0 src - v)) 0 dst + v)) = map_total m"
proof -
  let ?d = "m(src \<mapsto> map_get m 0 src - v)"
  have fin': "finite (dom ?d)" using fin by simp
  have "unat (map_get m 0 src - v) + unat v = unat (map_get m 0 src)"
    using enough by (simp add: unat_sub word_le_nat_alt)
  then have debit: "map_total ?d + unat v = map_total m"
    using map_total_upd [OF fin, of src "map_get m 0 src - v"] by linarith
  have "unat (map_get ?d 0 dst) + unat v < 2 ^ 64"
    using map_get_le_total [OF fin', of dst] debit bound by linarith
  then have "unat (map_get ?d 0 dst + v) = unat (map_get ?d 0 dst) + unat v"
    by (simp add: unat_word_ariths)
  with map_total_upd [OF fin', of dst "map_get ?d 0 dst + v"] debit show ?thesis by linarith
qed

section \<open>One transaction\<close>

lemma ProcessTransaction_Inr:
  assumes "ProcessTransaction bc tx = Inr bc'"
  shows "Validate tx = None" "\<not> IsTransactionProcessed bc (tx_Hash tx)"
    "tx_From tx \<in> dom (balances bc)" "tx_ValueWei tx \<le> map_get (balances bc) 0 (tx_From tx)"
    "blocks bc' = blocks bc"
    "processedTransactions bc' = (processedTransactions bc)(tx_Hash tx \<mapsto> True)"
    "dom (balances bc') = insert (tx_To tx) (dom (balances bc))"
  using assms
  by (auto simp: ProcessTransaction_def map_get_def Let_def split: option.splits if_splits)

lemma ProcessTransaction_supply:
  assumes ok: "ProcessTransaction bc tx = Inr bc'" and fin: "finite (dom (balances bc))"
    and bound: "total_supply bc < 2 ^ 64"
  shows "total_supply bc' = total_supply bc \<and> finite (dom (balances bc'))"
proof -
  note pre = ProcessTransaction_Inr [OF ok]
  have "balances bc' =
     (let d = (balances bc)(tx_From tx \<mapsto> map_get (balances bc) 0 (tx_From tx) - tx_ValueWei tx)
      in d(tx_To tx \<mapsto> map_get d 0 (tx_To tx) + tx_ValueWei tx))"
    using ok by (auto simp: ProcessTransaction_def Let_def split: option.splits if_splits)
  with map_total_move [OF fin _ pre(4), of "tx_To tx"] bound fin pre(7) show ?thesis
    by (simp add: supply_eq Let_def)
qed

lemma IsTransactionProcessed_upd:
  "processedTransactions bc' = (processedTransactions bc)(h \<mapsto> True) \<Longrightarrow>
   IsTransactionProcessed bc' x \<longleftrightarrow> x = h \<or> IsTransactionProcessed bc x"
  by (auto simp: IsTransactionProcessed_def map_get_def)

section \<open>A block\<close>

lemma process_all_Inr:
  assumes "process_all bc txs = Inr bc'" "finite (dom (balances bc))" "total_supply bc < 2 ^ 64"
  shows "total_supply bc' = total_supply bc \<and> finite (dom (balances bc')) \<and> blocks bc' = blocks bc \<and>
     distinct (map tx_Hash txs) \<and> (\<forall>tx \<in> set txs. \<not> IsTransactionProcessed bc (tx_Hash tx)) \<and>
     (\<forall>h. IsTransactionProcessed bc' h \<longleftrightarrow> h \<in> set (map tx_Hash txs) \<or> IsTransactionProcessed bc h)"
  using assms
proof (induction bc txs rule: process_all.induct)
  case (1 bc)
  then show ?case by simp
next
  case (2 bc tx txs)
  then obtain bc1 where step: "ProcessTransaction bc tx = Inr bc1"
    and rest: "process_all bc1 txs = Inr bc'"
    by (auto split: sum.splits)
  note one = ProcessTransaction_Inr [OF step]
    and sup = ProcessTransaction_supply [OF step "2.prems"(2,3)]
    and pr = IsTransactionProcessed_upd [OF one(6)]
  from "2.IH" [OF step rest] sup "2.prems"(3)
  show ?case using one(2,5) sup pr by auto
qed

lemma process_all_error:
  "process_all bc txs = Inl err \<Longrightarrow>
   \<exists>pre tx post bc' cause. txs = pre @ tx # post \<and> process_all bc pre = Inr bc' \<and>
     ProcessTransaction bc' tx = Inl cause \<and>
     err = Wrapf (''failed to process transaction '' @ tx_Hash tx) cause"
proof (induction bc txs rule: process_all.induct)
  case (2 bc tx txs)
  show ?case
  proof (cases "ProcessTransaction bc tx")
    case (Inl cause)
    with "2.prems" show ?thesis by (intro exI [of _ "[]"]) auto
  next
    case (Inr bc1)
    with "2.prems" have "process_all bc1 txs = Inl err" by simp
    from "2.IH" [OF Inr this] obtain pre t post bc' cause where
      "txs = pre @ t # post" "process_all bc1 pre = Inr bc'"
      "ProcessTransaction bc' t = Inl cause"
      "err = Wrapf (''failed to process transaction '' @ tx_Hash t) cause" by blast
    with Inr show ?thesis by (intro exI [of _ "tx # pre"]) auto
  qed
qed simp

lemma ProcessBlock_keeps:
  assumes "ledger_ok bc" and "ProcessBlock bc block = (err, bc')"
  shows "ledger_ok bc' \<and> total_supply bc' = total_supply bc \<and>
    (err \<noteq> None \<longrightarrow> bc' = bc) \<and> (err = None \<longrightarrow> blocks bc' = blocks bc @ [block])"
proof (cases "process_all \<lparr>blocks = [], balances = balances bc,
    processedTransactions = processedTransactions bc\<rparr> (blk_Transactions block)")
  case (Inl e)
  with assms show ?thesis by (auto simp: ProcessBlock_def)
next
  case (Inr temp)
  let ?t = "\<lparr>blocks = [], balances = balances bc, processedTransactions = processedTransactions bc\<rparr>"
  from assms(1) have "finite (dom (balances ?t))" "total_supply ?t < 2 ^ 64"
    by (auto simp: ledger_ok_def supply_eq)
  note all = process_all_Inr [OF Inr this]
  from assms(2) Inr have bc': "err = None" "bc' = bc\<lparr>balances := balances temp,
      processedTransactions := processedTransactions temp, blocks := blocks bc @ [block]\<rparr>"
    by (auto simp: ProcessBlock_def)
  have flags: "IsTransactionProcessed bc' h \<longleftrightarrow> IsTransactionProcessed temp h"
    "IsTransactionProcessed ?t h \<longleftrightarrow> IsTransactionProcessed bc h" for h
    by (simp_all add: bc' IsTransactionProcessed_def)
  have "total_supply bc' = total_supply bc" using all by (simp add: bc' supply_eq)
  moreover have "recorded_hashes bc' = recorded_hashes bc @ map tx_Hash (blk_Transactions block)"
    by (simp add: recorded_hashes_def bc')
  moreover have "finite (dom (balances bc'))" using all by (simp add: bc')
  ultimately have "ledger_ok bc'"
    using assms(1) all flags unfolding ledger_ok_def by auto
  moreover note \<open>total_supply bc' = total_supply bc\<close>
  ultimately show ?thesis by (simp add: bc')
qed

text \<open>
  C29. \<^verbatim>\<open>ProcessBlock\<close> keeps the ledger's invariant: whatever the block, the supply is exactly
  conserved (no balance wraps as long as the supply fits in 64 bits), no transaction hash is
  applied twice over the whole history, and the processed set is exactly the set of hashes in
  the recorded blocks. On an error the ledger is unchanged.
\<close>
theorem ProcessBlock_invariant:
  assumes "ledger_ok bc" and "ProcessBlock bc block = (err, bc')"
  shows "ledger_ok bc' \<and> total_supply bc' = total_supply bc \<and>
    (err \<noteq> None \<longrightarrow> bc' = bc) \<and> (err = None \<longrightarrow> blocks bc' = blocks bc @ [block])"
  by (rule ProcessBlock_keeps [OF assms])

theorem ProcessBlock_invariant_witness:
  "let bc = NewBlockchain [''alice'' \<mapsto> 10];
       block = \<lparr>blk_Number = 1, blk_Hash = ''h1'', blk_Transactions =
         [\<lparr>tx_Hash = ''t1'', tx_From = ''alice'', tx_To = ''bob'', tx_ValueWei = 4, tx_GasUsed = 0\<rparr>],
         blk_Timestamp = 0\<rparr>
   in ledger_ok (snd (ProcessBlock bc block)) \<and> total_supply (snd (ProcessBlock bc block)) = 10"
proof -
  let ?bc = "NewBlockchain [''alice'' \<mapsto> 10]"
  let ?block = "\<lparr>blk_Number = 1, blk_Hash = ''h1'', blk_Transactions =
         [\<lparr>tx_Hash = ''t1'', tx_From = ''alice'', tx_To = ''bob'', tx_ValueWei = 4, tx_GasUsed = 0\<rparr>],
         blk_Timestamp = 0\<rparr>"
  have sup: "total_supply ?bc = 10" by (simp add: total_supply_def NewBlockchain_def)
  have "ledger_ok ?bc"
    by (simp add: ledger_ok_def sup)
      (simp add: NewBlockchain_def recorded_hashes_def IsTransactionProcessed_def map_get_def)
  from ProcessBlock_invariant [OF this, of ?block "fst (ProcessBlock ?bc ?block)" "snd (ProcessBlock ?bc ?block)"]
  show ?thesis by (simp add: Let_def sup)
qed

section \<open>Balances over a block\<close>

text \<open>What a transaction adds to an account.\<close>

definition net_flow :: "Address \<Rightarrow> Transaction \<Rightarrow> int" where
  "net_flow a tx = (if tx_To tx = a then uint (tx_ValueWei tx) else 0) -
                   (if tx_From tx = a then uint (tx_ValueWei tx) else 0)"

lemma ProcessTransaction_flow:
  assumes ok: "ProcessTransaction bc tx = Inr bc'" and fin: "finite (dom (balances bc))"
    and bound: "total_supply bc < 2 ^ 64"
  shows "uint (BalanceOf bc' a) = uint (BalanceOf bc a) + net_flow a tx"
proof -
  let ?v = "tx_ValueWei tx" and ?m = "balances bc"
  let ?d = "?m(tx_From tx \<mapsto> map_get ?m 0 (tx_From tx) - ?v)"
  have bals: "balances bc' = ?d(tx_To tx \<mapsto> map_get ?d 0 (tx_To tx) + ?v)"
    using ok by (auto simp: ProcessTransaction_def Let_def split: option.splits if_splits)
  have le: "?v \<le> map_get ?m 0 (tx_From tx)" by (rule ProcessTransaction_Inr(4) [OF ok])
  have debit: "uint (map_get ?d 0 (tx_From tx)) = uint (map_get ?m 0 (tx_From tx)) - uint ?v"
    using le uint_sub_lem [of ?v "map_get ?m 0 (tx_From tx)"]
    by (simp add: map_get_def word_le_def)
  have fin': "finite (dom ?d)" using fin by simp
  have "map_total ?d + unat ?v = map_total ?m"
    using map_total_upd [OF fin, of "tx_From tx" "map_get ?m 0 (tx_From tx) - ?v"] le
    by (simp add: unat_sub word_le_nat_alt)
  with map_get_le_total [OF fin', of "tx_To tx"] bound
  have "unat (map_get ?d 0 (tx_To tx)) + unat ?v < 2 ^ 64" by (simp add: supply_eq)
  then have "unat (map_get ?d 0 (tx_To tx) + ?v) = unat (map_get ?d 0 (tx_To tx)) + unat ?v"
    by (simp add: unat_word_ariths)
  then have credit: "uint (map_get ?d 0 (tx_To tx) + ?v) = uint (map_get ?d 0 (tx_To tx)) + uint ?v"
    by (simp only: uint_nat of_nat_add)
  show ?thesis
    using debit credit by (auto simp: BalanceOf_def bals net_flow_def map_get_def)
qed

lemma process_all_flow:
  assumes "process_all bc txs = Inr bc'" "finite (dom (balances bc))" "total_supply bc < 2 ^ 64"
  shows "uint (BalanceOf bc' a) = uint (BalanceOf bc a) + (\<Sum>tx \<leftarrow> txs. net_flow a tx)"
  using assms
proof (induction bc txs rule: process_all.induct)
  case (2 bc tx txs)
  then obtain bc1 where step: "ProcessTransaction bc tx = Inr bc1"
    and rest: "process_all bc1 txs = Inr bc'"
    by (auto split: sum.splits)
  from ProcessTransaction_supply [OF step "2.prems"(2,3)] "2.prems"(3) "2.IH" [OF step rest]
  show ?case using ProcessTransaction_flow [OF step "2.prems"(2,3), of a] by simp
qed simp

text \<open>
  C30. After an accepted block every account's balance has moved by exactly what the block's
  transactions credit and debit it, computed in the integers: nothing wraps, and self-transfers
  cancel out. A rejected block reports the first transaction that fails on the ledger left
  by the ones before it.
\<close>
theorem ProcessBlock_balances:
  assumes "ledger_ok bc"
  shows "case ProcessBlock bc block of
      (None, bc') \<Rightarrow> (\<forall>a. uint (BalanceOf bc' a) =
          uint (BalanceOf bc a) + (\<Sum>tx \<leftarrow> blk_Transactions block. net_flow a tx))
    | (Some err, _) \<Rightarrow> (\<exists>pre tx post mid cause. blk_Transactions block = pre @ tx # post \<and>
          process_all (bc\<lparr>blocks := []\<rparr>) pre = Inr mid \<and> ProcessTransaction mid tx = Inl cause \<and>
          err = Wrapf (''failed to process transaction '' @ tx_Hash tx) cause)"
proof -
  let ?t = "\<lparr>blocks = [], balances = balances bc, processedTransactions = processedTransactions bc\<rparr>"
  have same: "bc\<lparr>blocks := []\<rparr> = ?t" by simp
  from assms have "finite (dom (balances ?t))" "total_supply ?t < 2 ^ 64"
    by (auto simp: ledger_ok_def supply_eq)
  note flow = process_all_flow [OF _ this]
  show ?thesis
  proof (cases "process_all ?t (blk_Transactions block)")
    case (Inl e)
    from process_all_error [OF this] Inl show ?thesis by (simp add: ProcessBlock_def same)
  next
    case (Inr temp)
    from flow [OF this] Inr show ?thesis by (simp add: ProcessBlock_def BalanceOf_def)
  qed
qed

theorem ProcessBlock_balances_witness:
  "let bc = NewBlockchain [''alice'' \<mapsto> 10];
       block = \<lparr>blk_Number = 1, blk_Hash = ''h1'', blk_Transactions =
         [\<lparr>tx_Hash = ''t1'', tx_From = ''alice'', tx_To = ''bob'', tx_ValueWei = 4, tx_GasUsed = 0\<rparr>],
         blk_Timestamp = 0\<rparr>
   in fst (ProcessBlock bc block) = None \<and> uint (BalanceOf (snd (ProcessBlock bc block)) ''bob'') = 4"
proof -
  let ?bc = "NewBlockchain [''alice'' \<mapsto> 10]"
  let ?block = "\<lparr>blk_Number = 1, blk_Hash = ''h1'', blk_Transactions =
         [\<lparr>tx_Hash = ''t1'', tx_From = ''alice'', tx_To = ''bob'', tx_ValueWei = 4, tx_GasUsed = 0\<rparr>],
         blk_Timestamp = 0\<rparr>"
  have ok: "fst (ProcessBlock ?bc ?block) = None"
    by (simp add: ProcessBlock_def ProcessTransaction_def Validate_def NewBlockchain_def
        IsTransactionProcessed_def map_get_def)
  have "ledger_ok ?bc"
    by (simp add: ledger_ok_def total_supply_def NewBlockchain_def recorded_hashes_def
        IsTransactionProcessed_def map_get_def)
  from ProcessBlock_balances [OF this, of ?block] ok
  have "uint (BalanceOf (snd (ProcessBlock ?bc ?block)) ''bob'') =
      uint (BalanceOf ?bc ''bob'') + (\<Sum>tx \<leftarrow> blk_Transactions ?block. net_flow ''bob'' tx)"
    by (cases "ProcessBlock ?bc ?block") auto
  also have "\<dots> = 4" by (simp add: BalanceOf_def NewBlockchain_def map_get_def net_flow_def)
  finally show ?thesis using ok by (simp add: Let_def)
qed

end
