(* ===== verification/Chain_Persistence.thy ===== *)
theory Chain_Persistence
  imports Domain_Types
begin

text \<open>
  The interfaces of \<^verbatim>\<open>internal/indexer\<close>: \<^verbatim>\<open>BlockPersistence\<close> and \<^verbatim>\<open>ReorgPersistence\<close>
  (\<^verbatim>\<open>transfer_store.go\<close>, \<^verbatim>\<open>reorg.go\<close>) and the block clients (\<^verbatim>\<open>sequential_indexer.go\<close>,
  \<^verbatim>\<open>continuous_indexer.go\<close>), as records of operations on a world \<open>'w\<close> that holds the store, the
  remote node and the call context. An operation may change the world in any way, so a client
  may answer the same question differently at different times.

  Clients of a persistence see it through a \<open>chain_view\<close>: the checkpoint, the block hash recorded per
  height and the transfers kept. The locales state what each provider promises over that view; the
  indexers and the reorg manager are verified against the locales, and the in-memory and
  PostgreSQL stores are interpretations of them.
\<close>

section \<open>Interfaces\<close>

record 'w TransferBlockClient =
  GetObservedBlockByNumber :: "u64 \<Rightarrow> 'w \<Rightarrow> (go_error, ObservedBlock, 'w) outcome"
  GetERC20TransfersByBlock :: "ObservedBlock \<Rightarrow> 'w \<Rightarrow> (go_error, BlockTransferIndex, 'w) outcome"

record 'w ContinuousTransferClient = "'w TransferBlockClient" +
  GetLatestObservedBlock :: "'w \<Rightarrow> (go_error, ObservedBlock, 'w) outcome"

text \<open>\<^verbatim>\<open>Load\<close> returns \<^verbatim>\<open>(checkpoint, exists, err)\<close>: a checkpoint that does not exist is
  \<^term>\<open>None\<close>.\<close>

record 'w BlockPersistence =
  Load :: "'w \<Rightarrow> (go_error, BlockCheckpoint option, 'w) outcome"
  SaveIndexedBlock :: "BlockTransferIndex \<Rightarrow> 'w \<Rightarrow> (go_error, unit, 'w) outcome"

record 'w ReorgPersistence = "'w BlockPersistence" +
  EnsureIndexedBlock :: "BlockCheckpoint \<Rightarrow> 'w \<Rightarrow> (go_error, unit, 'w) outcome"
  LoadIndexedBlockHash :: "u64 \<Rightarrow> 'w \<Rightarrow> (go_error, BlockHash option, 'w) outcome"
  RollbackTo :: "BlockCheckpoint \<Rightarrow> 'w \<Rightarrow> (go_error, unit, 'w) outcome"

section \<open>The abstract view of a chain store\<close>

text \<open>A transfer is known by its transaction and log index. What is kept of it: the block it came with,
  token, sender, receiver and value.\<close>

record kept_transfer =
  kt_BlockNumber :: u64
  kt_BlockHash :: BlockHash
  kt_Token :: Address
  kt_From :: Address
  kt_To :: Address
  kt_Value :: "int option"

type_synonym kept_transfers = "TransactionHash \<times> u64 \<rightharpoonup> kept_transfer"

definition kept_transfers_of :: "BlockTransferIndex \<Rightarrow> kept_transfers" where
  "kept_transfers_of ix = map_of (map (\<lambda>t. ((tr_TransactionHash t, tr_LogIndex t),
     \<lparr>kt_BlockNumber = ix_BlockNumber ix, kt_BlockHash = ix_BlockHash ix, kt_Token = tr_Token t,
      kt_From = tr_From t, kt_To = tr_To t, kt_Value = tr_Value t\<rparr>)) (ix_Transfers ix))"

text \<open>The transfers are \<^term>\<open>None\<close> for a store whose view does not account for them.\<close>

record chain_view =
  cv_checkpoint :: "BlockCheckpoint option"
  cv_hashes :: "u64 \<rightharpoonup> BlockHash"
  cv_transfers :: "kept_transfers option"

text \<open>A commit adds the transfers that are not there yet; a rollback forgets those above the ancestor.\<close>

definition commit_view :: "BlockTransferIndex \<Rightarrow> chain_view \<Rightarrow> chain_view" where
  "commit_view ix v =
     \<lparr>cv_checkpoint = Some (checkpoint_of ix),
      cv_hashes = (cv_hashes v)(ix_BlockNumber ix \<mapsto> ix_BlockHash ix),
      cv_transfers = map_option (\<lambda>m. kept_transfers_of ix ++ m) (cv_transfers v)\<rparr>"

definition ensure_view :: "BlockCheckpoint \<Rightarrow> chain_view \<Rightarrow> chain_view" where
  "ensure_view cp v = v\<lparr>cv_hashes := (cv_hashes v)(cp_Number cp \<mapsto> cp_Hash cp)\<rparr>"

definition rollback_view :: "BlockCheckpoint \<Rightarrow> chain_view \<Rightarrow> chain_view" where
  "rollback_view cp v =
     \<lparr>cv_checkpoint = Some cp, cv_hashes = cv_hashes v |` {n. n \<le> cp_Number cp},
      cv_transfers = map_option (\<lambda>m. m |` {k. \<forall>t. m k = Some t \<longrightarrow> kt_BlockNumber t \<le> cp_Number cp}) (cv_transfers v)\<rparr>"

lemma view_projections [simp, view_simps]:
  "cv_checkpoint (commit_view ix v) = Some (checkpoint_of ix)"
  "cv_hashes (commit_view ix v) = (cv_hashes v)(ix_BlockNumber ix \<mapsto> ix_BlockHash ix)"
  "cv_checkpoint (ensure_view cp v) = cv_checkpoint v"
  "cv_hashes (ensure_view cp v) = (cv_hashes v)(cp_Number cp \<mapsto> cp_Hash cp)"
  "cv_checkpoint (rollback_view cp v) = Some cp"
  "cv_hashes (rollback_view cp v) = cv_hashes v |` {n. n \<le> cp_Number cp}"
  "cv_transfers (ensure_view cp v) = cv_transfers v"
  by (simp_all add: commit_view_def ensure_view_def rollback_view_def)

text \<open>A list of indexes is a run of consecutive heights from \<open>n\<close> (\<open>numbered\<close>) in which every
  block names its predecessor (\<open>linked\<close>; an empty hash is unknown and matches anything), and
  each is an answer the client gave for its height (\<open>served_by\<close>).\<close>

definition parent_ok :: "BlockTransferIndex \<Rightarrow> BlockHash \<Rightarrow> bool" where
  "parent_ok ix expected \<longleftrightarrow> ix_ParentHash ix = '''' \<or> expected = '''' \<or> ix_ParentHash ix = expected"

definition served_by :: "(u64 \<Rightarrow> 'w \<Rightarrow> (go_error, ObservedBlock, 'w) outcome) \<Rightarrow>
    (ObservedBlock \<Rightarrow> 'w \<Rightarrow> (go_error, BlockTransferIndex, 'w) outcome) \<Rightarrow> u64 \<Rightarrow> BlockTransferIndex \<Rightarrow> bool" where
  "served_by fetch decode n ix \<longleftrightarrow>
     (\<exists>w b w1 w2 w3. fetch n w = (Inr b, w1) \<and> decode b w2 = (Inr ix, w3))"

definition served_run :: "(u64 \<Rightarrow> 'w \<Rightarrow> (go_error, ObservedBlock, 'w) outcome) \<Rightarrow>
    (ObservedBlock \<Rightarrow> 'w \<Rightarrow> (go_error, BlockTransferIndex, 'w) outcome) \<Rightarrow> u64 \<Rightarrow>
    BlockTransferIndex list \<Rightarrow> bool" where
  "served_run fetch decode n ixs \<longleftrightarrow> (\<forall>i < length ixs. served_by fetch decode (n + of_nat i) (ixs ! i))"

fun linked :: "BlockHash \<Rightarrow> BlockTransferIndex list \<Rightarrow> bool" where
  "linked expected [] = True"
| "linked expected (ix # ixs) = (parent_ok ix expected \<and> linked (ix_BlockHash ix) ixs)"

definition numbered :: "u64 \<Rightarrow> BlockTransferIndex list \<Rightarrow> bool" where
  "numbered n ixs \<longleftrightarrow> (\<forall>i < length ixs. ix_BlockNumber (ixs ! i) = n + of_nat i)"

lemma linked_append:
  "linked h (xs @ ys) \<longleftrightarrow> linked h xs \<and> linked (if xs = [] then h else ix_BlockHash (last xs)) ys"
  by (induction xs arbitrary: h) auto

lemma served_run_Nil [simp]: "served_run fetch decode n []"
  by (simp add: served_run_def)

lemma served_run_Cons [simp]:
  "served_run fetch decode n (ix # ixs) \<longleftrightarrow>
     served_by fetch decode n ix \<and> served_run fetch decode (n + 1) ixs"
  by (auto simp: served_run_def less_Suc_eq_0_disj algebra_simps)

lemma served_run_append_one:
  "served_run fetch decode n (ixs @ [ix]) \<longleftrightarrow>
     served_run fetch decode n ixs \<and> served_by fetch decode (n + of_nat (length ixs)) ix"
  by (auto simp: served_run_def nth_append less_Suc_eq)

lemma served_run_numbered:
  assumes "served_run fetch decode n ixs"
    and "\<And>n w b w'. fetch n w = (Inr b, w') \<Longrightarrow> ob_Number b = n"
    and "\<And>b w ix w'. decode b w = (Inr ix, w') \<Longrightarrow> ix_BlockNumber ix = ob_Number b"
  shows "numbered n ixs"
proof -
  have "ix_BlockNumber ix = m" if "served_by fetch decode m ix" for m ix
    using that assms(2,3) unfolding served_by_def by blast
  with assms(1) show ?thesis by (auto simp: numbered_def served_run_def)
qed

lemma numbered_distinct:
  assumes "numbered n ixs" "length ixs \<le> 2 ^ 64"
  shows "distinct (map ix_BlockNumber ixs)"
proof -
  have "map ix_BlockNumber ixs = map (\<lambda>i. n + of_nat i) [0..<length ixs]"
    using assms(1) by (intro nth_equalityI) (simp_all add: numbered_def)
  moreover have "inj_on (\<lambda>i. n + of_nat i) {0..<length ixs}"
  proof (rule inj_onI)
    fix i j assume ij: "i \<in> {0..<length ixs}" "j \<in> {0..<length ixs}" "n + of_nat i = n + of_nat j"
    with assms(2) show "i = j" by (simp add: of_nat_u64_eq_iff)
  qed
  ultimately show ?thesis by (simp add: distinct_map)
qed

text \<open>Committing a run: the checkpoint is the last block, and only its heights are written.\<close>

lemma fold_commit_checkpoint:
  "cv_checkpoint (fold commit_view ixs v) =
     (if ixs = [] then cv_checkpoint v else Some (checkpoint_of (last ixs)))"
  by (induction ixs arbitrary: v) auto

lemma fold_commit_hashes_other:
  "n \<notin> ix_BlockNumber ` set ixs \<Longrightarrow> cv_hashes (fold commit_view ixs v) n = cv_hashes v n"
  by (induction ixs arbitrary: v) auto

lemma fold_commit_hashes_in:
  assumes "ix \<in> set ixs" "distinct (map ix_BlockNumber ixs)"
  shows "cv_hashes (fold commit_view ixs v) (ix_BlockNumber ix) = Some (ix_BlockHash ix)"
  using assms
proof (induction ixs arbitrary: v)
  case (Cons x xs)
  show ?case
  proof (cases "ix = x")
    case True
    with Cons.prems have "ix_BlockNumber x \<notin> ix_BlockNumber ` set xs" by auto
    from fold_commit_hashes_other [OF this] True show ?thesis by simp
  next
    case False
    with Cons show ?thesis by auto
  qed
qed simp

section \<open>Contracts\<close>

locale block_persistence =
  fixes load :: "'w \<Rightarrow> (go_error, BlockCheckpoint option, 'w) outcome"
    and save :: "BlockTransferIndex \<Rightarrow> 'w \<Rightarrow> (go_error, unit, 'w) outcome"
    and view :: "'w \<Rightarrow> chain_view"
    and inv :: "'w \<Rightarrow> bool"
  assumes load_frame: "inv w \<Longrightarrow> load w = (r, w') \<Longrightarrow> inv w' \<and> view w' = view w"
    and load_value: "inv w \<Longrightarrow> load w = (Inr cp, w') \<Longrightarrow> cp = cv_checkpoint (view w)"
    and save_ok: "inv w \<Longrightarrow> save ix w = (Inr u, w') \<Longrightarrow> inv w' \<and> view w' = commit_view ix (view w)"
    and save_error: "inv w \<Longrightarrow> save ix w = (Inl e, w') \<Longrightarrow>
      inv w' \<and> (view w' = view w \<or> view w' = commit_view ix (view w))"

text \<open>A persistence together with a block client that leaves it alone.\<close>

locale range_indexing = block_persistence load save view inv
  for load :: "'w \<Rightarrow> (go_error, BlockCheckpoint option, 'w) outcome"
    and save :: "BlockTransferIndex \<Rightarrow> 'w \<Rightarrow> (go_error, unit, 'w) outcome"
    and view :: "'w \<Rightarrow> chain_view"
    and inv :: "'w \<Rightarrow> bool" +
  fixes fetch :: "u64 \<Rightarrow> 'w \<Rightarrow> (go_error, ObservedBlock, 'w) outcome"
    and decode :: "ObservedBlock \<Rightarrow> 'w \<Rightarrow> (go_error, BlockTransferIndex, 'w) outcome"
  assumes fetch_frame: "inv w \<Longrightarrow> fetch n w = (r, w') \<Longrightarrow> inv w' \<and> view w' = view w"
    and decode_frame: "inv w \<Longrightarrow> decode b w = (r', w') \<Longrightarrow> inv w' \<and> view w' = view w"

text \<open>A store that also keeps what a saved block carries: \<open>stored ix w\<close> says that the transfers of
  \<open>ix\<close> are in the store.\<close>

locale transfer_storing = range_indexing load save view inv fetch decode
  for load :: "'w \<Rightarrow> (go_error, BlockCheckpoint option, 'w) outcome"
    and save :: "BlockTransferIndex \<Rightarrow> 'w \<Rightarrow> (go_error, unit, 'w) outcome"
    and view :: "'w \<Rightarrow> chain_view"
    and inv :: "'w \<Rightarrow> bool"
    and fetch :: "u64 \<Rightarrow> 'w \<Rightarrow> (go_error, ObservedBlock, 'w) outcome"
    and decode :: "ObservedBlock \<Rightarrow> 'w \<Rightarrow> (go_error, BlockTransferIndex, 'w) outcome" +
  fixes stored :: "BlockTransferIndex \<Rightarrow> 'w \<Rightarrow> bool"
  assumes save_stores: "inv w \<Longrightarrow> save ix w = (Inr u, w') \<Longrightarrow> stored ix w'"
    and save_keeps: "inv w \<Longrightarrow> save ix w = (r, w') \<Longrightarrow> stored ix' w \<Longrightarrow> stored ix' w'"
    and load_keeps: "load w = (rl, w') \<Longrightarrow> stored ix' w \<Longrightarrow> stored ix' w'"
    and fetch_keeps: "fetch n w = (rf, w') \<Longrightarrow> stored ix' w \<Longrightarrow> stored ix' w'"
    and decode_keeps: "decode b w = (rd, w') \<Longrightarrow> stored ix' w \<Longrightarrow> stored ix' w'"

locale reorg_persistence = block_persistence load save view inv
  for load :: "'w \<Rightarrow> (go_error, BlockCheckpoint option, 'w) outcome"
    and save :: "BlockTransferIndex \<Rightarrow> 'w \<Rightarrow> (go_error, unit, 'w) outcome"
    and view :: "'w \<Rightarrow> chain_view"
    and inv :: "'w \<Rightarrow> bool" +
  fixes ensure :: "BlockCheckpoint \<Rightarrow> 'w \<Rightarrow> (go_error, unit, 'w) outcome"
    and hash_at :: "u64 \<Rightarrow> 'w \<Rightarrow> (go_error, BlockHash option, 'w) outcome"
    and rollback :: "BlockCheckpoint \<Rightarrow> 'w \<Rightarrow> (go_error, unit, 'w) outcome"
  assumes ensure_ok: "inv w \<Longrightarrow> ensure cp w = (Inr u, w') \<Longrightarrow> inv w' \<and> view w' = ensure_view cp (view w)"
    and ensure_error: "inv w \<Longrightarrow> ensure cp w = (Inl e, w') \<Longrightarrow>
      inv w' \<and> (view w' = view w \<or> view w' = ensure_view cp (view w))"
    and ensure_conflict: "inv w \<Longrightarrow> cv_hashes (view w) (cp_Number cp) = Some h \<Longrightarrow> h \<noteq> cp_Hash cp \<Longrightarrow>
      isl (fst (ensure cp w))"
    and hash_frame: "inv w \<Longrightarrow> hash_at n w = (r, w') \<Longrightarrow> inv w' \<and> view w' = view w"
    and hash_value: "inv w \<Longrightarrow> hash_at n w = (Inr found, w') \<Longrightarrow> found = cv_hashes (view w) n"
    and rollback_ok: "inv w \<Longrightarrow> rollback cp w = (Inr u, w') \<Longrightarrow> inv w' \<and> view w' = rollback_view cp (view w)"
    and rollback_error: "inv w \<Longrightarrow> rollback cp w = (Inl e, w') \<Longrightarrow>
      inv w' \<and> (view w' = view w \<or> view w' = rollback_view cp (view w))"

section \<open>Pairing a store with its environment\<close>

text \<open>A client that works on the environment half of a world \<open>'s \<times> 'e\<close>.\<close>

definition on_env :: "('a \<Rightarrow> 'e \<Rightarrow> (go_error, 'b, 'e) outcome) \<Rightarrow> 'a \<Rightarrow> 's \<times> 'e \<Rightarrow> (go_error, 'b, 's \<times> 'e) outcome" where
  "on_env f a w = (case f a (snd w) of (r, e) \<Rightarrow> (r, (fst w, e)))"

lemma on_env_frame: "on_env f a w = (r, w') \<Longrightarrow> fst w' = fst w"
  by (auto simp: on_env_def split: prod.splits)

lemma on_env_result: "on_env f a w = (r, w') \<Longrightarrow> f a (snd w) = (r, snd w')"
  by (auto simp: on_env_def split: prod.splits)

end
