(* ===== verification/Go_Float.thy ===== *)
theory Go_Float
  imports Complex_Main Prelude
begin

text \<open>
  Go's \<^verbatim>\<open>float64\<close> as far as the program computes with it (rate limiting, jitter, the duration
  sum of the metrics): a value is a rational that IEEE 754 binary64 can represent, an infinity or
  NaN, and every arithmetic operation rounds the exact result to nearest, ties to even, with
  gradual underflow and overflow to infinity. The sign of a zero is not kept: the program never
  looks at it.
\<close>

section \<open>Values and rounding\<close>

datatype float64 = Finite rat | PosInf | NegInf | NaN

definition round_even :: "rat \<Rightarrow> int" where
  "round_even q =
     (let f = \<lfloor>q\<rfloor>; d = q - of_int f
      in if d < 1 / 2 then f else if 1 / 2 < d then f + 1 else if even f then f else f + 1)"

text \<open>The exponent \<open>e\<close> with \<open>2^e \<le> x < 2^(e+1)\<close> of a positive rational.\<close>

function floor_log2 :: "int \<Rightarrow> int" where
  "floor_log2 n = (if n < 2 then 0 else 1 + floor_log2 (n div 2))"
  by pat_completeness auto
termination
  by (relation "measure nat") auto

declare floor_log2.simps [simp del]

definition two_powi :: "int \<Rightarrow> rat" where
  "two_powi e = (if 0 \<le> e then of_int (2 ^ nat e) else 1 / of_int (2 ^ nat (- e)))"

definition binary_exponent :: "rat \<Rightarrow> int" where
  "binary_exponent x =
     (let (a, b) = quotient_of x; e = floor_log2 a - floor_log2 b
      in if two_powi e \<le> x then e else e - 1)"

definition round64 :: "rat \<Rightarrow> float64" where
  "round64 x =
     (if x = 0 then Finite 0
      else
        let ulp = two_powi (max (binary_exponent \<bar>x\<bar> - 52) (- 1074));
            r = of_int (round_even (x / ulp)) * ulp
        in if r \<noteq> 0 \<and> 1024 \<le> binary_exponent \<bar>r\<bar> then (if 0 < r then PosInf else NegInf) else Finite r)"

definition float_of_int :: "int \<Rightarrow> float64" where
  "float_of_int i = round64 (of_int i)"

section \<open>Operations\<close>

fun f_neg :: "float64 \<Rightarrow> float64" where
  "f_neg (Finite x) = Finite (- x)"
| "f_neg PosInf = NegInf"
| "f_neg NegInf = PosInf"
| "f_neg NaN = NaN"

fun f_add :: "float64 \<Rightarrow> float64 \<Rightarrow> float64" where
  "f_add (Finite x) (Finite y) = round64 (x + y)"
| "f_add NaN _ = NaN"
| "f_add _ NaN = NaN"
| "f_add PosInf NegInf = NaN"
| "f_add NegInf PosInf = NaN"
| "f_add PosInf _ = PosInf"
| "f_add _ PosInf = PosInf"
| "f_add NegInf _ = NegInf"
| "f_add _ NegInf = NegInf"

definition f_sub :: "float64 \<Rightarrow> float64 \<Rightarrow> float64" where
  "f_sub x y = f_add x (f_neg y)"

fun f_sign :: "float64 \<Rightarrow> int" where
  "f_sign (Finite x) = (if x < 0 then - 1 else if x = 0 then 0 else 1)"
| "f_sign PosInf = 1"
| "f_sign NegInf = - 1"
| "f_sign NaN = 0"

text \<open>An infinite operand makes a product infinite with the product's sign, or NaN against a zero.\<close>

definition signed_infinity :: "int \<Rightarrow> float64" where
  "signed_infinity s = (if 0 < s then PosInf else if s < 0 then NegInf else NaN)"

fun f_mul :: "float64 \<Rightarrow> float64 \<Rightarrow> float64" where
  "f_mul (Finite x) (Finite y) = round64 (x * y)"
| "f_mul x y = signed_infinity (f_sign x * f_sign y)"

text \<open>A zero divisor counts as positive: the program only divides by converted integers and by
  constants, whose zero is \<open>+0\<close>.\<close>

fun f_div :: "float64 \<Rightarrow> float64 \<Rightarrow> float64" where
  "f_div (Finite x) (Finite y) = (if y = 0 then signed_infinity (f_sign (Finite x)) else round64 (x / y))"
| "f_div NaN _ = NaN"
| "f_div _ NaN = NaN"
| "f_div (Finite x) _ = Finite 0"
| "f_div x (Finite y) = signed_infinity (f_sign x * (if y < 0 then - 1 else 1))"
| "f_div _ _ = NaN"

fun f_less :: "float64 \<Rightarrow> float64 \<Rightarrow> bool" where
  "f_less NaN _ = False"
| "f_less _ NaN = False"
| "f_less (Finite x) (Finite y) = (x < y)"
| "f_less NegInf y = (y \<noteq> NegInf)"
| "f_less x PosInf = (x \<noteq> PosInf)"
| "f_less _ _ = False"

definition f_le :: "float64 \<Rightarrow> float64 \<Rightarrow> bool" where
  "f_le x y \<longleftrightarrow> f_less x y \<or> (x = y \<and> x \<noteq> NaN)"

text \<open>\<^verbatim>\<open>math.Min\<close> and \<^verbatim>\<open>math.Max\<close>: an infinity of the right sign wins, then NaN.\<close>

definition math_Min :: "float64 \<Rightarrow> float64 \<Rightarrow> float64" where
  "math_Min x y =
     (if x = NegInf \<or> y = NegInf then NegInf else if x = NaN \<or> y = NaN then NaN
      else if f_less x y then x else y)"

definition math_Max :: "float64 \<Rightarrow> float64 \<Rightarrow> float64" where
  "math_Max x y =
     (if x = PosInf \<or> y = PosInf then PosInf else if x = NaN \<or> y = NaN then NaN
      else if f_less y x then x else y)"

text \<open>\<^verbatim>\<open>int64(f)\<close> truncates towards zero. Outside the range the value is left to the
  implementation: the argument \<open>overflow\<close> stands for what the platform gives.\<close>

definition truncate :: "rat \<Rightarrow> int" where
  "truncate x = (if x < 0 then - \<lfloor>- x\<rfloor> else \<lfloor>x\<rfloor>)"

definition int64_of_float :: "(float64 \<Rightarrow> int) \<Rightarrow> float64 \<Rightarrow> int" where
  "int64_of_float overflow f =
     (case f of
        Finite x \<Rightarrow>
          let i = truncate x in if - (2 ^ 63) \<le> i \<and> i < 2 ^ 63 then i else overflow f
      | _ \<Rightarrow> overflow f)"

text \<open>\<^verbatim>\<open>fmt\<close>'s \<^verbatim>\<open>%f\<close>: six decimals, rounded half to even from the exact value.\<close>

definition pad_zeros :: "nat \<Rightarrow> string \<Rightarrow> string" where
  "pad_zeros width s = replicate (width - length s) CHR ''0'' @ s"

definition show_fixed6 :: "float64 \<Rightarrow> string" where
  "show_fixed6 f =
     (case f of
        NaN \<Rightarrow> ''NaN''
      | PosInf \<Rightarrow> ''+Inf''
      | NegInf \<Rightarrow> ''-Inf''
      | Finite x \<Rightarrow>
          let n = nat (round_even (\<bar>x\<bar> * 10 ^ 6))
          in (if x < 0 then ''-'' else []) @ show_nat (n div 10 ^ 6) @ ''.'' @ pad_zeros 6 (show_nat (n mod 10 ^ 6)))"

section \<open>Laws\<close>

lemma round_even_nonneg: "0 \<le> q \<Longrightarrow> 0 \<le> round_even q"
  by (auto simp: round_even_def Let_def)

lemma round_even_of_int [simp]: "round_even (of_int i) = i"
  by (simp add: round_even_def)

lemma two_powi_pos: "0 < two_powi e"
  by (simp add: two_powi_def)

lemma round64_zero [simp]: "round64 0 = Finite 0"
  by (simp add: round64_def)

text \<open>What rounding a non-negative number gives: a non-negative number or \<open>+Inf\<close>.\<close>

definition f_nonneg :: "float64 \<Rightarrow> bool" where
  "f_nonneg f \<longleftrightarrow> (case f of Finite x \<Rightarrow> 0 \<le> x | PosInf \<Rightarrow> True | _ \<Rightarrow> False)"

lemma f_nonneg_simps [simp]:
  "f_nonneg (Finite x) \<longleftrightarrow> 0 \<le> x" "f_nonneg PosInf" "\<not> f_nonneg NegInf" "\<not> f_nonneg NaN"
  by (simp_all add: f_nonneg_def)

lemma round64_nonneg [simp]:
  assumes "0 \<le> x"
  shows "f_nonneg (round64 x)"
proof (cases "x = 0")
  case False
  define ulp where "ulp = two_powi (max (binary_exponent \<bar>x\<bar> - 52) (- 1074))"
  define r where "r = of_int (round_even (x / ulp)) * ulp"
  have "0 < ulp" by (simp add: ulp_def two_powi_pos)
  with assms have "0 \<le> r" by (simp add: r_def round_even_nonneg)
  moreover have "round64 x =
      (if r \<noteq> 0 \<and> 1024 \<le> binary_exponent \<bar>r\<bar> then (if 0 < r then PosInf else NegInf) else Finite r)"
    using False by (simp only: round64_def Let_def r_def ulp_def if_False)
  ultimately show ?thesis by auto
qed simp

lemma f_add_nonneg: "f_nonneg x \<Longrightarrow> f_nonneg y \<Longrightarrow> f_nonneg (f_add x y)"
  by (cases x; cases y) auto

lemma f_mul_nonneg: "f_nonneg x \<Longrightarrow> f_nonneg y \<Longrightarrow> f_mul x y \<noteq> NaN \<Longrightarrow> f_nonneg (f_mul x y)"
  by (cases x; cases y) (auto simp: signed_infinity_def split: if_splits)

lemma math_Min_le: "x \<noteq> NaN \<Longrightarrow> y \<noteq> NaN \<Longrightarrow> f_le (math_Min x y) x"
  by (cases x; cases y) (auto simp: math_Min_def f_le_def)

lemma math_Min_nonneg: "f_nonneg x \<Longrightarrow> f_nonneg y \<Longrightarrow> f_nonneg (math_Min x y)"
  by (cases x; cases y) (auto simp: math_Min_def)

lemma math_Max_zero: "x \<noteq> NaN \<Longrightarrow> f_nonneg (math_Max (Finite 0) x)"
  by (cases x) (auto simp: math_Max_def)

text \<open>A power of two bounds a positive rational from below at its binary exponent.\<close>

lemma floor_log2_bounds: "0 < n \<Longrightarrow> 0 \<le> floor_log2 n \<and> 2 ^ nat (floor_log2 n) \<le> n \<and> n < 2 ^ (nat (floor_log2 n) + 1)"
proof (induction n rule: floor_log2.induct)
  case (1 n)
  show ?case
  proof (cases "n < 2")
    case True
    with "1.prems" have "n = 1" by simp
    then show ?thesis by (simp add: floor_log2.simps [of 1])
  next
    case False
    define k where "k = nat (floor_log2 (n div 2))"
    have ih: "0 \<le> floor_log2 (n div 2)" "2 ^ k \<le> n div 2" "n div 2 < 2 ^ (k + 1)"
      using "1.IH" [OF False] False by (auto simp: k_def)
    have step: "floor_log2 n = 1 + floor_log2 (n div 2)" using False by (subst floor_log2.simps) simp
    from ih(1) have "nat (floor_log2 n) = k + 1" "0 \<le> floor_log2 n"
      unfolding step k_def by linarith+
    moreover have "2 * 2 ^ k \<le> n" "n < 2 * 2 ^ (k + 1)"
      using ih(2,3) by linarith+
    ultimately show ?thesis by simp
  qed
qed

lemma two_powi_powi: "two_powi e = 2 powi e"
  by (auto simp: two_powi_def power_int_def power_one_over inverse_eq_divide)

lemma binary_exponent_le:
  assumes "0 < x"
  shows "two_powi (binary_exponent x) \<le> x"
proof -
  obtain a b where q: "quotient_of x = (a, b)" by (cases "quotient_of x")
  from quotient_of_denom_pos [OF q] have b: "0 < b" .
  from quotient_of_div [OF q] have x: "x = of_int a / of_int b" .
  with assms b have a: "0 < a" by (simp add: zero_less_divide_iff)
  let ?la = "floor_log2 a" and ?lb = "floor_log2 b"
  have la: "(2::rat) powi ?la \<le> of_int a"
    using floor_log2_bounds [OF a] of_int_le_iff [of "2 ^ nat ?la" a, where ?'a = rat] by (simp add: power_int_def)
  have lb: "of_int b < (2::rat) powi (?lb + 1)"
    using floor_log2_bounds [OF b] of_int_less_iff [of b "2 ^ (nat ?lb + 1)", where ?'a = rat]
    by (simp add: power_int_def nat_add_distrib)
  have "(2::rat) powi (?la - ?lb - 1) = 2 powi ?la / 2 powi (?lb + 1)"
    by (simp add: power_int_diff power_int_add)
  also have "\<dots> \<le> of_int a / of_int b"
    using la lb b a by (intro frac_le) auto
  finally have "(2::rat) powi (?la - ?lb - 1) \<le> x" by (simp only: x)
  then show ?thesis by (simp add: binary_exponent_def q two_powi_powi Let_def)
qed

lemma round_even_bounds: "of_int (round_even q) \<le> q + 1 / 2" "q - 1 / 2 \<le> of_int (round_even q)"
proof -
  define f :: rat where "f = of_int \<lfloor>q\<rfloor>"
  have f: "f \<le> q" "q < f + 1" unfolding f_def by linarith+
  have "of_int (round_even q) = f \<and> q - f \<le> 1 / 2 \<or> of_int (round_even q) = f + 1 \<and> 1 / 2 \<le> q - f"
    by (cases "q - f < 1 / 2"; cases "1 / 2 < q - f") (auto simp: round_even_def Let_def f_def not_less)
  with f show "of_int (round_even q) \<le> q + 1 / 2" "q - 1 / 2 \<le> of_int (round_even q)"
    by (elim disjE conjE; linarith)+
qed

text \<open>Up to \<open>2^53\<close> the rounding error is at most one, and integers are exact.\<close>

lemma round64_error:
  assumes "0 < x" "x \<le> 2 ^ 53"
  obtains r where "round64 x = Finite r" "0 \<le> r" "r \<le> x + 1" "x - 1 \<le> r"
    "\<And>n. x = of_int n \<Longrightarrow> r = x"
proof -
  define e where "e = max (binary_exponent x - 52) (- 1074)"
  define r where "r = of_int (round_even (x / two_powi e)) * two_powi e"
  have ulp: "0 < two_powi e" by (rule two_powi_pos)
  have "(2::rat) powi binary_exponent x \<le> 2 powi 53"
    using binary_exponent_le [OF assms(1)] assms(2) by (simp add: two_powi_powi)
  then have exp: "binary_exponent x \<le> 53"
    using power_int_strict_increasing [of 53 "binary_exponent x" "2::rat"] by linarith
  then have "e \<le> 1" by (simp add: e_def)
  then have ulp2: "two_powi e \<le> 2"
    using power_int_increasing [of e 1 "2::rat"] by (simp add: two_powi_powi)
  have "r \<le> (x / two_powi e + 1 / 2) * two_powi e" "(x / two_powi e - 1 / 2) * two_powi e \<le> r"
    unfolding r_def using ulp round_even_bounds by (simp_all add: mult_right_mono)
  then have bounds: "r \<le> x + 1" "x - 1 \<le> r"
    using ulp ulp2 by (simp_all add: algebra_simps)
  have nonneg: "0 \<le> r" using assms(1) ulp by (simp add: r_def round_even_nonneg)
  have small: "\<not> (r \<noteq> 0 \<and> 1024 \<le> binary_exponent \<bar>r\<bar>)"
  proof
    assume big: "r \<noteq> 0 \<and> 1024 \<le> binary_exponent \<bar>r\<bar>"
    with nonneg have "two_powi (binary_exponent r) \<le> r" by (intro binary_exponent_le) simp
    moreover have "(2::rat) powi 54 \<le> two_powi (binary_exponent r)"
      using big nonneg by (simp only: two_powi_powi) (intro power_int_increasing; simp)
    moreover have "(2::rat) powi 54 = 2 ^ 54" by (simp add: power_int_def)
    ultimately show False using bounds assms(2) by simp
  qed
  have "round64 x = Finite r"
    using assms(1) small by (simp only: round64_def Let_def abs_of_pos [OF assms(1)] r_def [symmetric] e_def [symmetric]) simp
  moreover have "r = x" if n: "x = of_int n" for n
  proof -
    have "\<exists>i. x / two_powi e = of_int i"
    proof (cases "e \<le> 0")
      case True
      then have "x / two_powi e = of_int (n * 2 ^ nat (- e))"
        by (auto simp: n two_powi_def)
      then show ?thesis by blast
    next
      case False
      with \<open>e \<le> 1\<close> have "e = 1" by simp
      with exp have "binary_exponent x = 53" by (simp add: e_def)
      with binary_exponent_le [OF assms(1)] assms(2) have "x = 2 ^ 53"
        by (simp add: two_powi_powi power_int_def)
      with \<open>e = 1\<close> have "x / two_powi e = of_int (2 ^ 52)" by (simp add: two_powi_def)
      then show ?thesis by blast
    qed
    then obtain i where i: "x / two_powi e = of_int i" by blast
    then have "r = (x / two_powi e) * two_powi e" by (simp only: r_def i round_even_of_int)
    with ulp show ?thesis by simp
  qed
  ultimately show ?thesis using that bounds nonneg by blast
qed

lemma float_of_int_exact: "0 \<le> i \<Longrightarrow> i \<le> 2 ^ 53 \<Longrightarrow> float_of_int i = Finite (of_int i)"
proof (cases "i = 0")
  case False
  assume "0 \<le> i" "i \<le> 2 ^ 53"
  with False have "(0::rat) < of_int i" "of_int i \<le> (2::rat) ^ 53"
    using of_int_le_iff [of i "2 ^ 53", where ?'a = rat] by simp_all
  then show ?thesis by (metis round64_error float_of_int_def)
qed (simp add: float_of_int_def)


end
