(* ===== verification/Runtime_Metrics.thy ===== *)
theory Runtime_Metrics
  imports Go_Errors Go_Float "HOL-Library.Multiset"
begin

text \<open>
  \<^verbatim>\<open>Metrics\<close> of \<^verbatim>\<open>internal/observability/metrics.go\<close>: ten \<^verbatim>\<open>atomic.Uint64\<close> counters, the
  operations that record events, the snapshot and the Prometheus text. The operations are called
  from many goroutines at once, and their atomic additions interleave; what a snapshot shows after a set
  of calls is the tally of the calls, in whatever order their additions took effect.
\<close>

section \<open>Counters and operations\<close>

record Metrics =
  httpRequests :: u64
  httpErrors :: u64
  httpDurationNanos :: u64
  indexedBlocks :: u64
  indexedTransfers :: u64
  indexerErrors :: u64
  tokenMetadataErrors :: u64
  rpcRequests :: u64
  rpcRetries :: u64
  rpcFailures :: u64

definition NewMetrics :: Metrics where
  "NewMetrics = \<lparr>httpRequests = 0, httpErrors = 0, httpDurationNanos = 0, indexedBlocks = 0,
     indexedTransfers = 0, indexerErrors = 0, tokenMetadataErrors = 0, rpcRequests = 0, rpcRetries = 0,
     rpcFailures = 0\<rparr>"

definition ObserveHTTPRequest :: "int \<Rightarrow> int \<Rightarrow> Metrics \<Rightarrow> Metrics" where
  "ObserveHTTPRequest status duration m =
     (let m1 = m\<lparr>httpRequests := httpRequests m + 1\<rparr>;
          m2 = m1\<lparr>httpDurationNanos := httpDurationNanos m1 + uint64_of duration\<rparr>
      in if 500 \<le> status then m2\<lparr>httpErrors := httpErrors m2 + 1\<rparr> else m2)"

definition RecordIndexedBlock :: "int \<Rightarrow> Metrics \<Rightarrow> Metrics" where
  "RecordIndexedBlock transferCount m =
     (let m1 = m\<lparr>indexedBlocks := indexedBlocks m + 1\<rparr>
      in if 0 < transferCount then m1\<lparr>indexedTransfers := indexedTransfers m1 + uint64_of transferCount\<rparr>
         else m1)"

definition RecordIndexerError :: "Metrics \<Rightarrow> Metrics" where
  "RecordIndexerError m = m\<lparr>indexerErrors := indexerErrors m + 1\<rparr>"

definition RecordTokenMetadataError :: "Metrics \<Rightarrow> Metrics" where
  "RecordTokenMetadataError m = m\<lparr>tokenMetadataErrors := tokenMetadataErrors m + 1\<rparr>"

definition RecordRPCRequest :: "Metrics \<Rightarrow> Metrics" where
  "RecordRPCRequest m = m\<lparr>rpcRequests := rpcRequests m + 1\<rparr>"

definition RecordRPCRetry :: "Metrics \<Rightarrow> Metrics" where
  "RecordRPCRetry m = m\<lparr>rpcRetries := rpcRetries m + 1\<rparr>"

definition RecordRPCFailure :: "Metrics \<Rightarrow> Metrics" where
  "RecordRPCFailure m = m\<lparr>rpcFailures := rpcFailures m + 1\<rparr>"

lemmas rpc_metrics_defs = RecordRPCRequest_def RecordRPCRetry_def RecordRPCFailure_def

text \<open>A snapshot loads every counter; with no concurrent call it is the counters themselves.\<close>

record MetricsSnapshot =
  HTTPRequests :: u64
  HTTPErrors :: u64
  HTTPDurationNanos :: u64
  IndexedBlocks :: u64
  IndexedTransfers :: u64
  IndexerErrors :: u64
  TokenMetadataErrors :: u64
  RPCRequests :: u64
  RPCRetries :: u64
  RPCFailures :: u64

definition Snapshot :: "Metrics \<Rightarrow> MetricsSnapshot" where
  "Snapshot m = \<lparr>HTTPRequests = httpRequests m, HTTPErrors = httpErrors m,
     HTTPDurationNanos = httpDurationNanos m, IndexedBlocks = indexedBlocks m,
     IndexedTransfers = indexedTransfers m, IndexerErrors = indexerErrors m,
     TokenMetadataErrors = tokenMetadataErrors m, RPCRequests = rpcRequests m, RPCRetries = rpcRetries m,
     RPCFailures = rpcFailures m\<rparr>"

section \<open>Prometheus text\<close>

definition newline :: string where
  "newline = [CHR 0x0A]"

definition metric_entry :: "string \<Rightarrow> string \<Rightarrow> string \<Rightarrow> string" where
  "metric_entry name help value =
     ''# HELP '' @ name @ '' '' @ help @ newline @
     ''# TYPE '' @ name @ '' counter'' @ newline @
     name @ '' '' @ value @ newline"

definition prometheus_text :: "MetricsSnapshot \<Rightarrow> string" where
  "prometheus_text s =
     (let durationSeconds = f_div (float_of_int (uint (HTTPDurationNanos s))) (float_of_int 1000000000)
      in metric_entry ''chainwatch_http_requests_total'' ''Total HTTP requests handled.'' (show_u64 (HTTPRequests s)) @ newline @
         metric_entry ''chainwatch_http_errors_total'' ''Total HTTP requests returning 5xx.'' (show_u64 (HTTPErrors s)) @ newline @
         metric_entry ''chainwatch_http_request_duration_seconds_sum'' ''Total HTTP request duration in seconds.''
           (show_fixed6 durationSeconds) @ newline @
         metric_entry ''chainwatch_http_request_duration_seconds_count'' ''Total HTTP request duration observations.''
           (show_u64 (HTTPRequests s)) @ newline @
         metric_entry ''chainwatch_indexed_blocks_total'' ''Total successfully indexed blocks.'' (show_u64 (IndexedBlocks s)) @ newline @
         metric_entry ''chainwatch_indexed_transfers_total'' ''Total indexed ERC-20 transfers.'' (show_u64 (IndexedTransfers s)) @ newline @
         metric_entry ''chainwatch_indexer_errors_total'' ''Total indexer errors.'' (show_u64 (IndexerErrors s)) @ newline @
         metric_entry ''chainwatch_token_metadata_errors_total'' ''Total token metadata lookup errors.''
           (show_u64 (TokenMetadataErrors s)) @ newline @
         metric_entry ''chainwatch_rpc_requests_total'' ''Total Ethereum RPC requests sent.'' (show_u64 (RPCRequests s)) @ newline @
         metric_entry ''chainwatch_rpc_retries_total'' ''Total Ethereum RPC retries attempted.'' (show_u64 (RPCRetries s)) @ newline @
         metric_entry ''chainwatch_rpc_failures_total'' ''Total Ethereum RPC operations that failed.'' (show_u64 (RPCFailures s)))"

definition WritePrometheus :: "Metrics \<Rightarrow> (string \<Rightarrow> 'w \<Rightarrow> go_error option \<times> 'w) \<Rightarrow> 'w \<Rightarrow> go_error option \<times> 'w" where
  "WritePrometheus m write w = write (prometheus_text (Snapshot m)) w"

section \<open>Interleaved recording\<close>

text \<open>A call is one of the recording operations with its arguments. It runs as the sequence of
  its atomic additions, each a counter and an amount.\<close>

datatype metric_call =
    HTTPRequestObserved (call_status: int) (call_duration: int)
  | IndexedBlockRecorded (call_transferCount: int)
  | IndexerErrorRecorded
  | TokenMetadataErrorRecorded
  | RPCRequestRecorded
  | RPCRetryRecorded
  | RPCFailureRecorded

fun record_call :: "metric_call \<Rightarrow> Metrics \<Rightarrow> Metrics" where
  "record_call (HTTPRequestObserved status duration) = ObserveHTTPRequest status duration"
| "record_call (IndexedBlockRecorded transferCount) = RecordIndexedBlock transferCount"
| "record_call IndexerErrorRecorded = RecordIndexerError"
| "record_call TokenMetadataErrorRecorded = RecordTokenMetadataError"
| "record_call RPCRequestRecorded = RecordRPCRequest"
| "record_call RPCRetryRecorded = RecordRPCRetry"
| "record_call RPCFailureRecorded = RecordRPCFailure"

datatype counter =
    C_httpRequests | C_httpErrors | C_httpDurationNanos | C_indexedBlocks | C_indexedTransfers
  | C_indexerErrors | C_tokenMetadataErrors | C_rpcRequests | C_rpcRetries | C_rpcFailures

fun atomic_Add :: "counter \<times> u64 \<Rightarrow> Metrics \<Rightarrow> Metrics" where
  "atomic_Add (C_httpRequests, d) m = m\<lparr>httpRequests := httpRequests m + d\<rparr>"
| "atomic_Add (C_httpErrors, d) m = m\<lparr>httpErrors := httpErrors m + d\<rparr>"
| "atomic_Add (C_httpDurationNanos, d) m = m\<lparr>httpDurationNanos := httpDurationNanos m + d\<rparr>"
| "atomic_Add (C_indexedBlocks, d) m = m\<lparr>indexedBlocks := indexedBlocks m + d\<rparr>"
| "atomic_Add (C_indexedTransfers, d) m = m\<lparr>indexedTransfers := indexedTransfers m + d\<rparr>"
| "atomic_Add (C_indexerErrors, d) m = m\<lparr>indexerErrors := indexerErrors m + d\<rparr>"
| "atomic_Add (C_tokenMetadataErrors, d) m = m\<lparr>tokenMetadataErrors := tokenMetadataErrors m + d\<rparr>"
| "atomic_Add (C_rpcRequests, d) m = m\<lparr>rpcRequests := rpcRequests m + d\<rparr>"
| "atomic_Add (C_rpcRetries, d) m = m\<lparr>rpcRetries := rpcRetries m + d\<rparr>"
| "atomic_Add (C_rpcFailures, d) m = m\<lparr>rpcFailures := rpcFailures m + d\<rparr>"

fun additions :: "metric_call \<Rightarrow> (counter \<times> u64) list" where
  "additions (HTTPRequestObserved status duration) =
     [(C_httpRequests, 1), (C_httpDurationNanos, uint64_of duration)] @
     (if 500 \<le> status then [(C_httpErrors, 1)] else [])"
| "additions (IndexedBlockRecorded transferCount) =
     (C_indexedBlocks, 1) # (if 0 < transferCount then [(C_indexedTransfers, uint64_of transferCount)] else [])"
| "additions IndexerErrorRecorded = [(C_indexerErrors, 1)]"
| "additions TokenMetadataErrorRecorded = [(C_tokenMetadataErrors, 1)]"
| "additions RPCRequestRecorded = [(C_rpcRequests, 1)]"
| "additions RPCRetryRecorded = [(C_rpcRetries, 1)]"
| "additions RPCFailureRecorded = [(C_rpcFailures, 1)]"

lemma atomic_Add_commute: "atomic_Add x (atomic_Add y m) = atomic_Add y (atomic_Add x m)"
  by (cases "(x, m)" rule: atomic_Add.cases; cases "(y, m)" rule: atomic_Add.cases)
    (simp_all add: add.commute add.left_commute)

lemma record_call_additions: "record_call c m = fold atomic_Add (additions c) m"
  by (cases c)
    (simp_all add: ObserveHTTPRequest_def RecordIndexedBlock_def RecordIndexerError_def
      RecordTokenMetadataError_def rpc_metrics_defs Let_def)

lemma record_calls_additions: "fold record_call cs m = fold atomic_Add (concat (map additions cs)) m"
  by (induction cs arbitrary: m) (simp_all add: record_call_additions)

lemma fold_atomic_Add_mset:
  assumes "mset xs = mset ys"
  shows "fold atomic_Add xs = fold atomic_Add ys"
  by (rule fold_multiset_equiv [OF _ assms]) (auto simp: fun_eq_iff atomic_Add_commute)

text \<open>The tally of a list of calls, read off the calls themselves.\<close>

definition tally :: "metric_call list \<Rightarrow> MetricsSnapshot" where
  "tally calls =
     (let http = filter is_HTTPRequestObserved calls; indexed = filter is_IndexedBlockRecorded calls
      in \<lparr>HTTPRequests = of_nat (length http),
          HTTPErrors = of_nat (length (filter (\<lambda>c. 500 \<le> call_status c) http)),
          HTTPDurationNanos = of_int (sum_list (map call_duration http)),
          IndexedBlocks = of_nat (length indexed),
          IndexedTransfers = of_int (sum_list (map (\<lambda>c. max 0 (call_transferCount c)) indexed)),
          IndexerErrors = of_nat (count_list calls IndexerErrorRecorded),
          TokenMetadataErrors = of_nat (count_list calls TokenMetadataErrorRecorded),
          RPCRequests = of_nat (count_list calls RPCRequestRecorded),
          RPCRetries = of_nat (count_list calls RPCRetryRecorded),
          RPCFailures = of_nat (count_list calls RPCFailureRecorded)\<rparr>)"

lemma Snapshot_record_calls: "Snapshot (fold record_call calls NewMetrics) = tally calls"
proof (induction calls rule: rev_induct)
  case Nil
  show ?case by (simp add: Snapshot_def NewMetrics_def tally_def)
next
  case (snoc c calls)
  then show ?case
    by (cases c)
      (simp_all add: Snapshot_def tally_def Let_def ObserveHTTPRequest_def RecordIndexedBlock_def RecordIndexerError_def
        RecordTokenMetadataError_def rpc_metrics_defs uint64_of_def)
qed

text \<open>
  C40. Goroutines make the recording calls \<open>calls\<close>, and their atomic additions take effect in some order
  \<open>trace\<close>. A snapshot taken after that shows, whatever the order, the tally of the calls: how many HTTP
  requests there were, how many of them with a status of 500 or more, the sum of their durations, how
  many blocks and how many transfers in them (a negative count adds nothing), and how many indexer
  errors, metadata errors, RPC requests, retries and failures were recorded, each modulo \<open>2^64\<close>. The
  counters are those of the calls made one after the other.
\<close>
theorem metrics_interleaving:
  assumes "mset trace = mset (concat (map additions calls))"
  shows "Snapshot (fold atomic_Add trace NewMetrics) = tally calls \<and>
    fold atomic_Add trace m = fold record_call calls m"
proof -
  have "fold atomic_Add trace m = fold record_call calls m" for m
    by (simp add: record_calls_additions fold_atomic_Add_mset [OF assms])
  then show ?thesis by (simp add: Snapshot_record_calls)
qed

theorem metrics_interleaving_witness:
  "Snapshot (fold atomic_Add [(C_httpRequests, 1), (C_indexedBlocks, 1), (C_httpDurationNanos, 7),
       (C_indexedTransfers, 2), (C_httpErrors, 1)] NewMetrics) =
     \<lparr>HTTPRequests = 1, HTTPErrors = 1, HTTPDurationNanos = 7, IndexedBlocks = 1, IndexedTransfers = 2,
      IndexerErrors = 0, TokenMetadataErrors = 0, RPCRequests = 0, RPCRetries = 0, RPCFailures = 0\<rparr>"
proof -
  let ?calls = "[HTTPRequestObserved 503 7, IndexedBlockRecorded 2]"
  have "mset [(C_httpRequests, 1), (C_indexedBlocks, 1), (C_httpDurationNanos, 7),
       (C_indexedTransfers, 2), (C_httpErrors, 1)] = mset (concat (map additions ?calls))"
    by (simp add: uint64_of_def)
  from metrics_interleaving [OF this, THEN conjunct1]
  show ?thesis by (rule trans) (simp add: tally_def)
qed

end
