(* ===== verification/Rpc_Resilience.thy ===== *)
theory Rpc_Resilience
  imports Chain_Persistence Runtime_Metrics "HOL-Library.Signed_Division"
begin

text \<open>
  \<^verbatim>\<open>internal/ethereum/rpc_resilience.go\<close>: the token-bucket rate limiter, the retry policy with
  exponential backoff and jitter, the classification of errors worth a retry, and
  \<^verbatim>\<open>executeResilientRPC\<close>, which runs one call of the Ethereum backend under them. Durations are
  \<^verbatim>\<open>int64\<close> nanoseconds, tokens are \<^verbatim>\<open>float64\<close>.

  The clock, the random source, the timer and the call context are operations on a world \<open>'w\<close>. The
  limiter's loop sleeps until a token is there and may never return when the clock stands still:
  it is a partial function, and \<^term>\<open>None\<close> is a call that does not return.
\<close>

section \<open>Configuration\<close>

record RPCResilienceConfig =
  rc_MaxAttempts :: int
  rc_InitialBackoff :: int
  rc_MaxBackoff :: int
  rc_JitterFraction :: float64
  rc_RequestsPerSecond :: int
  rc_Burst :: int

definition RPCResilienceConfig_Validate :: "RPCResilienceConfig \<Rightarrow> go_error option" where
  "RPCResilienceConfig_Validate c =
     (if rc_MaxAttempts c \<le> 0 then Some (Anonymous ''RPC max attempts must be greater than zero'')
      else if rc_InitialBackoff c \<le> 0 then Some (Anonymous ''RPC initial backoff must be greater than zero'')
      else if rc_MaxBackoff c < rc_InitialBackoff c then
        Some (Anonymous ''RPC max backoff must be at least the initial backoff'')
      else if f_less (rc_JitterFraction c) (Finite 0) \<or> f_less (Finite 1) (rc_JitterFraction c) then
        Some (Anonymous ''RPC jitter fraction must be between zero and one'')
      else if rc_RequestsPerSecond c \<le> 0 then Some (Anonymous ''RPC requests per second must be greater than zero'')
      else if rc_Burst c \<le> 0 then Some (Anonymous ''RPC burst must be greater than zero'')
      else None)"

section \<open>Sleeping\<close>

text \<open>What the process gives: the context's error, the clock (nanoseconds), the random source, the
  \<^verbatim>\<open>select\<close> between a timer and \<^verbatim>\<open>ctx.Done()\<close> (\<^term>\<open>True\<close> when the timer fires), and the
  platform's value of an out-of-range conversion to \<^verbatim>\<open>int64\<close>.\<close>

record 'w rpc_env =
  ctx_Err :: "'w \<Rightarrow> go_error option"
  time_Now :: "'w \<Rightarrow> int \<times> 'w"
  rand_Float64 :: "'w \<Rightarrow> float64 \<times> 'w"
  timer_fires :: "int \<Rightarrow> 'w \<Rightarrow> bool \<times> 'w"
  int64_overflow :: "float64 \<Rightarrow> int"

definition sleepWithContext :: "'w rpc_env \<Rightarrow> int \<Rightarrow> 'w \<Rightarrow> (go_error, unit, 'w) outcome" where
  "sleepWithContext env delay w =
     (case timer_fires env delay w of
        (True, w') \<Rightarrow> (Inr (), w')
      | (False, w') \<Rightarrow> ((case ctx_Err env w' of None \<Rightarrow> Inr () | Some err \<Rightarrow> Inl err), w'))"

section \<open>Retry policy\<close>

record 'w rpcRetryPolicy =
  maxAttempts :: int
  initialBackoff :: int
  maxBackoff :: int
  jitterFraction :: float64
  pol_random :: "('w \<Rightarrow> float64 \<times> 'w) option"
  pol_sleep :: "int \<Rightarrow> 'w \<Rightarrow> (go_error, unit, 'w) outcome"

text \<open>The doubling loop of \<^verbatim>\<open>wait\<close>: \<open>exponent\<close> counts up to the failed attempt.\<close>

function backoff_loop :: "int \<Rightarrow> int \<Rightarrow> int \<Rightarrow> int \<Rightarrow> int" where
  "backoff_loop limit failedAttempt exponent delay =
     (if exponent < failedAttempt \<and> delay < limit then
        if delay > limit sdiv 2 then limit
        else backoff_loop limit failedAttempt (exponent + 1) (wrap_int64 (delay * 2))
      else delay)"
  by pat_completeness auto
termination
  by (relation "measure (\<lambda>(limit, failedAttempt, exponent, delay). nat (failedAttempt - exponent))") auto

declare backoff_loop.simps [simp del]

definition base_delay :: "'w rpcRetryPolicy \<Rightarrow> int \<Rightarrow> int" where
  "base_delay p failedAttempt =
     (let delay = backoff_loop (maxBackoff p) failedAttempt 1 (initialBackoff p)
      in if delay > maxBackoff p then maxBackoff p else delay)"

definition jittered_delay :: "(float64 \<Rightarrow> int) \<Rightarrow> float64 \<Rightarrow> float64 \<Rightarrow> int \<Rightarrow> int" where
  "jittered_delay overflow fraction random delay =
     (let multiplier = f_add (Finite 1) (f_mul fraction (f_sub (f_mul (Finite 2) random) (Finite 1)))
      in int64_of_float overflow (math_Max (Finite 0) (f_mul (float_of_int delay) multiplier)))"

definition policy_wait :: "(float64 \<Rightarrow> int) \<Rightarrow> 'w rpcRetryPolicy \<Rightarrow> int \<Rightarrow> 'w \<Rightarrow> (go_error, unit, 'w) outcome" where
  "policy_wait overflow p failedAttempt w =
     (let delay = base_delay p failedAttempt in
      if f_less (Finite 0) (jitterFraction p) then
        (case (case pol_random p of None \<Rightarrow> (Finite (1 / 2), w) | Some random \<Rightarrow> random w) of
           (random, w1) \<Rightarrow> pol_sleep p (jittered_delay overflow (jitterFraction p) random delay) w1)
      else pol_sleep p delay w)"

section \<open>Rate limiter\<close>

record rpcRateLimiter =
  lim_rate :: float64
  lim_burst :: float64
  lim_tokens :: float64
  lim_last :: int

definition newRPCRateLimiter :: "int \<Rightarrow> int \<Rightarrow> int \<Rightarrow> rpcRateLimiter" where
  "newRPCRateLimiter requestsPerSecond burst now =
     \<lparr>lim_rate = float_of_int requestsPerSecond, lim_burst = float_of_int burst,
      lim_tokens = float_of_int burst, lim_last = now\<rparr>"

text \<open>\<^verbatim>\<open>Time.Sub\<close> saturates; \<^verbatim>\<open>Duration.Seconds\<close> adds the whole seconds and the rest.\<close>

definition time_Sub :: "int \<Rightarrow> int \<Rightarrow> int" where
  "time_Sub t u = max (- (2 ^ 63)) (min (2 ^ 63 - 1) (t - u))"

definition duration_Seconds :: "int \<Rightarrow> float64" where
  "duration_Seconds d =
     f_add (float_of_int (d sdiv 1000000000)) (f_div (float_of_int (d smod 1000000000)) (Finite 1000000000))"

text \<open>The critical section of \<^verbatim>\<open>Wait\<close>: refill, then take a token (\<^term>\<open>None\<close>) or give the time to
  sleep.\<close>

definition refill :: "int \<Rightarrow> rpcRateLimiter \<Rightarrow> rpcRateLimiter" where
  "refill now l =
     (let elapsed = duration_Seconds (time_Sub now (lim_last l))
      in if f_less (Finite 0) elapsed then
           l\<lparr>lim_tokens := math_Min (lim_burst l) (f_add (lim_tokens l) (f_mul elapsed (lim_rate l))), lim_last := now\<rparr>
         else l)"

definition limiter_poll :: "(float64 \<Rightarrow> int) \<Rightarrow> int \<Rightarrow> rpcRateLimiter \<Rightarrow> int option \<times> rpcRateLimiter" where
  "limiter_poll overflow now l =
     (let l1 = refill now l
      in if f_le (Finite 1) (lim_tokens l1) then (None, l1\<lparr>lim_tokens := f_sub (lim_tokens l1) (Finite 1)\<rparr>)
         else
           (Some (int64_of_float overflow
              (f_mul (f_div (f_sub (Finite 1) (lim_tokens l1)) (lim_rate l1)) (Finite 1000000000))), l1))"

partial_function (option) limiter_Wait :: "'w rpc_env \<Rightarrow> rpcRateLimiter \<Rightarrow> 'w \<Rightarrow>
    ((go_error + unit) \<times> rpcRateLimiter \<times> 'w) option" where
  "limiter_Wait env l w =
     (case time_Now env w of (now, w1) \<Rightarrow>
        (case limiter_poll (int64_overflow env) now l of
           (None, l') \<Rightarrow> Some (Inr (), l', w1)
         | (Some wait, l') \<Rightarrow>
             (case sleepWithContext env wait w1 of
                (Inl err, w2) \<Rightarrow> Some (Inl err, l', w2)
              | (Inr _, w2) \<Rightarrow> limiter_Wait env l' w2)))"

section \<open>Which errors are retried\<close>

definition retryableHTTPStatus :: "int \<Rightarrow> bool" where
  "retryableHTTPStatus status \<longleftrightarrow> status = 408 \<or> status = 425 \<or> status = 429 \<or> 500 \<le> status"

fun as_HTTPErrorValue :: "go_error \<Rightarrow> int option" where
  "as_HTTPErrorValue (HTTPErrorValue status _) = Some status"
| "as_HTTPErrorValue _ = None"

fun as_HTTPErrorPointer :: "go_error \<Rightarrow> int option" where
  "as_HTTPErrorPointer (HTTPErrorPointer status _) = Some status"
| "as_HTTPErrorPointer _ = None"

fun as_NetError :: "go_error \<Rightarrow> (bool \<times> bool) option" where
  "as_NetError (NetError timeout temporary _ _) = Some (timeout, temporary)"
| "as_NetError _ = None"

fun as_RPCError :: "go_error \<Rightarrow> int option" where
  "as_RPCError (RPCError code _) = Some code"
| "as_RPCError _ = None"

definition isRetryableRPCError :: "go_error option \<Rightarrow> bool" where
  "isRetryableRPCError err =
     (case err of
        None \<Rightarrow> False
      | Some e \<Rightarrow>
          if errors_is e ContextCanceled \<or> errors_is e ContextDeadlineExceeded \<or> errors_is e ErrValidation \<or>
             errors_is e ErrInvalidTokenAddress \<or> errors_is e ErrChainReorg then False
          else if errors_is e ErrTemporaryDependency \<or> errors_is e EthereumNotFound \<or> errors_is e IoEOF \<or>
             errors_is e IoErrUnexpectedEOF \<or> errors_is e SyscallECONNRESET \<or>
             errors_is e SyscallECONNREFUSED \<or> errors_is e SyscallEPIPE then True
          else
            (case errors_as as_HTTPErrorValue e of
               Some status \<Rightarrow> retryableHTTPStatus status
             | None \<Rightarrow>
                 (case errors_as as_HTTPErrorPointer e of
                    Some status \<Rightarrow> retryableHTTPStatus status
                  | None \<Rightarrow>
                      (case errors_as as_NetError e of
                         Some (timeout, temporary) \<Rightarrow> timeout \<or> temporary
                       | None \<Rightarrow>
                           (case errors_as as_RPCError e of
                              Some code \<Rightarrow> code = - 32002 \<or> code = - 32603
                            | None \<Rightarrow> False)))))"

section \<open>The resilient client\<close>

record 'w resilientEthereumBackend = "'w ContinuousTransferClient" +
  FetchTokenMetadata :: "Address \<Rightarrow> 'w \<Rightarrow> (go_error, TokenMetadata, 'w) outcome"

record 'w ResilientEthereumClient =
  rec_next :: "'w resilientEthereumBackend"
  rec_policy :: "'w rpcRetryPolicy"

text \<open>What a call of the client works on: the limiter and the metrics it points to, and the world.\<close>

type_synonym 'w rpc_world = "rpcRateLimiter \<times> Metrics \<times> 'w"

definition NewResilientEthereumClient :: "'w rpc_env \<Rightarrow> 'w resilientEthereumBackend option \<Rightarrow> RPCResilienceConfig \<Rightarrow>
    Metrics option \<Rightarrow> 'w \<Rightarrow> (go_error, 'w ResilientEthereumClient \<times> rpcRateLimiter \<times> Metrics, 'w) outcome" where
  "NewResilientEthereumClient env next config metrics w =
     (case next of
        None \<Rightarrow> (Inl (Anonymous ''Ethereum RPC client is required''), w)
      | Some backend \<Rightarrow>
          (case RPCResilienceConfig_Validate config of
             Some err \<Rightarrow>
               (Inl (NewDomainError (Some (Sentinel ErrValidation)) ''validate RPC resilience configuration'' (Some err)), w)
           | None \<Rightarrow>
               (case time_Now env w of (now, w') \<Rightarrow>
                  (Inr (\<lparr>rec_next = backend,
                         rec_policy = \<lparr>maxAttempts = rc_MaxAttempts config, initialBackoff = rc_InitialBackoff config,
                            maxBackoff = rc_MaxBackoff config, jitterFraction = rc_JitterFraction config,
                            pol_random = Some (rand_Float64 env), pol_sleep = sleepWithContext env\<rparr>\<rparr>,
                        newRPCRateLimiter (rc_RequestsPerSecond config) (rc_Burst config) now,
                        case metrics of None \<Rightarrow> NewMetrics | Some m \<Rightarrow> m), w'))))"

definition budget_exhausted :: "int \<Rightarrow> go_error \<Rightarrow> go_error" where
  "budget_exhausted attempt lastErr =
     NewDomainError (Some (Sentinel ErrTemporaryDependency))
       (''RPC retry budget exhausted after '' @ show_int attempt @ '' attempts'') (Some lastErr)"

text \<open>\<open>zero\<close> is the zero value of the result type. The result is \<^term>\<open>None\<close> when waiting for the rate
  limiter never ends.\<close>

function rpc_attempts :: "'w rpc_env \<Rightarrow> 'w rpcRetryPolicy \<Rightarrow> 'a \<Rightarrow> ('w \<Rightarrow> (go_error, 'a, 'w) outcome) \<Rightarrow>
    int \<Rightarrow> go_error option \<Rightarrow> 'w rpc_world \<Rightarrow> ((go_error, 'a, 'w rpc_world) outcome) option" where
  "rpc_attempts env p zero call attempt lastErr (l, m, w) =
     (if attempt \<le> maxAttempts p then
        (case limiter_Wait env l w of
           None \<Rightarrow> None
         | Some (Inl err, l1, w1) \<Rightarrow> Some (Inl err, (l1, m, w1))
         | Some (Inr _, l1, w1) \<Rightarrow>
             let m1 = RecordRPCRequest m in
             (case call w1 of
                (Inr value, w2) \<Rightarrow> Some (Inr value, (l1, m1, w2))
              | (Inl err, w2) \<Rightarrow>
                  (case ctx_Err env w2 of
                     Some ctxErr \<Rightarrow> Some (Inl ctxErr, (l1, m1, w2))
                   | None \<Rightarrow>
                       if \<not> isRetryableRPCError (Some err) then Some (Inl err, (l1, RecordRPCFailure m1, w2))
                       else if attempt = maxAttempts p then
                         Some (Inl (budget_exhausted attempt err), (l1, RecordRPCFailure m1, w2))
                       else
                         (case policy_wait (int64_overflow env) p attempt w2 of
                            (Inl werr, w3) \<Rightarrow> Some (Inl werr, (l1, RecordRPCRetry m1, w3))
                          | (Inr _, w3) \<Rightarrow>
                              rpc_attempts env p zero call (attempt + 1) (Some err) (l1, RecordRPCRetry m1, w3)))))
      else Some (case lastErr of None \<Rightarrow> Inr zero | Some err \<Rightarrow> Inl err, (l, m, w)))"
  by pat_completeness auto
termination
  by (relation "measure (\<lambda>(env, p, zero, call, attempt, lastErr, s). nat (maxAttempts p + 1 - attempt))") auto

declare rpc_attempts.simps [simp del]

definition executeResilientRPC :: "'w rpc_env \<Rightarrow> 'w ResilientEthereumClient \<Rightarrow> 'a \<Rightarrow>
    ('w \<Rightarrow> (go_error, 'a, 'w) outcome) \<Rightarrow> 'w rpc_world \<Rightarrow> ((go_error, 'a, 'w rpc_world) outcome) option" where
  "executeResilientRPC env client zero call s = rpc_attempts env (rec_policy client) zero call 1 None s"

definition zero_ObservedBlock :: ObservedBlock where
  "zero_ObservedBlock = \<lparr>ob_Number = 0, ob_Hash = [], ob_ParentHash = [], ob_Timestamp = 0, ob_Transactions = []\<rparr>"

definition zero_BlockTransferIndex :: BlockTransferIndex where
  "zero_BlockTransferIndex = \<lparr>ix_BlockNumber = 0, ix_BlockHash = [], ix_ParentHash = [], ix_Transfers = []\<rparr>"

definition zero_TokenMetadata :: TokenMetadata where
  "zero_TokenMetadata = \<lparr>md_Address = [], md_Name = [], md_Symbol = [], md_Decimals = 0\<rparr>"

definition res_GetLatestObservedBlock :: "'w rpc_env \<Rightarrow> 'w ResilientEthereumClient \<Rightarrow> 'w rpc_world \<Rightarrow>
    ((go_error, ObservedBlock, 'w rpc_world) outcome) option" where
  "res_GetLatestObservedBlock env c = executeResilientRPC env c zero_ObservedBlock (GetLatestObservedBlock (rec_next c))"

definition res_GetObservedBlockByNumber :: "'w rpc_env \<Rightarrow> 'w ResilientEthereumClient \<Rightarrow> u64 \<Rightarrow> 'w rpc_world \<Rightarrow>
    ((go_error, ObservedBlock, 'w rpc_world) outcome) option" where
  "res_GetObservedBlockByNumber env c blockNumber =
     executeResilientRPC env c zero_ObservedBlock (GetObservedBlockByNumber (rec_next c) blockNumber)"

definition res_GetERC20TransfersByBlock :: "'w rpc_env \<Rightarrow> 'w ResilientEthereumClient \<Rightarrow> ObservedBlock \<Rightarrow> 'w rpc_world \<Rightarrow>
    ((go_error, BlockTransferIndex, 'w rpc_world) outcome) option" where
  "res_GetERC20TransfersByBlock env c block =
     executeResilientRPC env c zero_BlockTransferIndex (GetERC20TransfersByBlock (rec_next c) block)"

definition res_FetchTokenMetadata :: "'w rpc_env \<Rightarrow> 'w ResilientEthereumClient \<Rightarrow> Address \<Rightarrow> 'w rpc_world \<Rightarrow>
    ((go_error, TokenMetadata, 'w rpc_world) outcome) option" where
  "res_FetchTokenMetadata env c address =
     executeResilientRPC env c zero_TokenMetadata (FetchTokenMetadata (rec_next c) address)"

section \<open>Backoff\<close>

text \<open>Doubling with the guard against overflow is capped doubling of unbounded integers.\<close>

lemma backoff_loop_closed:
  assumes "0 < delay" "delay \<le> limit" "limit < 2 ^ 63"
  shows "backoff_loop limit k e delay = min limit (delay * 2 ^ nat (k - e))"
  using assms
proof (induction limit k e delay rule: backoff_loop.induct)
  case (1 limit k e delay)
  have half: "limit sdiv 2 = limit div 2"
    using "1.prems" by (simp add: signed_divide_int_def)
  show ?case
  proof (cases "e < k \<and> delay < limit")
    case False
    show ?thesis
    proof (cases "e < k")
      case True
      with False "1.prems" have "delay = limit" by simp
      moreover have "limit * 1 \<le> limit * 2 ^ nat (k - e)" using "1.prems" by (intro mult_left_mono) auto
      ultimately show ?thesis by (simp add: backoff_loop.simps [of limit k e])
    qed (use "1.prems" in \<open>simp add: backoff_loop.simps [of limit k e]\<close>)
  next
    case loop: True
    define n where "n = nat (k - (e + 1))"
    with loop have n: "nat (k - e) = Suc n" "nat (k - (e + 1)) = n" by linarith+
    show ?thesis
    proof (cases "delay > limit div 2")
      case True
      then have "limit \<le> delay * 2 * 1" by linarith
      also have "delay * 2 * 1 \<le> delay * 2 * 2 ^ n" using "1.prems" by (intro mult_left_mono) auto
      finally show ?thesis using loop True n by (simp add: backoff_loop.simps [of limit k e] half)
    next
      case False
      then have le: "delay * 2 \<le> limit" by linarith
      with "1.prems" have "wrap_int64 (delay * 2) = delay * 2" by (intro wrap_int64_id) auto
      with "1.IH" [OF loop] False "1.prems" le loop n show ?thesis
        by (simp add: backoff_loop.simps [of limit k e] half)
    qed
  qed
qed


definition valid_policy :: "'w rpcRetryPolicy \<Rightarrow> bool" where
  "valid_policy p \<longleftrightarrow> 0 < maxAttempts p \<and> 0 < initialBackoff p \<and> initialBackoff p \<le> maxBackoff p \<and> maxBackoff p < 2 ^ 63"

lemma base_delay_closed:
  "valid_policy p \<Longrightarrow> base_delay p k = min (maxBackoff p) (initialBackoff p * 2 ^ nat (k - 1))"
  by (simp add: base_delay_def valid_policy_def backoff_loop_closed)

text \<open>
  C34. The delay before retry number \<open>k\<close> is the initial backoff doubled \<open>k - 1\<close> times and capped
  at the maximum, as on unbounded integers: the guarded doubling never overflows. It is positive, it
  never decreases from one attempt to the next, and without jitter it is what the policy sleeps.
\<close>
theorem policy_backoff:
  assumes "valid_policy p"
  shows "base_delay p k = min (maxBackoff p) (initialBackoff p * 2 ^ nat (k - 1)) \<and>
    0 < base_delay p k \<and> base_delay p k \<le> base_delay p (k + 1) \<and>
    (jitterFraction p = Finite 0 \<longrightarrow>
       policy_wait overflow p k w = pol_sleep p (min (maxBackoff p) (initialBackoff p * 2 ^ nat (k - 1))) w)"
proof -
  have pos: "0 < initialBackoff p" "0 < maxBackoff p" using assms by (auto simp: valid_policy_def)
  have "initialBackoff p * 2 ^ nat (k - 1) \<le> initialBackoff p * 2 ^ nat (k + 1 - 1)"
    using pos by (intro mult_left_mono power_increasing) auto
  then have mono: "base_delay p k \<le> base_delay p (k + 1)"
    using assms by (simp add: base_delay_closed)
  have "0 < base_delay p k" using pos assms by (simp add: base_delay_closed)
  with mono show ?thesis using assms by (simp add: base_delay_closed policy_wait_def)
qed

section \<open>Rate limiting\<close>

text \<open>The bucket holds between zero and \<open>burst\<close> tokens.\<close>

definition limiter_ok :: "rpcRateLimiter \<Rightarrow> bool" where
  "limiter_ok l \<longleftrightarrow>
     (case (lim_rate l, lim_burst l, lim_tokens l) of
        (Finite r, Finite b, Finite t) \<Rightarrow> 0 < r \<and> b \<le> 2 ^ 53 \<and> 0 \<le> t \<and> t \<le> b
      | _ \<Rightarrow> False)"

lemma limiter_okE:
  assumes "limiter_ok l"
  obtains r b t where "lim_rate l = Finite r" "lim_burst l = Finite b" "lim_tokens l = Finite t"
    "0 < r" "b \<le> 2 ^ 53" "0 \<le> t" "t \<le> b"
  using assms by (auto simp: limiter_ok_def split: float64.splits)

lemma newRPCRateLimiter_ok:
  assumes "0 < requests" "requests \<le> 2 ^ 53" "0 < burst" "burst \<le> 2 ^ 53"
  shows "limiter_ok (newRPCRateLimiter requests burst now)"
proof -
  have "of_int burst \<le> (2::rat) ^ 53" using assms(4) of_int_le_iff [of burst "2 ^ 53", where ?'a = rat] by simp
  with assms show ?thesis
    by (simp add: newRPCRateLimiter_def limiter_ok_def float_of_int_exact)
qed

lemma refill_bounds:
  assumes "0 < r" "0 \<le> t" "t \<le> b" "f_less (Finite 0) elapsed"
  shows "\<exists>t'. math_Min (Finite b) (f_add (Finite t) (f_mul elapsed (Finite r))) = Finite t' \<and> 0 \<le> t' \<and> t' \<le> b"
proof -
  have "f_nonneg (f_mul elapsed (Finite r))"
    using assms by (cases elapsed) (auto simp: signed_infinity_def)
  then have "f_nonneg (f_add (Finite t) (f_mul elapsed (Finite r)))"
    using assms by (intro f_add_nonneg) auto
  with assms show ?thesis
    by (cases "f_add (Finite t) (f_mul elapsed (Finite r))") (auto simp: math_Min_def)
qed

lemma spend_bounds:
  assumes "1 \<le> t" "t \<le> 2 ^ 53"
  shows "\<exists>t'. f_sub (Finite t) (Finite 1) = Finite t' \<and> 0 \<le> t' \<and> t' \<le> t"
proof (cases "t = 1")
  case False
  with assms have "0 < t - 1" "t - 1 \<le> 2 ^ 53" by auto
  then obtain r where "round64 (t - 1) = Finite r" "0 \<le> r" "r \<le> t - 1 + 1" by (rule round64_error)
  then show ?thesis by (simp add: f_sub_def)
qed (simp add: f_sub_def)

lemma refill_ok:
  assumes "limiter_ok l"
  shows "limiter_ok (refill now l) \<and> lim_burst (refill now l) = lim_burst l \<and> lim_rate (refill now l) = lim_rate l"
proof -
  from assms obtain r b t where l: "lim_rate l = Finite r" "lim_burst l = Finite b" "lim_tokens l = Finite t"
    and b: "0 < r" "b \<le> 2 ^ 53" "0 \<le> t" "t \<le> b" by (rule limiter_okE)
  show ?thesis
  proof (cases "f_less (Finite 0) (duration_Seconds (time_Sub now (lim_last l)))")
    case True
    from refill_bounds [OF b(1,3,4) True] obtain t' where
      "math_Min (Finite b) (f_add (Finite t) (f_mul (duration_Seconds (time_Sub now (lim_last l))) (Finite r))) = Finite t'"
      "0 \<le> t'" "t' \<le> b" by blast
    with True l b show ?thesis by (simp add: refill_def limiter_ok_def)
  qed (use assms in \<open>simp add: refill_def\<close>)
qed

lemma limiter_poll_ok:
  assumes "limiter_ok l" "limiter_poll overflow now l = (wait, l')"
  shows "limiter_ok l' \<and> lim_burst l' = lim_burst l \<and> lim_rate l' = lim_rate l"
proof -
  let ?l = "refill now l"
  from refill_ok [OF assms(1)] have ok: "limiter_ok ?l" and same: "lim_burst ?l = lim_burst l" "lim_rate ?l = lim_rate l" by auto
  from ok obtain r b t where l: "lim_rate ?l = Finite r" "lim_burst ?l = Finite b" "lim_tokens ?l = Finite t"
    and b: "0 < r" "b \<le> 2 ^ 53" "0 \<le> t" "t \<le> b" by (rule limiter_okE)
  show ?thesis
  proof (cases "1 \<le> t")
    case True
    with b obtain t' where "f_sub (Finite t) (Finite 1) = Finite t'" "0 \<le> t'" "t' \<le> t"
      using spend_bounds [of t] by auto
    with True assms(2) l b same show ?thesis
      by (auto simp: limiter_poll_def Let_def f_le_def limiter_ok_def split: if_splits)
  next
    case False
    with assms(2) l b same ok show ?thesis by (auto simp: limiter_poll_def Let_def f_le_def)
  qed
qed

lemma limiter_Wait_ok:
  assumes "limiter_Wait env l w = Some (r, l', w')" "limiter_ok l"
  shows "limiter_ok l' \<and> lim_burst l' = lim_burst l \<and> lim_rate l' = lim_rate l"
proof -
  have "limiter_ok l \<longrightarrow> limiter_ok (fst (snd (r, l', w'))) \<and> lim_burst (fst (snd (r, l', w'))) = lim_burst l \<and>
      lim_rate (fst (snd (r, l', w'))) = lim_rate l"
  proof (rule limiter_Wait.raw_induct [where P = "\<lambda>env l w out. limiter_ok l \<longrightarrow> limiter_ok (fst (snd out)) \<and>
        lim_burst (fst (snd out)) = lim_burst l \<and> lim_rate (fst (snd out)) = lim_rate l", OF _ assms(1)], goal_cases)
    case (1 Wait env l w out)
    obtain now w1 where now: "time_Now env w = (now, w1)" by (rule prod.exhaust)
    obtain wait l1 where poll: "limiter_poll (int64_overflow env) now l = (wait, l1)" by (rule prod.exhaust)
    from limiter_poll_ok [OF _ poll] 1(2) 1(1) [of env l1 _ out] now poll show ?case
      by (auto split: option.splits prod.splits sum.splits)
  qed
  with assms(2) show ?thesis by simp
qed


section \<open>Correctness of a resilient call\<close>

text \<open>\<open>failed_attempts env p call s es s'\<close>: from \<open>s\<close> the attempts with the errors \<open>es\<close> failed, each after
  a permit of the limiter and each followed by its backoff, and led to \<open>s'\<close>.\<close>

inductive failed_attempts :: "'w rpc_env \<Rightarrow> 'w rpcRetryPolicy \<Rightarrow> ('w \<Rightarrow> (go_error, 'a, 'w) outcome) \<Rightarrow>
    'w rpc_world \<Rightarrow> go_error list \<Rightarrow> 'w rpc_world \<Rightarrow> bool"
  for env :: "'w rpc_env" and p :: "'w rpcRetryPolicy" and call :: "'w \<Rightarrow> (go_error, 'a, 'w) outcome" and s :: "'w rpc_world"
where
  no_attempt: "failed_attempts env p call s [] s"
| failed_attempt: "failed_attempts env p call s es (l, m, w) \<Longrightarrow>
    limiter_Wait env l w = Some (Inr (), l1, w1) \<Longrightarrow> call w1 = (Inl e, w2) \<Longrightarrow> ctx_Err env w2 = None \<Longrightarrow>
    isRetryableRPCError (Some e) \<Longrightarrow> int (length es) + 1 < maxAttempts p \<Longrightarrow>
    policy_wait (int64_overflow env) p (int (length es) + 1) w2 = (Inr (), w3) \<Longrightarrow>
    failed_attempts env p call s (es @ [e]) (l1, RecordRPCRetry (RecordRPCRequest m), w3)"

text \<open>How the call ends after the failed attempts \<open>es\<close>, in the world \<open>(l, m, w)\<close> they lead to.\<close>

inductive rpc_ends :: "'w rpc_env \<Rightarrow> 'w rpcRetryPolicy \<Rightarrow> ('w \<Rightarrow> (go_error, 'a, 'w) outcome) \<Rightarrow>
    go_error list \<Rightarrow> 'w rpc_world \<Rightarrow> (go_error, 'a, 'w rpc_world) outcome \<Rightarrow> bool"
  for env :: "'w rpc_env" and p :: "'w rpcRetryPolicy" and call :: "'w \<Rightarrow> (go_error, 'a, 'w) outcome" and es :: "go_error list"
where
  not_permitted: "limiter_Wait env l w = Some (Inl err, l1, w1) \<Longrightarrow> rpc_ends env p call es (l, m, w) (Inl err, (l1, m, w1))"
| succeeded: "limiter_Wait env l w = Some (Inr (), l1, w1) \<Longrightarrow> call w1 = (Inr value, w2) \<Longrightarrow>
    rpc_ends env p call es (l, m, w) (Inr value, (l1, RecordRPCRequest m, w2))"
| cancelled: "limiter_Wait env l w = Some (Inr (), l1, w1) \<Longrightarrow> call w1 = (Inl err, w2) \<Longrightarrow> ctx_Err env w2 = Some ctxErr \<Longrightarrow>
    rpc_ends env p call es (l, m, w) (Inl ctxErr, (l1, RecordRPCRequest m, w2))"
| permanent: "limiter_Wait env l w = Some (Inr (), l1, w1) \<Longrightarrow> call w1 = (Inl err, w2) \<Longrightarrow> ctx_Err env w2 = None \<Longrightarrow>
    \<not> isRetryableRPCError (Some err) \<Longrightarrow>
    rpc_ends env p call es (l, m, w) (Inl err, (l1, RecordRPCFailure (RecordRPCRequest m), w2))"
| exhausted: "limiter_Wait env l w = Some (Inr (), l1, w1) \<Longrightarrow> call w1 = (Inl err, w2) \<Longrightarrow> ctx_Err env w2 = None \<Longrightarrow>
    isRetryableRPCError (Some err) \<Longrightarrow> int (length es) + 1 = maxAttempts p \<Longrightarrow>
    rpc_ends env p call es (l, m, w)
      (Inl (budget_exhausted (maxAttempts p) err), (l1, RecordRPCFailure (RecordRPCRequest m), w2))"
| interrupted: "limiter_Wait env l w = Some (Inr (), l1, w1) \<Longrightarrow> call w1 = (Inl err, w2) \<Longrightarrow> ctx_Err env w2 = None \<Longrightarrow>
    isRetryableRPCError (Some err) \<Longrightarrow> int (length es) + 1 < maxAttempts p \<Longrightarrow>
    policy_wait (int64_overflow env) p (int (length es) + 1) w2 = (Inl werr, w3) \<Longrightarrow>
    rpc_ends env p call es (l, m, w) (Inl werr, (l1, RecordRPCRetry (RecordRPCRequest m), w3))"

lemma failed_attempts_bound: "failed_attempts env p call s es s' \<Longrightarrow> es = [] \<or> int (length es) < maxAttempts p"
  by (induction rule: failed_attempts.induct) auto

lemma failed_attempts_retryable: "failed_attempts env p call s es s' \<Longrightarrow> \<forall>e \<in> set es. isRetryableRPCError (Some e)"
  by (induction rule: failed_attempts.induct) auto

text \<open>One turn of the loop either ends the call or is a failed attempt after which the loop goes on.\<close>

lemma rpc_attempts_turn:
  assumes run: "rpc_attempts env p zero call (int (length es) + 1) lastErr (l, m, w) = Some out"
    and le: "int (length es) + 1 \<le> maxAttempts p" and failed: "failed_attempts env p call s es (l, m, w)"
  shows "rpc_ends env p call es (l, m, w) out \<or>
    (\<exists>e s''. failed_attempts env p call s (es @ [e]) s'' \<and> int (length es) + 1 < maxAttempts p \<and>
       rpc_attempts env p zero call (int (length (es @ [e])) + 1) (Some e) s'' = Some out)"
proof -
  note run = run [unfolded rpc_attempts.simps [of env p zero call "int (length es) + 1"]]
  from run le obtain permit l1 w1 where wait: "limiter_Wait env l w = Some (permit, l1, w1)"
    by (cases "limiter_Wait env l w") auto
  obtain r w2 where call: "call w1 = (r, w2)" by (rule prod.exhaust)
  obtain b w3 where slept: "policy_wait (int64_overflow env) p (int (length es) + 1) w2 = (b, w3)" by (rule prod.exhaust)
  show ?thesis
  proof (cases "\<exists>err. permit = Inr () \<and> r = Inl err \<and> ctx_Err env w2 = None \<and> isRetryableRPCError (Some err) \<and>
      int (length es) + 1 \<noteq> maxAttempts p \<and> b = Inr ()")
    case True
    then obtain err where retry: "permit = Inr ()" "r = Inl err" "ctx_Err env w2 = None" "isRetryableRPCError (Some err)"
      "int (length es) + 1 \<noteq> maxAttempts p" "b = Inr ()" by blast
    with le have lt: "int (length es) + 1 < maxAttempts p" by simp
    from failed_attempt [OF failed wait [unfolded retry] call [unfolded retry] retry(3,4) lt slept [unfolded retry]]
    have "failed_attempts env p call s (es @ [err]) (l1, RecordRPCRetry (RecordRPCRequest m), w3)" .
    moreover have "rpc_attempts env p zero call (int (length (es @ [err])) + 1) (Some err)
        (l1, RecordRPCRetry (RecordRPCRequest m), w3) = Some out"
      using run le lt wait call slept retry by (simp add: Let_def add.commute)
    ultimately show ?thesis using lt by blast
  next
    case False
    then have "rpc_ends env p call es (l, m, w) out"
      using run le wait call slept
      by (auto simp: Let_def split: sum.splits option.splits if_splits intro: rpc_ends.intros)
    then show ?thesis ..
  qed
qed

lemma rpc_attempts_sound:
  assumes "rpc_attempts env p zero call (int (length es) + 1) lastErr s' = Some out"
    and "failed_attempts env p call s es s'" "int (length es) + 1 \<le> maxAttempts p"
  shows "\<exists>fs mid. failed_attempts env p call s fs mid \<and> rpc_ends env p call fs mid out"
  using assms
proof (induction "nat (maxAttempts p - int (length es))" arbitrary: es lastErr s' rule: less_induct)
  case less
  obtain l m w where s': "s' = (l, m, w)" by (cases s')
  from rpc_attempts_turn [OF less.prems(1) [unfolded s'] less.prems(3) less.prems(2) [unfolded s']]
  show ?case
  proof
    assume "rpc_ends env p call es (l, m, w) out"
    with less.prems(2) s' show ?thesis by blast
  next
    assume "\<exists>e s''. failed_attempts env p call s (es @ [e]) s'' \<and> int (length es) + 1 < maxAttempts p \<and>
       rpc_attempts env p zero call (int (length (es @ [e])) + 1) (Some e) s'' = Some out"
    then obtain e s'' where go_on: "failed_attempts env p call s (es @ [e]) s''" "int (length es) + 1 < maxAttempts p"
      "rpc_attempts env p zero call (int (length (es @ [e])) + 1) (Some e) s'' = Some out" by blast
    then show ?thesis by (intro less.hyps [OF _ go_on(3,1)]) auto
  qed
qed


text \<open>What the attempts do to the limiter and to the counters.\<close>

abbreviation world_limiter :: "'w rpc_world \<Rightarrow> rpcRateLimiter" where "world_limiter s \<equiv> fst s"

abbreviation world_metrics :: "'w rpc_world \<Rightarrow> Metrics" where "world_metrics s \<equiv> fst (snd s)"

definition accounted :: "Metrics \<Rightarrow> nat \<Rightarrow> nat \<Rightarrow> nat \<Rightarrow> Metrics \<Rightarrow> bool" where
  "accounted m requests retries failures m' \<longleftrightarrow>
     m' = m\<lparr>rpcRequests := rpcRequests m + of_nat requests, rpcRetries := rpcRetries m + of_nat retries,
            rpcFailures := rpcFailures m + of_nat failures\<rparr>"

lemma failed_attempts_effect:
  assumes "failed_attempts env p call s es s'"
  shows "(limiter_ok (world_limiter s) \<longrightarrow>
      limiter_ok (world_limiter s') \<and> lim_burst (world_limiter s') = lim_burst (world_limiter s)) \<and>
    accounted (world_metrics s) (length es) (length es) 0 (world_metrics s')"
  using assms
  by (induction rule: failed_attempts.induct)
    (auto simp: rpc_metrics_defs accounted_def add.commute dest: limiter_Wait_ok)

lemma rpc_ends_limiter:
  assumes "rpc_ends env p call es s (r, s')" "limiter_ok (world_limiter s)"
  shows "limiter_ok (world_limiter s') \<and> lim_burst (world_limiter s') = lim_burst (world_limiter s)"
  using assms by (cases rule: rpc_ends.cases) (auto dest: limiter_Wait_ok)

lemma accounted_trans:
  "accounted m a b c m' \<Longrightarrow> accounted m' a' b' c' m'' \<Longrightarrow> accounted m (a + a') (b + b') (c + c') m''"
  by (simp add: accounted_def add.assoc)

text \<open>The answers the backend gave, kept by a history of the world: \<open>history\<close> grows with each call of
  the backend by its answer and by the error the context has then, and by nothing else.\<close>

type_synonym 'a answer = "(go_error + 'a) \<times> go_error option"

definition keeps_history :: "'w rpc_env \<Rightarrow> 'w rpcRetryPolicy \<Rightarrow> ('w \<Rightarrow> (go_error, 'a, 'w) outcome) \<Rightarrow>
    ('w \<Rightarrow> 'a answer list) \<Rightarrow> bool" where
  "keeps_history env p call history \<longleftrightarrow>
     (\<forall>w r w'. call w = (r, w') \<longrightarrow> history w' = history w @ [(r, ctx_Err env w')]) \<and>
     (\<forall>w. history (snd (time_Now env w)) = history w) \<and>
     (\<forall>d w. history (snd (timer_fires env d w)) = history w) \<and>
     (\<forall>random w. pol_random p = Some random \<longrightarrow> history (snd (random w)) = history w) \<and>
     (\<forall>d w. history (snd (pol_sleep p d w)) = history w)"

text \<open>A failure that is worth another attempt, and one that ends the call when no attempt is left.\<close>

definition transient :: "'a answer \<Rightarrow> bool" where
  "transient a \<longleftrightarrow> snd a = None \<and> (\<exists>e. fst a = Inl e \<and> isRetryableRPCError (Some e))"

definition final_failure :: "int \<Rightarrow> 'a answer list \<Rightarrow> bool" where
  "final_failure attempts as \<longleftrightarrow>
     as \<noteq> [] \<and> snd (last as) = None \<and> isl (fst (last as)) \<and> (transient (last as) \<longrightarrow> int (length as) = attempts)"

lemma limiter_Wait_history:
  assumes "limiter_Wait env l w = Some (r, l', w')" "keeps_history env p call history"
  shows "history w' = history w"
proof -
  have same: "history (snd (time_Now env w)) = history w" "history (snd (timer_fires env d w)) = history w" for d w
    using assms(2) unfolding keeps_history_def by blast+
  have "time_Now env w = (now, w1) \<Longrightarrow> history w1 = history w" "timer_fires env d w = (b, w1) \<Longrightarrow> history w1 = history w"
    for now d b w w1 using same(1) [of w] same(2) [of d w] by simp_all
  note same = this
  have "history (snd (snd (r, l', w'))) = history w"
  proof (rule limiter_Wait.raw_induct [where P = "\<lambda>env' l w out. env' = env \<longrightarrow> history (snd (snd out)) = history w",
        OF _ assms(1), THEN mp, OF _ refl], goal_cases)
    case (1 Wait env' l w out)
    obtain now w1 where now: "time_Now env' w = (now, w1)" by (rule prod.exhaust)
    obtain wait l1 where poll: "limiter_poll (int64_overflow env') now l = (wait, l1)" by (rule prod.exhaust)
    show ?case
    proof
      assume env: "env' = env"
      show "history (snd (snd out)) = history w"
        using 1(2) 1(1) [of env' l1 _ out] now poll env same(1) [of w now w1] same(2) [of _ w1]
        by (auto simp: sleepWithContext_def split: option.splits prod.splits sum.splits bool.splits if_splits)
    qed
  qed
  then show ?thesis by simp
qed

lemma policy_wait_history:
  assumes "policy_wait overflow p k w = (r, w')" "keeps_history env p call history"
  shows "history w' = history w"
proof -
  have slept: "pol_sleep p d v = (x, v') \<Longrightarrow> history v' = history v" for d v x v'
    using assms(2) unfolding keeps_history_def by (metis snd_conv)
  have drawn: "pol_random p = Some random \<Longrightarrow> random v = (x, v') \<Longrightarrow> history v' = history v" for random v x v'
    using assms(2) unfolding keeps_history_def by (metis snd_conv)
  from assms(1) show ?thesis
    by (auto simp: policy_wait_def Let_def split: if_splits option.splits prod.splits dest!: slept dest: drawn)
qed

lemma call_history:
  "call w = (r, w') \<Longrightarrow> keeps_history env p call history \<Longrightarrow> history w' = history w @ [(r, ctx_Err env w')]"
  by (simp add: keeps_history_def)

lemma failed_attempts_history:
  assumes "failed_attempts env p call s es s'" "keeps_history env p call history"
  shows "history (snd (snd s')) = history (snd (snd s)) @ map (\<lambda>e. (Inl e, None)) es"
  using assms
proof (induction rule: failed_attempts.induct)
  case (failed_attempt es l m w l1 w1 e w2 w3)
  from limiter_Wait_history [OF failed_attempt.hyps(2) failed_attempt.prems]
    call_history [OF failed_attempt.hyps(3) failed_attempt.prems]
    policy_wait_history [OF failed_attempt.hyps(7) failed_attempt.prems] failed_attempt
  show ?case by simp
qed simp

lemma accounted_records:
  "accounted m a b c m' \<Longrightarrow> accounted m (Suc a) b c (RecordRPCRequest m')"
  "accounted m a b c m' \<Longrightarrow> accounted m a (Suc b) c (RecordRPCRetry m')"
  "accounted m a b c m' \<Longrightarrow> accounted m a b (Suc c) (RecordRPCFailure m')"
  by (simp_all add: rpc_metrics_defs accounted_def add.assoc add.commute)

text \<open>The counters after the last attempt, from the answers of the failed attempts and the last one.\<close>

lemma rpc_ends_answers:
  fixes call :: "'w \<Rightarrow> (go_error, 'a, 'w) outcome"
  assumes ends: "rpc_ends env p call es s (r, s')" and "keeps_history env p call history"
    and before: "accounted m0 (length es) (length es) 0 (world_metrics s)"
    and retryable: "\<forall>e \<in> set es. isRetryableRPCError (Some e)" and lt: "int (length es) < maxAttempts p"
    and past: "history (snd (snd s)) = h0 @ map (\<lambda>e. (Inl e, None)) es"
  shows "\<exists>as. history (snd (snd s')) = h0 @ as \<and> int (length as) \<le> maxAttempts p \<and>
    accounted m0 (length as) (length (filter transient (take (nat (maxAttempts p) - 1) as)))
      (of_bool (final_failure (maxAttempts p) as)) (world_metrics s')"
proof -
  let ?E = "map (\<lambda>e. (Inl e, None)) es :: 'a answer list" and ?N = "nat (maxAttempts p) - 1"
  have more: "length es < ?N \<longleftrightarrow> int (length es) + 1 < maxAttempts p" "length es \<le> ?N" using lt by linarith+
  have kept: "length (filter transient ?E) = length es" using retryable by (induction es) (auto simp: transient_def)
  have over: "\<not> final_failure (maxAttempts p) ?E"
    using retryable lt by (auto simp: final_failure_def transient_def last_map)
  have answered: ?thesis if "history (snd (snd s')) = history (snd (snd s)) @ [b]"
    "accounted m0 (Suc (length es)) (length es + of_bool (length es < ?N \<and> transient b))
      (of_bool (snd b = None \<and> isl (fst b) \<and> (transient b \<longrightarrow> \<not> length es < ?N))) (world_metrics s')" for b
  proof (intro exI [of _ "?E @ [b]"] conjI)
    have "length (filter transient (take ?N (?E @ [b]))) = length es + of_bool (length es < ?N \<and> transient b)"
      using more(2) kept by (cases "length es < ?N") (auto simp del: filter_map)
    moreover have "final_failure (maxAttempts p) (?E @ [b]) = (snd b = None \<and> isl (fst b) \<and> (transient b \<longrightarrow> \<not> length es < ?N))"
      using more lt by (auto simp: final_failure_def)
    ultimately show "accounted m0 (length (?E @ [b])) (length (filter transient (take ?N (?E @ [b]))))
        (of_bool (final_failure (maxAttempts p) (?E @ [b]))) (world_metrics s')"
      using that(2) by (simp del: of_bool_eq_iff)
  qed (use that(1) past lt in simp_all)
  note hist = limiter_Wait_history [OF _ assms(2)] call_history [OF _ assms(2)] policy_wait_history [OF _ assms(2)]
  note sent = accounted_records(1) [OF before]
  note counted = sent accounted_records(2,3) [OF sent]
  show ?thesis
    using ends
  proof (cases rule: rpc_ends.cases)
    case (not_permitted l w err l1 w1 m)
    with hist(1) before over lt past more(2) kept show ?thesis by (intro exI [of _ ?E]) simp
  next
    case (succeeded l w l1 w1 v w2 m)
    with hist(1,2) counted(1) show ?thesis by (intro answered [of "(Inr v, ctx_Err env w2)"]) (simp_all add: transient_def)
  next
    case (cancelled l w l1 w1 err w2 ctxErr m)
    with hist(1,2) counted(1) show ?thesis by (intro answered [of "(Inl err, ctx_Err env w2)"]) (simp_all add: transient_def)
  next
    case (permanent l w l1 w1 err w2 m)
    with hist(1,2) counted(3) show ?thesis by (intro answered [of "(Inl err, ctx_Err env w2)"]) (simp_all add: transient_def)
  next
    case (exhausted l w l1 w1 err w2 m)
    with hist(1,2) counted(3) more show ?thesis by (intro answered [of "(Inl err, ctx_Err env w2)"]) (simp_all add: transient_def)
  next
    case (interrupted l w l1 w1 err w2 werr w3 m)
    with hist counted(2) more show ?thesis by (intro answered [of "(Inl err, ctx_Err env w2)"]) (simp_all add: transient_def)
  qed
qed

lemma executeResilientRPC_run:
  assumes "0 < maxAttempts (rec_policy c)" "executeResilientRPC env c zero call s = Some out"
  obtains es mid where "failed_attempts env (rec_policy c) call s es mid" "rpc_ends env (rec_policy c) call es mid out"
    "int (length es) < maxAttempts (rec_policy c)" "\<forall>e \<in> set es. isRetryableRPCError (Some e)"
proof -
  have "\<exists>es mid. failed_attempts env (rec_policy c) call s es mid \<and> rpc_ends env (rec_policy c) call es mid out"
    using rpc_attempts_sound [of env "rec_policy c" zero call "[]" None s out s] assms
    by (simp add: executeResilientRPC_def no_attempt)
  then obtain es mid where run: "failed_attempts env (rec_policy c) call s es mid" "rpc_ends env (rec_policy c) call es mid out"
    by blast
  from failed_attempts_bound [OF run(1)] assms(1) have "int (length es) < maxAttempts (rec_policy c)" by auto
  with failed_attempts_retryable [OF run(1)] show thesis by (intro that [OF run])
qed

text \<open>
  C8. A resilient call that returns has run the backend call at most \<^verbatim>\<open>maxAttempts\<close> times. All but
  the last of these attempts failed with an error worth a retry and were followed by their backoff;
  then the call ended in one of six ways: the limiter was interrupted, the backend answered (and this
  answer is the result), the context ended (its error is the result), the error was permanent (it is
  returned as it is), the attempts were exhausted (a temporary-dependency error that wraps the last
  one), or the backoff was interrupted.
\<close>
theorem executeResilientRPC_refines:
  assumes "0 < maxAttempts (rec_policy c)" "executeResilientRPC env c zero call s = Some out"
  shows "\<exists>es mid. failed_attempts env (rec_policy c) call s es mid \<and> rpc_ends env (rec_policy c) call es mid out \<and>
    int (length es) < maxAttempts (rec_policy c) \<and> (\<forall>e \<in> set es. isRetryableRPCError (Some e))"
  by (rule executeResilientRPC_run [OF assms]) blast

text \<open>
  C35. A resilient call keeps the token bucket between zero and its burst, whatever the clock does,
  and its metrics count exactly what happened. Let \<open>as\<close> be the answers the backend gave during the
  call, each with the error the context had then: at most \<^verbatim>\<open>maxAttempts\<close> of them. The requests counted
  are the answers; the retries counted are the retryable failures among the first \<^verbatim>\<open>maxAttempts\<close> - 1
  answers, given while the context had not ended; one failure is counted exactly when the last answer
  is an error, given while the context had not ended, that is not retryable or used up the last
  attempt. No other counter changes.
\<close>
theorem executeResilientRPC_accounting:
  assumes "0 < maxAttempts (rec_policy c)" "executeResilientRPC env c zero call s = Some (r, s')"
    and "limiter_ok (world_limiter s)" "keeps_history env (rec_policy c) call history"
  shows "limiter_ok (world_limiter s') \<and> lim_burst (world_limiter s') = lim_burst (world_limiter s) \<and>
    (\<exists>as. history (snd (snd s')) = history (snd (snd s)) @ as \<and> int (length as) \<le> maxAttempts (rec_policy c) \<and>
       accounted (world_metrics s) (length as)
         (length (filter transient (take (nat (maxAttempts (rec_policy c)) - 1) as)))
         (of_bool (final_failure (maxAttempts (rec_policy c)) as)) (world_metrics s'))"
proof -
  from assms(1,2) obtain es mid where run: "failed_attempts env (rec_policy c) call s es mid"
    "rpc_ends env (rec_policy c) call es mid (r, s')" "int (length es) < maxAttempts (rec_policy c)"
    by (rule executeResilientRPC_run)
  from failed_attempts_effect [OF run(1)] assms(3) have pre: "limiter_ok (world_limiter mid)"
    "lim_burst (world_limiter mid) = lim_burst (world_limiter s)"
    "accounted (world_metrics s) (length es) (length es) 0 (world_metrics mid)" by auto
  from rpc_ends_answers [OF run(2) assms(4) pre(3) failed_attempts_retryable [OF run(1)] run(3)
      failed_attempts_history [OF run(1) assms(4)]]
  have "\<exists>as. history (snd (snd s')) = history (snd (snd s)) @ as \<and> int (length as) \<le> maxAttempts (rec_policy c) \<and>
    accounted (world_metrics s) (length as) (length (filter transient (take (nat (maxAttempts (rec_policy c)) - 1) as)))
      (of_bool (final_failure (maxAttempts (rec_policy c)) as)) (world_metrics s')" .
  with rpc_ends_limiter [OF run(2) pre(1)] pre(2) show ?thesis by metis
qed


section \<open>A resilient call returns\<close>

text \<open>A call context that ends: only so many timers can fire before \<^verbatim>\<open>ctx.Done()\<close> is ready, and then
  the context has an error. \<open>rank\<close> bounds the timers that can still fire.\<close>

definition context_ends :: "'w rpc_env \<Rightarrow> ('w \<Rightarrow> nat) \<Rightarrow> bool" where
  "context_ends env rank \<longleftrightarrow>
     (\<forall>w. rank (snd (time_Now env w)) \<le> rank w) \<and>
     (\<forall>d w. case timer_fires env d w of
        (True, w') \<Rightarrow> rank w' < rank w
      | (False, w') \<Rightarrow> ctx_Err env w' \<noteq> None)"

lemma limiter_Wait_returns:
  assumes "context_ends env rank"
  shows "limiter_Wait env l w \<noteq> None"
proof (induction "rank w" arbitrary: l w rule: less_induct)
  case less
  obtain now w1 where now: "time_Now env w = (now, w1)" by (rule prod.exhaust)
  with assms have le: "rank w1 \<le> rank w" by (metis context_ends_def snd_conv)
  obtain wait l1 where poll: "limiter_poll (int64_overflow env) now l = (wait, l1)" by (rule prod.exhaust)
  show ?case
  proof (cases wait)
    case None
    with now poll show ?thesis by (simp add: limiter_Wait.simps)
  next
    case (Some d)
    obtain fired w2 where timer: "timer_fires env d w1 = (fired, w2)" by (rule prod.exhaust)
    from assms have ends: "case timer_fires env d w1 of (True, w') \<Rightarrow> rank w' < rank w1 | (False, w') \<Rightarrow> ctx_Err env w' \<noteq> None"
      by (simp only: context_ends_def)
    show ?thesis
    proof (cases fired)
      case True
      with ends timer le have "rank w2 < rank w" by simp
      from less.hyps [OF this, of l1] now poll Some timer True show ?thesis
        by (subst limiter_Wait.simps) (simp add: sleepWithContext_def)
    next
      case False
      with ends timer obtain err where "ctx_Err env w2 = Some err" by auto
      with now poll Some timer False show ?thesis by (subst limiter_Wait.simps) (simp add: sleepWithContext_def)
    qed
  qed
qed

lemma rpc_attempts_returns:
  assumes "\<And>l w. limiter_Wait env l w \<noteq> None"
  shows "rpc_attempts env p zero call attempt lastErr s \<noteq> None"
proof (induction "nat (maxAttempts p + 1 - attempt)" arbitrary: attempt lastErr s rule: less_induct)
  case less
  obtain l m w where s: "s = (l, m, w)" by (cases s)
  obtain permit l1 w1 where wait: "limiter_Wait env l w = Some (permit, l1, w1)"
    using assms [of l w] by auto
  show ?case
  proof (cases "attempt \<le> maxAttempts p")
    case True
    then have "rpc_attempts env p zero call (attempt + 1) e t \<noteq> None" for e t
      by (intro less) simp
    with True wait show ?thesis
      by (subst s, subst rpc_attempts.simps) (auto simp: Let_def split: sum.splits prod.splits option.splits)
  next
    case False
    then show ?thesis by (subst s, subst rpc_attempts.simps) simp
  qed
qed

text \<open>
  C9. Under a call context that ends (a deadline, or a shutdown that cancels it), every resilient
  call returns: neither the wait for the rate limiter nor the retries go on for ever, whatever the
  backend does.
\<close>
theorem executeResilientRPC_returns:
  assumes "context_ends env rank"
  shows "\<exists>out. executeResilientRPC env c zero call s = Some out"
  using rpc_attempts_returns [OF limiter_Wait_returns [OF assms]] by (simp add: executeResilientRPC_def)


section \<open>Sample executions\<close>

text \<open>A backend that resets the first connection and then answers, behind a limiter with two tokens
  and a clock that stands still; the world counts the calls.\<close>

definition sample_env :: "nat rpc_env" where
  "sample_env = \<lparr>ctx_Err = \<lambda>w. None, time_Now = \<lambda>w. (0, w), rand_Float64 = \<lambda>w. (Finite (1 / 2), w),
     timer_fires = \<lambda>d w. (True, w), int64_overflow = \<lambda>f. 0\<rparr>"

definition sample_policy :: "nat rpcRetryPolicy" where
  "sample_policy = \<lparr>maxAttempts = 3, initialBackoff = 200, maxBackoff = 3000, jitterFraction = Finite 0,
     pol_random = None, pol_sleep = \<lambda>d w. (Inr (), w)\<rparr>"

definition sample_limiter :: "rat \<Rightarrow> rpcRateLimiter" where
  "sample_limiter t = \<lparr>lim_rate = Finite 20, lim_burst = Finite 2, lim_tokens = Finite t, lim_last = 0\<rparr>"

definition sample_call :: "nat \<Rightarrow> (go_error, int, nat) outcome" where
  "sample_call w = (if w = 0 then (Inl (Sentinel SyscallECONNRESET), 1) else (Inr 42, w + 1))"

definition sample_backend :: "nat resilientEthereumBackend" where
  "sample_backend = \<lparr>GetObservedBlockByNumber = \<lambda>n w. (Inr zero_ObservedBlock, w + 1),
     GetERC20TransfersByBlock = \<lambda>b w. (Inr zero_BlockTransferIndex, w + 1),
     GetLatestObservedBlock = \<lambda>w. (Inr zero_ObservedBlock, w + 1),
     FetchTokenMetadata = \<lambda>a w. (Inr zero_TokenMetadata, w + 1)\<rparr>"

definition sample_rpc_client :: "nat ResilientEthereumClient" where
  "sample_rpc_client = \<lparr>rec_next = sample_backend, rec_policy = sample_policy\<rparr>"

lemma sample_spend: "f_sub (Finite 2) (Finite 1) = Finite 1" "f_sub (Finite 1) (Finite 1) = Finite 0"
  by code_simp+

lemma sample_elapsed: "duration_Seconds (time_Sub 0 0) = Finite 0"
  by code_simp

lemma sample_Wait:
  "limiter_Wait sample_env (sample_limiter 2) w = Some (Inr (), sample_limiter 1, w)"
  "limiter_Wait sample_env (sample_limiter 1) w = Some (Inr (), sample_limiter 0, w)"
  by (subst limiter_Wait.simps,
      simp add: sample_env_def sample_limiter_def limiter_poll_def refill_def sample_elapsed sample_spend f_le_def)+

lemma sample_base_delay: "policy_wait f sample_policy 1 w = (Inr (), w)"
  by (simp add: policy_wait_def sample_policy_def Let_def)

lemma sample_simps:
  "rec_policy sample_rpc_client = sample_policy" "maxAttempts sample_policy = 3" "ctx_Err sample_env w = None"
  "sample_call 0 = (Inl (Sentinel SyscallECONNRESET), 1)" "sample_call (Suc 0) = (Inr 42, 2)"
  by (simp_all add: sample_rpc_client_def sample_policy_def sample_env_def sample_call_def)

lemma sample_execution:
  "executeResilientRPC sample_env sample_rpc_client 0 sample_call (sample_limiter 2, NewMetrics, 0) =
     Some (Inr 42, (sample_limiter 0, RecordRPCRequest (RecordRPCRetry (RecordRPCRequest NewMetrics)), 2))"
proof -
  have "rpc_attempts sample_env sample_policy 0 sample_call 2 e (sample_limiter 1, m, 1) =
      Some (Inr 42, (sample_limiter 0, RecordRPCRequest m, 2))" for e m
    by (subst rpc_attempts.simps) (simp add: sample_Wait sample_simps)
  moreover have "isRetryableRPCError (Some (Sentinel SyscallECONNRESET))" by (simp add: isRetryableRPCError_def)
  ultimately show ?thesis
    unfolding executeResilientRPC_def sample_simps
    by (subst rpc_attempts.simps) (simp add: sample_simps sample_Wait sample_base_delay Let_def)
qed

text \<open>The context of this world ends after as many timers as its state says.\<close>

definition ending_env :: "nat rpc_env" where
  "ending_env = \<lparr>ctx_Err = \<lambda>w. if w = 0 then Some (Sentinel ContextDeadlineExceeded) else None, time_Now = \<lambda>w. (0, w),
     rand_Float64 = \<lambda>w. (Finite (1 / 2), w), timer_fires = \<lambda>d w. (w \<noteq> 0, w - 1), int64_overflow = \<lambda>f. 0\<rparr>"

theorem policy_backoff_witness:
  "base_delay sample_policy 4 = 1600 \<and> base_delay sample_policy 5 = 3000 \<and>
   base_delay sample_policy 4 \<le> base_delay sample_policy (4 + 1)"
proof -
  have "valid_policy sample_policy" by (simp add: valid_policy_def sample_policy_def)
  from policy_backoff [OF this, of 4] policy_backoff [OF this, of 5]
  show ?thesis by (simp add: sample_policy_def)
qed

theorem executeResilientRPC_refines_witness:
  "\<exists>es mid. failed_attempts sample_env sample_policy sample_call (sample_limiter 2, NewMetrics, 0) es mid \<and>
     rpc_ends sample_env sample_policy sample_call es mid
       (Inr 42, (sample_limiter 0, RecordRPCRequest (RecordRPCRetry (RecordRPCRequest NewMetrics)), 2))"
  using executeResilientRPC_refines [OF _ sample_execution] by (auto simp: sample_simps)

text \<open>Its worlds count the calls, so they determine the history.\<close>

definition sample_history :: "nat \<Rightarrow> int answer list" where
  "sample_history w = map (\<lambda>i. (fst (sample_call i), None)) [0..<w]"

lemma sample_history_kept: "keeps_history sample_env (rec_policy sample_rpc_client) sample_call sample_history"
  by (auto simp: keeps_history_def sample_simps sample_history_def sample_call_def sample_env_def sample_policy_def)

theorem executeResilientRPC_accounting_witness:
  "limiter_ok (sample_limiter 0) \<and>
   accounted NewMetrics 2 1 0 (RecordRPCRequest (RecordRPCRetry (RecordRPCRequest NewMetrics)))"
proof -
  have ok: "limiter_ok (world_limiter (sample_limiter 2, NewMetrics, 0))" by (simp add: limiter_ok_def sample_limiter_def)
  have "0 < maxAttempts (rec_policy sample_rpc_client)" by (simp add: sample_simps)
  from executeResilientRPC_accounting [OF this sample_execution ok sample_history_kept] show ?thesis
    by (auto simp: sample_history_def sample_simps transient_def final_failure_def isRetryableRPCError_def numeral_2_eq_2)
qed

theorem executeResilientRPC_returns_witness:
  "\<exists>out. executeResilientRPC ending_env sample_rpc_client 0 sample_call (sample_limiter 0, NewMetrics, 5) = Some out"
proof -
  have "context_ends ending_env (\<lambda>w. w)" by (auto simp: context_ends_def ending_env_def split: bool.split)
  from executeResilientRPC_returns [OF this] show ?thesis .
qed

end
