(* ===== verification/Sync_Service.thy ===== *)
theory Sync_Service
  imports Blockchain_Ledger Rpc_Resilience
begin

text \<open>
  \<^verbatim>\<open>ChainWatchService\<close> of \<^verbatim>\<open>internal/service/service.go\<close>: fetch the latest block with a few retries and
  apply it to the in-memory ledger. The world holds the ledger the service points to and the
  environment of its client and timers.
\<close>

section \<open>Operations\<close>

record 'w ChainWatchService =
  svc_GetLatestBlock :: "'w \<Rightarrow> (go_error, Block, 'w) outcome"
  svc_maxAttempts :: int
  svc_retryDelay :: int

definition NewChainWatchService :: "('w \<Rightarrow> (go_error, Block, 'w) outcome) \<Rightarrow> 'w ChainWatchService" where
  "NewChainWatchService client = \<lparr>svc_GetLatestBlock = client, svc_maxAttempts = 3, svc_retryDelay = 50000000\<rparr>"

text \<open>\<^verbatim>\<open>fmt.Errorf("failed after %d attempts: %w", n, lastErr)\<close>, also when nothing was attempted.\<close>

definition attempts_failed :: "int \<Rightarrow> go_error option \<Rightarrow> go_error" where
  "attempts_failed n lastErr =
     (case lastErr of
        None \<Rightarrow> Anonymous (''failed after '' @ show_int n @ '' attempts: %!w(<nil>)'')
      | Some err \<Rightarrow> Wrapf (''failed after '' @ show_int n @ '' attempts'') err)"

function fetch_attempts :: "'w rpc_env \<Rightarrow> 'w ChainWatchService \<Rightarrow> int \<Rightarrow> go_error option \<Rightarrow> 'w \<Rightarrow> (go_error, Block, 'w) outcome" where
  "fetch_attempts env s attempt lastErr w =
     (if attempt \<le> svc_maxAttempts s then
        (case svc_GetLatestBlock s w of
           (Inr block, w1) \<Rightarrow> (Inr block, w1)
         | (Inl err, w1) \<Rightarrow>
             if errors_is err ContextCanceled \<or> errors_is err ContextDeadlineExceeded then (Inl err, w1)
             else if attempt = svc_maxAttempts s then (Inl (attempts_failed (svc_maxAttempts s) (Some err)), w1)
             else
               let delay = wrap_int64 (svc_retryDelay s * attempt) in
               (case timer_fires env delay w1 of
                  (True, w2) \<Rightarrow> fetch_attempts env s (attempt + 1) (Some err) w2
                | (False, w2) \<Rightarrow>
                    (case ctx_Err env w2 of
                       Some ctxErr \<Rightarrow> (Inl ctxErr, w2)
                     | None \<Rightarrow> (Inr \<lparr>blk_Number = 0, blk_Hash = [], blk_Transactions = [], blk_Timestamp = 0\<rparr>, w2))))
      else (Inl (attempts_failed (svc_maxAttempts s) lastErr), w))"
  by pat_completeness auto
termination
  by (relation "measure (\<lambda>(env, s, attempt, lastErr, w). nat (svc_maxAttempts s + 1 - attempt))") auto

declare fetch_attempts.simps [simp del]

definition fetchLatestBlockWithRetry :: "'w rpc_env \<Rightarrow> 'w ChainWatchService \<Rightarrow> 'w \<Rightarrow> (go_error, Block, 'w) outcome" where
  "fetchLatestBlockWithRetry env s w = fetch_attempts env s 1 None w"

definition SyncLatestBlock :: "'w rpc_env \<Rightarrow> 'w ChainWatchService \<Rightarrow> Blockchain \<times> 'w \<Rightarrow> (go_error, unit, Blockchain \<times> 'w) outcome" where
  "SyncLatestBlock env s bw =
     (case bw of (bc, w) \<Rightarrow>
        (case fetchLatestBlockWithRetry env s w of
           (Inl err, w1) \<Rightarrow> (Inl (Wrapf ''failed to fetch latest block'' err), (bc, w1))
         | (Inr block, w1) \<Rightarrow>
             (case ProcessBlock bc block of
                (Some err, bc') \<Rightarrow> (Inl (Wrapf ''failed to process latest block'' err), (bc', w1))
              | (None, bc') \<Rightarrow> (Inr (), (bc', w1)))))"

section \<open>Properties\<close>

text \<open>When \<^verbatim>\<open>ctx.Done()\<close> is ready the context has an error.\<close>

definition done_has_error :: "'w rpc_env \<Rightarrow> bool" where
  "done_has_error env \<longleftrightarrow> (\<forall>d w w'. timer_fires env d w = (False, w') \<longrightarrow> ctx_Err env w' \<noteq> None)"

abbreviation context_error :: "go_error \<Rightarrow> bool" where
  "context_error err \<equiv> errors_is err ContextCanceled \<or> errors_is err ContextDeadlineExceeded"

text \<open>\<open>fetched client delay a k w r w'\<close>: the attempts \<open>a\<close> to \<open>k\<close> called the client once each; all but the
  last failed with an error that is not the context's, and after attempt \<open>i\<close> a timer of \<open>i\<close> delays ran
  out; the last one gave \<open>r\<close> and left \<open>w'\<close>.\<close>

inductive fetched :: "'w rpc_env \<Rightarrow> ('w \<Rightarrow> (go_error, Block, 'w) outcome) \<Rightarrow> int \<Rightarrow> int \<Rightarrow> int \<Rightarrow> 'w \<Rightarrow> go_error + Block \<Rightarrow> 'w \<Rightarrow> bool"
  for env :: "'w rpc_env" and client :: "'w \<Rightarrow> (go_error, Block, 'w) outcome" and delay :: int
where
  fetched_last: "client w = (r, w') \<Longrightarrow> fetched env client delay a a w r w'"
| fetched_retry: "client w = (Inl err, w1) \<Longrightarrow> \<not> context_error err \<Longrightarrow>
    timer_fires env (wrap_int64 (delay * a)) w1 = (True, w2) \<Longrightarrow> fetched env client delay (a + 1) k w2 r w' \<Longrightarrow>
    fetched env client delay a k w r w'"

text \<open>How the fetch ends after attempt \<open>k\<close>, which gave \<open>r0\<close> and left \<open>w0\<close>: with the client's block or its
  context error, or with the client's error at the last attempt, at once; or with the error of the
  context, which ended while the timer of attempt \<open>k\<close> ran.\<close>

definition fetch_ends :: "'w rpc_env \<Rightarrow> int \<Rightarrow> int \<Rightarrow> int \<Rightarrow> go_error + Block \<Rightarrow> 'w \<Rightarrow> go_error + Block \<Rightarrow> 'w \<Rightarrow> bool" where
  "fetch_ends env delay attempts k r0 w0 r w' \<longleftrightarrow>
     (case r0 of
        Inr block \<Rightarrow> r = Inr block \<and> w' = w0
      | Inl err \<Rightarrow>
          context_error err \<and> r = Inl err \<and> w' = w0 \<or>
          \<not> context_error err \<and> k = attempts \<and> r = Inl (attempts_failed attempts (Some err)) \<and> w' = w0 \<or>
          \<not> context_error err \<and> k < attempts \<and> timer_fires env (wrap_int64 (delay * k)) w0 = (False, w') \<and>
            (\<exists>ctxErr. ctx_Err env w' = Some ctxErr \<and> r = Inl ctxErr))"

lemma fetch_attempts_sound:
  assumes "fetch_attempts env s attempt lastErr w = (r, w')" "attempt \<le> svc_maxAttempts s" "done_has_error env"
  shows "\<exists>k r0 w0. attempt \<le> k \<and> k \<le> svc_maxAttempts s \<and>
    fetched env (svc_GetLatestBlock s) (svc_retryDelay s) attempt k w r0 w0 \<and>
    fetch_ends env (svc_retryDelay s) (svc_maxAttempts s) k r0 w0 r w'"
  using assms
proof (induction "nat (svc_maxAttempts s - attempt)" arbitrary: attempt lastErr w rule: less_induct)
  case less
  note run = less.prems(1) [unfolded fetch_attempts.simps [of env s attempt lastErr w]]
  obtain r0 w1 where call: "svc_GetLatestBlock s w = (r0, w1)" by (rule prod.exhaust)
  note last = fetched_last [where client = "svc_GetLatestBlock s", OF call, of env "svc_retryDelay s" attempt]
  show ?case
  proof (cases "\<exists>err w2. r0 = Inl err \<and> \<not> errors_is err ContextCanceled \<and> \<not> errors_is err ContextDeadlineExceeded \<and>
      attempt \<noteq> svc_maxAttempts s \<and> timer_fires env (wrap_int64 (svc_retryDelay s * attempt)) w1 = (True, w2)")
    case True
    then obtain err w2 where retry: "r0 = Inl err" "\<not> errors_is err ContextCanceled" "\<not> errors_is err ContextDeadlineExceeded"
      "attempt \<noteq> svc_maxAttempts s" "timer_fires env (wrap_int64 (svc_retryDelay s * attempt)) w1 = (True, w2)" by blast
    with run call less.prems(2) have rest: "fetch_attempts env s (attempt + 1) (Some err) w2 = (r, w')" by simp
    have "nat (svc_maxAttempts s - (attempt + 1)) < nat (svc_maxAttempts s - attempt)" "attempt + 1 \<le> svc_maxAttempts s"
      using less.prems(2) retry(4) by linarith+
    from less.hyps [OF this(1) rest this(2) less.prems(3)] obtain k rl wl where ih: "attempt + 1 \<le> k"
      "k \<le> svc_maxAttempts s" "fetched env (svc_GetLatestBlock s) (svc_retryDelay s) (attempt + 1) k w2 rl wl"
      "fetch_ends env (svc_retryDelay s) (svc_maxAttempts s) k rl wl r w'"
      by blast
    from retry(2,3) have "\<not> context_error err" by blast
    from fetched_retry [OF call [unfolded retry(1)] this retry(5) ih(3)] ih show ?thesis
      by (intro exI [of _ k] exI [of _ rl] exI [of _ wl]) simp
  next
    case False
    have ended: "timer_fires env d v = (False, w') \<Longrightarrow> ctx_Err env w' = None \<Longrightarrow> False" for d v
      using less.prems(3) unfolding done_has_error_def by blast
    have "fetch_ends env (svc_retryDelay s) (svc_maxAttempts s) attempt r0 w1 r w'"
      using run call False less.prems(2) unfolding fetch_ends_def
      by (auto simp: Let_def dest: ended split: sum.splits if_splits prod.splits bool.splits option.splits)
    with last less.prems(2) show ?thesis by (intro exI [of _ attempt] exI [of _ r0] exI [of _ w1]) simp
  qed
qed

text \<open>
  C39. Synchronising asks the client \<open>k\<close> times, at most three, again only after errors that are not the
  context's and after a timer of 50 ms, then 100 ms; the world it leaves is the one after the \<open>k\<close>-th
  call, or after the timer that followed it when the context ended during that wait. On success the
  block of the \<open>k\<close>-th call has been applied: the ledger grew by exactly it. On any error the ledger is
  as it was, and the error wraps the refusal of the ledger, the client's context error, the failure of
  the third attempt, or the error of the context that ended during the wait. Either way the ledger's
  invariant holds and the supply is unchanged.
\<close>
theorem SyncLatestBlock_sound:
  assumes "done_has_error env" "ledger_ok bc"
    and "SyncLatestBlock env (NewChainWatchService client) (bc, w) = (r, (bc', w'))"
  shows "ledger_ok bc' \<and> total_supply bc' = total_supply bc \<and>
    (\<exists>k r0 w0 fetch. 1 \<le> k \<and> k \<le> 3 \<and> fetched env client 50000000 1 k w r0 w0 \<and>
       fetch_ends env 50000000 3 k r0 w0 fetch w' \<and>
       (case fetch of
          Inl err \<Rightarrow> bc' = bc \<and> r = Inl (Wrapf ''failed to fetch latest block'' err)
        | Inr block \<Rightarrow>
            (case r of
               Inr _ \<Rightarrow> blocks bc' = blocks bc @ [block]
             | Inl e \<Rightarrow> bc' = bc \<and>
                 (\<exists>err. fst (ProcessBlock bc block) = Some err \<and> e = Wrapf ''failed to process latest block'' err))))"
proof -
  let ?s = "NewChainWatchService client"
  have params: "svc_maxAttempts ?s = 3" "svc_retryDelay ?s = 50000000" "svc_GetLatestBlock ?s = client"
    by (simp_all add: NewChainWatchService_def)
  obtain rf wf where fetch: "fetch_attempts env ?s 1 None w = (rf, wf)" by (rule prod.exhaust)
  from fetch_attempts_sound [OF fetch _ assms(1), unfolded params] obtain k r0 w0 where k: "1 \<le> k" "k \<le> 3"
    "fetched env client 50000000 1 k w r0 w0" "fetch_ends env 50000000 3 k r0 w0 rf wf"
    by auto
  show ?thesis
  proof (cases rf)
    case (Inl err)
    with assms(3) fetch have "r = Inl (Wrapf ''failed to fetch latest block'' err)" "bc' = bc" "w' = wf"
      by (auto simp: SyncLatestBlock_def fetchLatestBlockWithRetry_def)
    with k assms(2) Inl show ?thesis 
      by (intro conjI, simp, simp, intro exI [of _ k], intro exI [of _ r0], intro exI [of _ w0], intro exI [of _ rf], simp)
  next
    case (Inr block)
    obtain perr pbc where process: "ProcessBlock bc block = (perr, pbc)" by (rule prod.exhaust)
    note keeps = ProcessBlock_keeps [OF assms(2) process]
    from assms(3) fetch Inr process have "bc' = pbc" "w' = wf"
      "r = (case perr of None \<Rightarrow> Inr () | Some err \<Rightarrow> Inl (Wrapf ''failed to process latest block'' err))"
      by (auto simp: SyncLatestBlock_def fetchLatestBlockWithRetry_def split: option.splits)
    with keeps k Inr process show ?thesis
      by (intro conjI, simp, simp, intro exI [of _ k], intro exI [of _ r0], intro exI [of _ w0], intro exI [of _ rf])
        (cases perr; simp)
  qed
qed

definition sync_env :: "nat rpc_env" where
  "sync_env = \<lparr>ctx_Err = \<lambda>w. None, time_Now = \<lambda>w. (0, w), rand_Float64 = \<lambda>w. (Finite (1 / 2), w),
     timer_fires = \<lambda>d w. (True, w), int64_overflow = \<lambda>f. 0\<rparr>"

definition sync_block :: Block where
  "sync_block = \<lparr>blk_Number = 1, blk_Hash = ''h1'', blk_Transactions =
     [\<lparr>tx_Hash = ''t1'', tx_From = ''alice'', tx_To = ''bob'', tx_ValueWei = 4, tx_GasUsed = 0\<rparr>], blk_Timestamp = 0\<rparr>"

definition sync_client :: "nat \<Rightarrow> (go_error, Block, nat) outcome" where
  "sync_client w = (if w = 0 then (Inl (Anonymous ''connection lost''), 1) else (Inr sync_block, w + 1))"

theorem SyncLatestBlock_sound_witness:
  "let (r, (bc, w)) = SyncLatestBlock sync_env (NewChainWatchService sync_client) (NewBlockchain [''alice'' \<mapsto> 10], 0)
   in r = Inr () \<and> ledger_ok bc \<and> total_supply bc = 10 \<and> blocks bc = [sync_block]"
proof -
  let ?bc = "NewBlockchain [''alice'' \<mapsto> 10]"
  have sup: "total_supply ?bc = 10" by (simp add: total_supply_def NewBlockchain_def)
  have ok: "ledger_ok ?bc"
    by (simp add: ledger_ok_def sup)
      (simp add: NewBlockchain_def recorded_hashes_def IsTransactionProcessed_def map_get_def)
  have env: "done_has_error sync_env" by (simp add: done_has_error_def sync_env_def)
  have "fetchLatestBlockWithRetry sync_env (NewChainWatchService sync_client) 0 = (Inr sync_block, 2)"
    unfolding fetchLatestBlockWithRetry_def
    by (subst fetch_attempts.simps, subst fetch_attempts.simps)
      (simp add: NewChainWatchService_def sync_client_def sync_env_def)
  moreover obtain err bc' where process: "ProcessBlock ?bc sync_block = (err, bc')" by (rule prod.exhaust)
  moreover have "fst (ProcessBlock ?bc sync_block) = None" "blocks (snd (ProcessBlock ?bc sync_block)) = [sync_block]"
    by (simp_all add: ProcessBlock_def sync_block_def NewBlockchain_def ProcessTransaction_def Validate_def
        IsTransactionProcessed_def map_get_def Let_def)
  ultimately have run: "SyncLatestBlock sync_env (NewChainWatchService sync_client) (?bc, 0) = (Inr (), (bc', 2))"
    and "blocks bc' = [sync_block]"
    by (auto simp: SyncLatestBlock_def)
  from SyncLatestBlock_sound [OF env ok run] this show ?thesis by (simp add: sup)
qed


end
