(* ===== verification/Sequential_Indexer.thy ===== *)
theory Sequential_Indexer
  imports Chain_Persistence
begin

text \<open>
  \<^verbatim>\<open>SequentialIndexer\<close> of \<^verbatim>\<open>internal/indexer/sequential_indexer.go\<close> and \<^verbatim>\<open>validateParentHash\<close> of
  \<^verbatim>\<open>reorg.go\<close>. The loop over heights is a recursive function; it stops because the distance to
  the end height, computed as the code's \<^verbatim>\<open>uint64\<close> arithmetic computes it, decreases.
\<close>

section \<open>Operations\<close>

definition validateParentHash :: "u64 \<Rightarrow> BlockHash \<Rightarrow> BlockHash \<Rightarrow> go_error option" where
  "validateParentHash blockNumber parentHash expectedParentHash =
     (if parentHash = '''' \<or> expectedParentHash = '''' \<or> parentHash = expectedParentHash then None
      else Some (NewDomainError (Some (Sentinel ErrChainReorg))
             (''validate parent hash for block '' @ show_u64 blockNumber)
             (Some (Anonymous (''parent hash '' @ parentHash @ '' does not match checkpoint hash '' @
                expectedParentHash)))))"

text \<open>Both range indexers resume alike: nothing is left to do (\<^term>\<open>None\<close>), or the height to
  start from and the hash its parent must have (empty when unknown).\<close>

definition resume_point :: "BlockCheckpoint option \<Rightarrow> u64 \<Rightarrow> u64 \<Rightarrow> (u64 \<times> BlockHash) option" where
  "resume_point checkpoint startBlock endBlock =
     (case checkpoint of
        None \<Rightarrow> Some (startBlock, '''')
      | Some cp \<Rightarrow>
          if startBlock \<le> cp_Number cp \<and> endBlock \<le> cp_Number cp then None
          else
            let nextBlock = (if startBlock \<le> cp_Number cp then cp_Number cp + 1 else startBlock)
            in Some (nextBlock, if cp_Number cp + 1 = nextBlock then cp_Hash cp else ''''))"

record 'w SequentialIndexer =
  seq_client :: "'w TransferBlockClient"
  seq_persistence :: "'w BlockPersistence"

definition NewSequentialIndexer :: "'w TransferBlockClient \<Rightarrow> 'w BlockPersistence \<Rightarrow> 'w SequentialIndexer" where
  "NewSequentialIndexer client persistence = \<lparr>seq_client = client, seq_persistence = persistence\<rparr>"

text \<open>One iteration of the loop: fetch, decode, check the parent, persist.\<close>

definition index_block :: "'w SequentialIndexer \<Rightarrow> u64 \<Rightarrow> BlockHash \<Rightarrow> 'w \<Rightarrow>
    (go_error, BlockTransferIndex, 'w) outcome" where
  "index_block i blockNumber expectedParentHash w =
     (case GetObservedBlockByNumber (seq_client i) blockNumber w of
        (Inl err, w1) \<Rightarrow> (Inl (Wrapf (''failed to fetch block '' @ show_u64 blockNumber) err), w1)
      | (Inr block, w1) \<Rightarrow>
          (case GetERC20TransfersByBlock (seq_client i) block w1 of
             (Inl err, w2) \<Rightarrow> (Inl (Wrapf (''failed to index block '' @ show_u64 blockNumber) err), w2)
           | (Inr index, w2) \<Rightarrow>
               (case validateParentHash (ix_BlockNumber index) (ix_ParentHash index) expectedParentHash of
                  Some err \<Rightarrow> (Inl err, w2)
                | None \<Rightarrow>
                    (case SaveIndexedBlock (seq_persistence i) index w2 of
                       (Inl err, w3) \<Rightarrow>
                         (Inl (Wrapf (''failed to persist indexed block '' @ show_u64 blockNumber) err), w3)
                     | (Inr _, w3) \<Rightarrow> (Inr index, w3)))))"

function index_loop :: "'w SequentialIndexer \<Rightarrow> u64 \<Rightarrow> u64 \<Rightarrow> BlockHash \<Rightarrow> BlockTransferIndex list \<Rightarrow> 'w \<Rightarrow>
    (go_error, BlockTransferIndex list, 'w) outcome" where
  "index_loop i endBlock blockNumber expectedParentHash results w =
     (case index_block i blockNumber expectedParentHash w of
        (Inl err, w') \<Rightarrow> (Inl err, w')
      | (Inr index, w') \<Rightarrow>
          if blockNumber = endBlock then (Inr (results @ [index]), w')
          else index_loop i endBlock (blockNumber + 1) (ix_BlockHash index) (results @ [index]) w')"
  by pat_completeness auto
termination
proof (relation "measure (\<lambda>(i, endBlock, blockNumber, _). unat (endBlock - blockNumber))")
  fix endBlock blockNumber :: u64
  assume "blockNumber \<noteq> endBlock"
  then have "unat (endBlock - (blockNumber + 1)) = unat (endBlock - blockNumber) - 1"
    and "unat (endBlock - blockNumber) \<noteq> 0"
    using unat_minus_one_u64 [of "endBlock - blockNumber"] by (auto simp: diff_diff_eq unat_eq_0)
  then have "unat (endBlock - (blockNumber + 1)) < unat (endBlock - blockNumber)" by simp
  then show "((i, endBlock, blockNumber + 1, h', rs', w'), (i, endBlock, blockNumber, h, rs, w)) \<in>
      measure (\<lambda>(i, endBlock, blockNumber, _). unat (endBlock - blockNumber))"
    for i :: "'w SequentialIndexer" and h h' rs rs' and w w' :: 'w by simp
qed simp

declare index_loop.simps [simp del]

definition seq_IndexRange :: "'w SequentialIndexer \<Rightarrow> u64 \<Rightarrow> u64 \<Rightarrow> 'w \<Rightarrow>
    (go_error, BlockTransferIndex list, 'w) outcome" where
  "seq_IndexRange i startBlock endBlock w =
     (let (r, w') =
        (if startBlock > endBlock then
           (Inl (NewDomainError (Some (Sentinel ErrValidation)) ''validate block range''
                  (Some (Sentinel ErrInvalidBlockRange))), w)
         else
           (case Load (seq_persistence i) w of
              (Inl err, w1) \<Rightarrow> (Inl (Wrapf ''failed to load checkpoint'' err), w1)
            | (Inr checkpoint, w1) \<Rightarrow>
                (case resume_point checkpoint startBlock endBlock of
                   None \<Rightarrow> (Inr [], w1)
                 | Some (nextBlock, expectedParentHash) \<Rightarrow>
                     index_loop i endBlock nextBlock expectedParentHash [] w1)))
      in (classified ErrIndexing ''index block range sequentially'' r, w'))"

lemma NewSequentialIndexer_simps [simp]:
  "seq_client (NewSequentialIndexer c p) = c" "seq_persistence (NewSequentialIndexer c p) = p"
  by (simp_all add: NewSequentialIndexer_def)

section \<open>Facts the indexers share\<close>

lemma validateParentHash_None:
  "validateParentHash n (ix_ParentHash ix) h = None \<longleftrightarrow> parent_ok ix h"
  by (auto simp: validateParentHash_def parent_ok_def)

lemma validateParentHash_Some:
  "validateParentHash n p h = Some e \<Longrightarrow> errors_is e ErrChainReorg"
  by (auto simp: validateParentHash_def NewDomainError_def split: if_splits)

lemma resume_point_shorter:
  assumes "resume_point cp s e = Some (n, h)" "n \<le> m"
  shows "resume_point cp s m = Some (n, h)"
proof -
  have "\<not> m \<le> cp_Number c" if "\<not> e \<le> cp_Number c" "cp_Number c + 1 \<le> m" for c
    using that unat_plus_one [of "cp_Number c" e] by (simp add: word_le_nat_alt word_less_nat_alt)
  then show ?thesis using assms by (auto simp: resume_point_def Let_def split: option.splits if_splits)
qed

lemma resume_point_bounds:
  assumes "resume_point cp s e = Some (n, h)" "s \<le> e"
  shows "s \<le> n \<and> n \<le> e"
proof (cases "\<exists>c. cp = Some c \<and> s \<le> cp_Number c")
  case True
  then obtain c where c: "cp = Some c" "s \<le> cp_Number c" by blast
  with assms have n: "n = cp_Number c + 1" and lt: "cp_Number c < e"
    by (auto simp: resume_point_def Let_def split: if_splits)
  from unat_plus_one [OF lt] lt c(2) n show ?thesis
    by (auto simp: word_le_nat_alt word_less_nat_alt)
next
  case False
  with assms show ?thesis by (auto simp: resume_point_def Let_def split: option.splits if_splits)
qed

text \<open>Where indexing resumes: right after the checkpoint when the checkpoint lies in or just
  before the range, and then the next block must name the checkpoint's hash.\<close>

lemma resume_point_hash:
  "resume_point cp s e = Some (n, h) \<Longrightarrow> h \<noteq> '''' \<Longrightarrow> \<exists>c. cp = Some c \<and> cp_Number c + 1 = n \<and> cp_Hash c = h"
  by (auto simp: resume_point_def Let_def split: option.splits if_splits)

section \<open>Correctness against the persistence contract\<close>

text \<open>What a run of the loop does to the view: it commits a served, linked run of blocks from
  the current height, whatever the outcome. On an error at least the last block is missing or
  its acknowledgement is.\<close>

definition loop_post :: "('w \<Rightarrow> chain_view) \<Rightarrow> (u64 \<Rightarrow> BlockTransferIndex list \<Rightarrow> bool) \<Rightarrow> u64 \<Rightarrow> u64 \<Rightarrow> BlockHash \<Rightarrow>
    BlockTransferIndex list \<Rightarrow> 'w \<Rightarrow> go_error + BlockTransferIndex list \<Rightarrow> 'w \<Rightarrow> bool" where
  "loop_post view served n endBlock h acc w r w' \<longleftrightarrow>
     (\<exists>bs. view w' = fold commit_view bs (view w) \<and> served n bs \<and> linked h bs \<and>
        length bs \<le> unat (endBlock - n) + 1 \<and>
        (\<forall>out. r = Inr out \<longrightarrow> out = acc @ bs \<and> length bs = unat (endBlock - n) + 1))"

definition range_post :: "('w \<Rightarrow> chain_view) \<Rightarrow> (u64 \<Rightarrow> 'w \<Rightarrow> (go_error, ObservedBlock, 'w) outcome) \<Rightarrow>
    (ObservedBlock \<Rightarrow> 'w \<Rightarrow> (go_error, BlockTransferIndex, 'w) outcome) \<Rightarrow> u64 \<Rightarrow> u64 \<Rightarrow> 'w \<Rightarrow>
    go_error + BlockTransferIndex list \<Rightarrow> 'w \<Rightarrow> bool" where
  "range_post view fetch decode startBlock endBlock w r w' \<longleftrightarrow>
    (\<exists>bs. view w' = fold commit_view bs (view w) \<and>
       (bs = [] \<or> (\<exists>n h. startBlock \<le> endBlock \<and>
          resume_point (cv_checkpoint (view w)) startBlock endBlock = Some (n, h) \<and>
          served_run fetch decode n bs \<and> linked h bs \<and> length bs \<le> unat (endBlock - n) + 1)) \<and>
       (\<forall>out. r = Inr out \<longrightarrow> startBlock \<le> endBlock \<and> out = bs \<and>
          (case resume_point (cv_checkpoint (view w)) startBlock endBlock of
             None \<Rightarrow> bs = [] | Some (n, h) \<Rightarrow> length bs = unat (endBlock - n) + 1)))"

text \<open>The same for a client that numbers its answers, on views alone: what is written is an
  unbroken, linked run of heights inside the range, continuing the checkpoint when it can, and
  success means the checkpoint has reached the end of the range.\<close>

definition range_indexed :: "u64 \<Rightarrow> u64 \<Rightarrow> chain_view \<Rightarrow> go_error + BlockTransferIndex list \<Rightarrow> chain_view \<Rightarrow> bool" where
  "range_indexed startBlock endBlock v r v' \<longleftrightarrow>
     (\<exists>n h bs. v' = fold commit_view bs v \<and> numbered n bs \<and> linked h bs \<and>
        (bs = [] \<or> resume_point (cv_checkpoint v) startBlock endBlock = Some (n, h)) \<and>
        (\<forall>ix \<in> set bs. startBlock \<le> ix_BlockNumber ix \<and> ix_BlockNumber ix \<le> endBlock) \<and>
        distinct (map ix_BlockNumber bs) \<and>
        (\<forall>out. r = Inr out \<longrightarrow> out = bs \<and>
           (\<exists>cp. cv_checkpoint v' = Some cp \<and> endBlock \<le> cp_Number cp)))"

lemma unat_distance_Suc: "n \<noteq> e \<Longrightarrow> unat (e - n) = Suc (unat (e - (n + 1)))" for n e :: u64
  using unat_minus_one_u64 [of "e - n"] by (auto simp: diff_diff_eq unat_eq_0 unat_gt_0 intro!: Suc_pred')

lemma height_in_range:
  fixes n e :: u64
  assumes "n \<le> e" "i \<le> unat (e - n)"
  shows "n \<le> n + of_nat i" "n + of_nat i \<le> e"
proof -
  have d: "unat (e - n) = unat e - unat n" "unat n \<le> unat e"
    using assms(1) by (auto simp: word_le_nat_alt unat_sub)
  have "unat e < 2 ^ 64" by (rule unat_bound_u64)
  with assms(2) d have "unat (n + of_nat i) = unat n + i"
    by (simp add: unat_word_ariths unat_of_nat take_bit_eq_mod)
  with assms(2) d show "n \<le> n + of_nat i" "n + of_nat i \<le> e" by (auto simp: word_le_nat_alt)
qed

lemma resume_point_None:
  "resume_point cp startBlock endBlock = None \<Longrightarrow> \<exists>c. cp = Some c \<and> endBlock \<le> cp_Number c"
  by (auto simp: resume_point_def Let_def split: option.splits if_splits)

lemma range_post_indexed:
  assumes "range_post view fetch decode startBlock endBlock w r w'"
    and "\<And>n w b w'. fetch n w = (Inr b, w') \<Longrightarrow> ob_Number b = n"
    and "\<And>b w ix w'. decode b w = (Inr ix, w') \<Longrightarrow> ix_BlockNumber ix = ob_Number b"
  shows "range_indexed startBlock endBlock (view w) r (view w')"
proof -
  from assms(1) obtain bs where v: "view w' = fold commit_view bs (view w)"
    and run: "bs = [] \<or> (\<exists>n h. startBlock \<le> endBlock \<and>
          resume_point (cv_checkpoint (view w)) startBlock endBlock = Some (n, h) \<and>
          served_run fetch decode n bs \<and> linked h bs \<and> length bs \<le> unat (endBlock - n) + 1)"
    and out: "\<forall>out. r = Inr out \<longrightarrow> startBlock \<le> endBlock \<and> out = bs \<and>
          (case resume_point (cv_checkpoint (view w)) startBlock endBlock of
             None \<Rightarrow> bs = [] | Some (n, h) \<Rightarrow> length bs = unat (endBlock - n) + 1)"
    unfolding range_post_def by blast
  show ?thesis
  proof (cases "bs = []")
    case True
    with out have "\<forall>out. r = Inr out \<longrightarrow> out = [] \<and> resume_point (cv_checkpoint (view w)) startBlock endBlock = None"
      by (auto split: option.splits)
    with resume_point_None have "\<forall>out. r = Inr out \<longrightarrow> out = [] \<and>
        (\<exists>cp. cv_checkpoint (view w) = Some cp \<and> endBlock \<le> cp_Number cp)" by blast
    with True v show ?thesis
      unfolding range_indexed_def
      by (intro exI [of _ startBlock] exI [of _ "[]"]) (simp add: numbered_def)
  next
    case False
    with run obtain n h where n: "startBlock \<le> endBlock" "linked h bs" "length bs \<le> unat (endBlock - n) + 1"
      "resume_point (cv_checkpoint (view w)) startBlock endBlock = Some (n, h)"
      "served_run fetch decode n bs" by blast
    from served_run_numbered [OF n(5) assms(2,3)] have num: "numbered n bs" .
    from resume_point_bounds [OF n(4,1)] have bounds: "startBlock \<le> n" "n \<le> endBlock" by auto
    have "startBlock \<le> ix_BlockNumber ix \<and> ix_BlockNumber ix \<le> endBlock" if "ix \<in> set bs" for ix
    proof -
      from that obtain i where i: "i < length bs" "ix = bs ! i" by (auto simp: in_set_conv_nth)
      with num have "ix_BlockNumber ix = n + of_nat i" by (simp add: numbered_def)
      with height_in_range [OF bounds(2), of i] bounds i n(3) show ?thesis by auto
    qed
    moreover have "length bs \<le> 2 ^ 64" using n(3) unat_bound_u64 [of "endBlock - n"] by linarith
    moreover have "ix_BlockNumber (last bs) = endBlock" if "length bs = unat (endBlock - n) + 1"
      using num False that by (simp add: numbered_def last_conv_nth)
    ultimately show ?thesis
      unfolding range_indexed_def using v num n False out numbered_distinct [OF num]
      by (intro exI [of _ n] exI [of _ h] exI [of _ bs]) (auto simp: fold_commit_checkpoint checkpoint_of_def)
  qed
qed

context range_indexing
begin

text \<open>The indexer built from the contract's operations.\<close>

abbreviation indexer :: "'w SequentialIndexer" where
  "indexer \<equiv> NewSequentialIndexer
     \<lparr>GetObservedBlockByNumber = fetch, GetERC20TransfersByBlock = decode\<rparr>
     \<lparr>Load = load, SaveIndexedBlock = save\<rparr>"

lemma index_block_ok:
  assumes "inv w" "index_block indexer n h w = (Inr ix, w')"
  shows "inv w'" "view w' = commit_view ix (view w)" "served_by fetch decode n ix" "parent_ok ix h"
proof -
  from assms(2) obtain b w1 w2 where f: "fetch n w = (Inr b, w1)" and d: "decode b w1 = (Inr ix, w2)"
    and v: "validateParentHash (ix_BlockNumber ix) (ix_ParentHash ix) h = None"
    and s: "save ix w2 = (Inr (), w')"
    by (auto simp: index_block_def split: prod.splits sum.splits option.splits)
  from fetch_frame [OF assms(1) f] have w1: "inv w1" "view w1 = view w" by auto
  from decode_frame [OF w1(1) d] w1 have w2: "inv w2" "view w2 = view w" by auto
  from save_ok [OF w2(1) s] w2 show "inv w'" "view w' = commit_view ix (view w)" by auto
  from f d show "served_by fetch decode n ix" by (auto simp: served_by_def)
  from v show "parent_ok ix h" by (simp add: validateParentHash_None)
qed

lemma index_block_error:
  assumes "inv w" "index_block indexer n h w = (Inl e, w')"
  shows "inv w' \<and> (view w' = view w \<or>
    (\<exists>ix. view w' = commit_view ix (view w) \<and> served_by fetch decode n ix \<and> parent_ok ix h))"
proof -
  obtain rb w1 where f: "fetch n w = (rb, w1)" by force
  from fetch_frame [OF assms(1) f] have w1: "inv w1" "view w1 = view w" by auto
  show ?thesis
  proof (cases "\<exists>b ix w2. rb = Inr b \<and> decode b w1 = (Inr ix, w2) \<and>
      validateParentHash (ix_BlockNumber ix) (ix_ParentHash ix) h = None")
    case True
    then obtain b ix w2 where ok: "rb = Inr b" "decode b w1 = (Inr ix, w2)" "parent_ok ix h"
      "validateParentHash (ix_BlockNumber ix) (ix_ParentHash ix) h = None"
      by (auto simp: validateParentHash_None)
    from decode_frame [OF w1(1) ok(2)] w1 have w2: "inv w2" "view w2 = view w" by auto
    from assms(2) f ok obtain e' where "save ix w2 = (Inl e', w')"
      by (auto simp: index_block_def split: prod.splits sum.splits)
    from save_error [OF w2(1) this] w2 have "inv w' \<and> (view w' = view w \<or> view w' = commit_view ix (view w))"
      by simp
    moreover from f ok have "served_by fetch decode n ix" by (auto simp: served_by_def)
    ultimately show ?thesis using ok(3) by blast
  next
    case False
    with assms(2) f have "w' = w1 \<or> (\<exists>b r. decode b w1 = (r, w'))"
      by (auto simp: index_block_def split: prod.splits sum.splits option.splits)
    with w1 decode_frame show ?thesis by metis
  qed
qed

lemma index_loop_commits:
  assumes "inv w" "index_loop indexer endBlock n h acc w = (r, w')"
  shows "inv w' \<and> loop_post view (served_run fetch decode) n endBlock h acc w r w'"
  using assms
proof (induction "unat (endBlock - n)" arbitrary: n h acc w rule: less_induct)
  case less
  note unfold = index_loop.simps [of indexer endBlock n h acc w]
  obtain rb w1 where step: "index_block indexer n h w = (rb, w1)" by force
  show ?case
  proof (cases rb)
    case (Inl e)
    with step unfold less.prems(2) have r: "r = Inl e" "w' = w1" by auto
    from index_block_error [OF less.prems(1) step [unfolded Inl]] consider
        "inv w1" "view w1 = view w"
      | ix where "inv w1" "view w1 = commit_view ix (view w)" "served_by fetch decode n ix" "parent_ok ix h"
      by blast
    then show ?thesis
    proof cases
      case 1
      then show ?thesis unfolding loop_post_def r by (auto intro!: exI [of _ "[]"])
    next
      case 2
      then show ?thesis unfolding loop_post_def r by (auto intro!: exI [of _ "[ix]"])
    qed
  next
    case (Inr ix)
    note fin = index_block_ok [OF less.prems(1) step [unfolded Inr]]
    show ?thesis
    proof (cases "n = endBlock")
      case True
      with step Inr unfold less.prems(2) fin show ?thesis
        unfolding loop_post_def by (auto intro!: exI [of _ "[ix]"])
    next
      case False
      with step Inr unfold less.prems(2)
      have rec: "index_loop indexer endBlock (n + 1) (ix_BlockHash ix) (acc @ [ix]) w1 = (r, w')" by simp
      note dist = unat_distance_Suc [OF False]
      from less.hyps [OF _ fin(1) rec] dist
      have "inv w'" "loop_post view (served_run fetch decode) (n + 1) endBlock (ix_BlockHash ix) (acc @ [ix]) w1 r w'"
        by simp_all
      then obtain bs where bs: "view w' = fold commit_view bs (view w1)"
        "served_run fetch decode (n + 1) bs" "linked (ix_BlockHash ix) bs"
        "length bs \<le> unat (endBlock - (n + 1)) + 1"
        "\<forall>out. r = Inr out \<longrightarrow> out = (acc @ [ix]) @ bs \<and> length bs = unat (endBlock - (n + 1)) + 1"
        unfolding loop_post_def by blast
      with \<open>inv w'\<close> fin dist show ?thesis
        unfolding loop_post_def by (intro conjI exI [of _ "ix # bs"]) auto
    qed
  qed
qed

text \<open>The whole range: nothing happens before the checkpoint is read; then a run from the
  resume point is committed.\<close>

lemma IndexRange_commits:
  assumes "inv w" "seq_IndexRange indexer startBlock endBlock w = (r, w')"
  shows "inv w' \<and> range_post view fetch decode startBlock endBlock w r w'"
proof (cases "startBlock \<le> endBlock")
  case False
  with assms show ?thesis
    by (auto simp: range_post_def seq_IndexRange_def classified_Inl not_le intro!: exI [of _ "[]"])
next
  case True
  then have lt: "\<not> endBlock < startBlock" by simp
  obtain rl w1 where l: "load w = (rl, w1)" by force
  from load_frame [OF assms(1) l] have w1: "inv w1" "view w1 = view w" by auto
  show ?thesis
  proof (cases "\<exists>n h. rl = Inr (cv_checkpoint (view w)) \<and>
      resume_point (cv_checkpoint (view w)) startBlock endBlock = Some (n, h)")
    case False
    have "w' = w1 \<and> (isl r \<or> r = Inr [] \<and>
        resume_point (cv_checkpoint (view w)) startBlock endBlock = None)"
    proof (cases rl)
      case (Inl e)
      with assms(2) l lt show ?thesis by (auto simp: seq_IndexRange_def)
    next
      case (Inr cp)
      with load_value [OF assms(1)] l have cp: "cp = cv_checkpoint (view w)" by blast
      with Inr False have "resume_point cp startBlock endBlock = None"
        by (cases "resume_point cp startBlock endBlock") auto
      with assms(2) l lt Inr cp show ?thesis by (auto simp: seq_IndexRange_def)
    qed
    with w1 True show ?thesis by (auto simp: range_post_def intro!: exI [of _ "[]"])
  next
    case True
    then obtain n h where cp: "rl = Inr (cv_checkpoint (view w))"
      "resume_point (cv_checkpoint (view w)) startBlock endBlock = Some (n, h)" by blast
    obtain ro wo where loop: "index_loop indexer endBlock n h [] w1 = (ro, wo)" by force
    from assms(2) l cp loop lt
    have "w' = wo" and r: "r = classified ErrIndexing ''index block range sequentially'' ro"
      by (auto simp: seq_IndexRange_def)
    with index_loop_commits [OF w1(1) loop] w1 cp(2) \<open>startBlock \<le> endBlock\<close> show ?thesis
      unfolding loop_post_def range_post_def by auto
  qed
qed

end

context transfer_storing
begin

lemma index_block_keeps:
  assumes "inv w" "index_block indexer n h w = (r, w')" "stored ix' w"
  shows "stored ix' w'"
proof -
  obtain rf w1 where f: "fetch n w = (rf, w1)" by force
  note w1 = fetch_frame [OF assms(1) f] fetch_keeps [OF f assms(3)]
  show ?thesis
  proof (cases rf)
    case (Inl e)
    with assms(2) f w1 show ?thesis by (auto simp: index_block_def)
  next
    case (Inr b)
    obtain rd w2 where d: "decode b w1 = (rd, w2)" by force
    note w2 = decode_frame [OF conjunct1 [OF w1(1)] d] decode_keeps [OF d w1(2)]
    from assms(2) f Inr d have "w' = w2 \<or> (\<exists>ix r. save ix w2 = (r, w'))"
      by (auto simp: index_block_def split: sum.splits option.splits prod.splits)
    with w2 save_keeps show ?thesis by blast
  qed
qed

lemma index_block_stores:
  assumes "inv w" "index_block indexer n h w = (Inr ix, w')"
  shows "stored ix w'"
proof -
  from assms(2) obtain b w1 w2 where f: "fetch n w = (Inr b, w1)" and d: "decode b w1 = (Inr ix, w2)"
    and s: "save ix w2 = (Inr (), w')"
    by (auto simp: index_block_def split: prod.splits sum.splits option.splits)
  from fetch_frame [OF assms(1) f] decode_frame [OF _ d] have "inv w2" by blast
  from save_stores [OF this s] show ?thesis .
qed

lemma index_loop_stores:
  assumes "inv w" "index_loop indexer endBlock n h acc w = (Inr out, w')" "\<forall>ix \<in> set acc. stored ix w"
  shows "\<forall>ix \<in> set out. stored ix w'"
  using assms
proof (induction "unat (endBlock - n)" arbitrary: n h acc w rule: less_induct)
  case less
  note unfold = index_loop.simps [of indexer endBlock n h acc w]
  obtain rb w1 where step: "index_block indexer n h w = (rb, w1)" by force
  with unfold less.prems(2) obtain ix where rb: "rb = Inr ix" by (cases rb) auto
  note one = index_block_ok(1) [OF less.prems(1) step [unfolded rb]]
    index_block_stores [OF less.prems(1) step [unfolded rb]]
  from less.prems(3) index_block_keeps [OF less.prems(1) step] one(2)
  have acc: "\<forall>ix' \<in> set (acc @ [ix]). stored ix' w1" by auto
  show ?case
  proof (cases "n = endBlock")
    case True
    with step rb unfold less.prems(2) acc show ?thesis by simp
  next
    case False
    with step rb unfold less.prems(2)
    have "index_loop indexer endBlock (n + 1) (ix_BlockHash ix) (acc @ [ix]) w1 = (Inr out, w')" by simp
    from less.hyps [OF _ one(1) this acc] unat_distance_Suc [OF False] show ?thesis by simp
  qed
qed

lemma IndexRange_stores:
  assumes "inv w" "seq_IndexRange indexer startBlock endBlock w = (Inr out, w')"
  shows "\<forall>ix \<in> set out. stored ix w'"
proof -
  obtain rl w1 where l: "load w = (rl, w1)" by force
  from load_frame [OF assms(1) l] have w1: "inv w1" by simp
  from assms(2) l have "out = [] \<or> (\<exists>n h. index_loop indexer endBlock n h [] w1 = (Inr out, w'))"
    by (auto simp: seq_IndexRange_def Let_def split: if_splits sum.splits option.splits prod.splits)
  with index_loop_stores [OF w1] show ?thesis by auto
qed

end

end
