(* ===== verification/Concurrent_Indexer.thy ===== *)
theory Concurrent_Indexer
  imports Sequential_Indexer
begin

text \<open>
  \<^verbatim>\<open>ConcurrentRangeIndexer\<close> of \<^verbatim>\<open>internal/indexer/concurrent_indexer.go\<close>. One \<^verbatim>\<open>IndexRange\<close> call is a
  transition system over the state of its goroutines: the producer that hands heights to an
  unbuffered \<^verbatim>\<open>jobs\<close> channel, \<^verbatim>\<open>workerCount\<close> workers, the buffered \<^verbatim>\<open>results\<close> channel (closed when
  every worker has exited) and the collector, which is the caller itself. Every call on the
  client or the persistence is one step, every channel operation is one step, and a \<^verbatim>\<open>select\<close>
  with several ready cases may take any of them. The caller's context may be cancelled at any
  moment.
\<close>

section \<open>State\<close>

record concurrentBlockResult =
  res_blockNumber :: u64
  res_index :: BlockTransferIndex
  res_err :: "go_error option"

record 'w ConcurrentRangeIndexer =
  conc_client :: "'w TransferBlockClient"
  conc_persistence :: "'w BlockPersistence"
  conc_workerCount :: int

definition NewConcurrentRangeIndexer :: "'w TransferBlockClient \<Rightarrow> 'w BlockPersistence \<Rightarrow> int \<Rightarrow>
    'w ConcurrentRangeIndexer" where
  "NewConcurrentRangeIndexer client persistence workerCount =
     \<lparr>conc_client = client, conc_persistence = persistence, conc_workerCount = workerCount\<rparr>"

text \<open>A worker waits for a job, is inside one of \<^verbatim>\<open>processBlock\<close>'s two calls, waits to send its
  result, or has returned.\<close>

datatype worker = Idle | Fetching u64 | Decoding u64 ObservedBlock | Sending concurrentBlockResult | Exited

text \<open>The collector receives from \<^verbatim>\<open>results\<close>, runs the inner loop over \<^verbatim>\<open>pending\<close>, or has returned.\<close>

datatype phase = Receiving | Draining | Returned "go_error + BlockTransferIndex list"

record 'w pipeline =
  p_world :: 'w
  p_ctx_err :: "go_error option"
  p_cancelled :: bool
  p_producer :: "u64 option"
  p_workers :: "worker list"
  p_results :: "concurrentBlockResult list"
  p_pending :: "u64 \<rightharpoonup> concurrentBlockResult"
  p_ordered :: "BlockTransferIndex list"
  p_nextCommit :: u64
  p_expectedParent :: BlockHash
  p_phase :: phase

text \<open>\<^verbatim>\<open>workerCtx\<close> is done once the caller's context is, or once \<^verbatim>\<open>cancel\<close> was called.\<close>

definition ctx_done :: "'w pipeline \<Rightarrow> bool" where
  "ctx_done s \<longleftrightarrow> p_ctx_err s \<noteq> None \<or> p_cancelled s"

definition start_pipeline :: "'w ConcurrentRangeIndexer \<Rightarrow> u64 \<Rightarrow> BlockHash \<Rightarrow> 'w \<Rightarrow> 'w pipeline" where
  "start_pipeline c nextBlock expectedParentHash w =
     \<lparr>p_world = w, p_ctx_err = None, p_cancelled = False, p_producer = Some nextBlock,
      p_workers = replicate (nat (conc_workerCount c)) Idle, p_results = [], p_pending = Map.empty,
      p_ordered = [], p_nextCommit = nextBlock, p_expectedParent = expectedParentHash, p_phase = Receiving\<rparr>"

section \<open>Steps\<close>

definition zero_index :: BlockTransferIndex where
  "zero_index = \<lparr>ix_BlockNumber = 0, ix_BlockHash = '''', ix_ParentHash = '''', ix_Transfers = []\<rparr>"

definition block_failed :: "u64 \<Rightarrow> go_error \<Rightarrow> concurrentBlockResult" where
  "block_failed blockNumber err = \<lparr>res_blockNumber = blockNumber, res_index = zero_index, res_err = Some err\<rparr>"

text \<open>\<^verbatim>\<open>processBlock\<close>, cut at its two calls.\<close>

definition process_fetch :: "'w ConcurrentRangeIndexer \<Rightarrow> u64 \<Rightarrow> 'w \<Rightarrow> worker \<times> 'w" where
  "process_fetch c blockNumber w =
     (case GetObservedBlockByNumber (conc_client c) blockNumber w of
        (Inl err, w') \<Rightarrow>
          (Sending (block_failed blockNumber (Wrapf (''failed to fetch block '' @ show_u64 blockNumber) err)), w')
      | (Inr block, w') \<Rightarrow> (Decoding blockNumber block, w'))"

definition process_decode :: "'w ConcurrentRangeIndexer \<Rightarrow> u64 \<Rightarrow> ObservedBlock \<Rightarrow> 'w \<Rightarrow> worker \<times> 'w" where
  "process_decode c blockNumber block w =
     (case GetERC20TransfersByBlock (conc_client c) block w of
        (Inl err, w') \<Rightarrow>
          (Sending (block_failed blockNumber (Wrapf (''failed to index block '' @ show_u64 blockNumber) err)), w')
      | (Inr index, w') \<Rightarrow>
          (Sending \<lparr>res_blockNumber = blockNumber, res_index = index, res_err = None\<rparr>, w'))"

text \<open>A return of the collector; the deferred \<^verbatim>\<open>cancel\<close> runs.\<close>

definition collector_returns :: "go_error + BlockTransferIndex list \<Rightarrow> 'w pipeline \<Rightarrow> 'w pipeline" where
  "collector_returns r s = s\<lparr>p_phase := Returned r, p_cancelled := True\<rparr>"

text \<open>One iteration of the inner loop over \<^verbatim>\<open>pending\<close>.\<close>

definition drain_one :: "'w ConcurrentRangeIndexer \<Rightarrow> u64 \<Rightarrow> 'w pipeline \<Rightarrow> 'w pipeline" where
  "drain_one c endBlock s =
     (case p_pending s (p_nextCommit s) of
        None \<Rightarrow> s\<lparr>p_phase := Receiving\<rparr>
      | Some nextResult \<Rightarrow>
          (case res_err nextResult of
             Some err \<Rightarrow> collector_returns (Inl err) s
           | None \<Rightarrow>
               let index = res_index nextResult in
               (case validateParentHash (ix_BlockNumber index) (ix_ParentHash index) (p_expectedParent s) of
                  Some err \<Rightarrow> collector_returns (Inl err) s
                | None \<Rightarrow>
                    (case SaveIndexedBlock (conc_persistence c) index (p_world s) of
                       (Inl err, w') \<Rightarrow>
                         collector_returns
                           (Inl (Wrapf (''failed to persist indexed block '' @ show_u64 (p_nextCommit s)) err))
                           (s\<lparr>p_world := w'\<rparr>)
                     | (Inr _, w') \<Rightarrow>
                         let s' = s\<lparr>p_world := w', p_expectedParent := ix_BlockHash index,
                                    p_ordered := p_ordered s @ [index],
                                    p_pending := (p_pending s)(p_nextCommit s := None)\<rparr>
                         in if p_nextCommit s = endBlock then collector_returns (Inr (p_ordered s')) s'
                            else s'\<lparr>p_nextCommit := p_nextCommit s + 1\<rparr>))))"

inductive pipeline_step :: "'w ConcurrentRangeIndexer \<Rightarrow> u64 \<Rightarrow> 'w pipeline \<Rightarrow> 'w pipeline \<Rightarrow> bool"
  for c :: "'w ConcurrentRangeIndexer" and endBlock :: u64 where
  dispatch: "p_producer s = Some n \<Longrightarrow> i < length (p_workers s) \<Longrightarrow> p_workers s ! i = Idle \<Longrightarrow>
    pipeline_step c endBlock s (s\<lparr>p_producer := (if n = endBlock then None else Some (n + 1)),
      p_workers := (p_workers s)[i := Fetching n]\<rparr>)"
| producer_stops: "p_producer s = Some n \<Longrightarrow> ctx_done s \<Longrightarrow>
    pipeline_step c endBlock s (s\<lparr>p_producer := None\<rparr>)"
| fetch: "i < length (p_workers s) \<Longrightarrow> p_workers s ! i = Fetching n \<Longrightarrow>
    process_fetch c n (p_world s) = (wk, w') \<Longrightarrow>
    pipeline_step c endBlock s (s\<lparr>p_world := w', p_workers := (p_workers s)[i := wk]\<rparr>)"
| decode: "i < length (p_workers s) \<Longrightarrow> p_workers s ! i = Decoding n b \<Longrightarrow>
    process_decode c n b (p_world s) = (wk, w') \<Longrightarrow>
    pipeline_step c endBlock s (s\<lparr>p_world := w', p_workers := (p_workers s)[i := wk]\<rparr>)"
| send: "i < length (p_workers s) \<Longrightarrow> p_workers s ! i = Sending r \<Longrightarrow>
    int (length (p_results s)) < conc_workerCount c \<Longrightarrow>
    pipeline_step c endBlock s (s\<lparr>p_results := p_results s @ [r], p_workers := (p_workers s)[i := Idle]\<rparr>)"
| worker_stops: "i < length (p_workers s) \<Longrightarrow> p_workers s ! i = Sending r \<Longrightarrow> ctx_done s \<Longrightarrow>
    pipeline_step c endBlock s (s\<lparr>p_workers := (p_workers s)[i := Exited]\<rparr>)"
| jobs_closed: "i < length (p_workers s) \<Longrightarrow> p_workers s ! i = Idle \<Longrightarrow> p_producer s = None \<Longrightarrow>
    pipeline_step c endBlock s (s\<lparr>p_workers := (p_workers s)[i := Exited]\<rparr>)"
| receive: "p_phase s = Receiving \<Longrightarrow> p_results s = r # rs \<Longrightarrow>
    pipeline_step c endBlock s (s\<lparr>p_results := rs, p_pending := (p_pending s)(res_blockNumber r \<mapsto> r),
      p_phase := Draining\<rparr>)"
| drain: "p_phase s = Draining \<Longrightarrow> pipeline_step c endBlock s (drain_one c endBlock s)"
| results_closed: "p_phase s = Receiving \<Longrightarrow> p_results s = [] \<Longrightarrow> list_all (\<lambda>wk. wk = Exited) (p_workers s) \<Longrightarrow>
    pipeline_step c endBlock s (collector_returns
      (case p_ctx_err s of Some err \<Rightarrow> Inl err | None \<Rightarrow> Inr (p_ordered s)) s)"
| interrupted: "p_ctx_err s = None \<Longrightarrow> err \<in> {Sentinel ContextCanceled, Sentinel ContextDeadlineExceeded} \<Longrightarrow>
    pipeline_step c endBlock s (s\<lparr>p_ctx_err := Some err\<rparr>)"

declare pipeline_step.intros [step_intros]

inductive pipeline_reaches :: "'w ConcurrentRangeIndexer \<Rightarrow> u64 \<Rightarrow> 'w pipeline \<Rightarrow> 'w pipeline \<Rightarrow> bool"
  for c endBlock s0 where
  start: "pipeline_reaches c endBlock s0 s0"
| step: "pipeline_reaches c endBlock s0 s \<Longrightarrow> pipeline_step c endBlock s s' \<Longrightarrow> pipeline_reaches c endBlock s0 s'"

text \<open>\<^verbatim>\<open>IndexRange\<close> returns \<open>r\<close> leaving the world \<open>w'\<close> (in which abandoned workers may still be
  finishing their calls); \<open>ctx\<close> is the error of the caller's context by then.\<close>

inductive conc_returns :: "'w ConcurrentRangeIndexer \<Rightarrow> u64 \<Rightarrow> u64 \<Rightarrow> 'w \<Rightarrow>
    go_error option \<Rightarrow> go_error + BlockTransferIndex list \<Rightarrow> 'w \<Rightarrow> bool"
  for c startBlock endBlock w where
  bad_range: "startBlock > endBlock \<Longrightarrow>
    conc_returns c startBlock endBlock w ctx (classified ErrIndexing ''index block range concurrently''
      (Inl (NewDomainError (Some (Sentinel ErrValidation)) ''validate block range''
         (Some (Sentinel ErrInvalidBlockRange))))) w"
| bad_workers: "\<not> startBlock > endBlock \<Longrightarrow> conc_workerCount c \<le> 0 \<Longrightarrow>
    conc_returns c startBlock endBlock w ctx (classified ErrIndexing ''index block range concurrently''
      (Inl (NewDomainError (Some (Sentinel ErrValidation)) ''validate worker count''
         (Some (Sentinel ErrInvalidWorkerCount))))) w"
| load_failed: "\<not> startBlock > endBlock \<Longrightarrow> \<not> conc_workerCount c \<le> 0 \<Longrightarrow>
    Load (conc_persistence c) w = (Inl err, w1) \<Longrightarrow>
    conc_returns c startBlock endBlock w ctx (classified ErrIndexing ''index block range concurrently''
      (Inl (Wrapf ''failed to load checkpoint'' err))) w1"
| up_to_date: "\<not> startBlock > endBlock \<Longrightarrow> \<not> conc_workerCount c \<le> 0 \<Longrightarrow>
    Load (conc_persistence c) w = (Inr checkpoint, w1) \<Longrightarrow>
    resume_point checkpoint startBlock endBlock = None \<Longrightarrow>
    conc_returns c startBlock endBlock w ctx (Inr []) w1"
| pipelined: "\<not> startBlock > endBlock \<Longrightarrow> \<not> conc_workerCount c \<le> 0 \<Longrightarrow>
    Load (conc_persistence c) w = (Inr checkpoint, w1) \<Longrightarrow>
    resume_point checkpoint startBlock endBlock = Some (nextBlock, expectedParentHash) \<Longrightarrow>
    pipeline_reaches c endBlock (start_pipeline c nextBlock expectedParentHash w1) s \<Longrightarrow>
    p_phase s = Returned r \<Longrightarrow>
    conc_returns c startBlock endBlock w (p_ctx_err s)
      (classified ErrIndexing ''index block range concurrently'' r) (p_world s)"

definition conc_IndexRange :: "'w ConcurrentRangeIndexer \<Rightarrow> u64 \<Rightarrow> u64 \<Rightarrow> 'w \<Rightarrow>
    go_error + BlockTransferIndex list \<Rightarrow> 'w \<Rightarrow> bool" where
  "conc_IndexRange c startBlock endBlock w r w' \<longleftrightarrow> (\<exists>ctx. conc_returns c startBlock endBlock w ctx r w')"

text \<open>The same call while other goroutines of the process (HTTP requests, workers a cancelled call left
  behind) change the world between any two of its steps, as \<open>others\<close> describes.\<close>

inductive shared_reaches :: "('w \<Rightarrow> 'w \<Rightarrow> bool) \<Rightarrow> 'w ConcurrentRangeIndexer \<Rightarrow> u64 \<Rightarrow> 'w pipeline \<Rightarrow> 'w pipeline \<Rightarrow> bool"
  for others c endBlock s0 where
  shared_start: "shared_reaches others c endBlock s0 s0"
| shared_step: "shared_reaches others c endBlock s0 s \<Longrightarrow> pipeline_step c endBlock s s' \<Longrightarrow>
    shared_reaches others c endBlock s0 s'"
| shared_others: "shared_reaches others c endBlock s0 s \<Longrightarrow> others (p_world s) w' \<Longrightarrow>
    shared_reaches others c endBlock s0 (s\<lparr>p_world := w'\<rparr>)"

inductive shared_IndexRange :: "('w \<Rightarrow> 'w \<Rightarrow> bool) \<Rightarrow> 'w ConcurrentRangeIndexer \<Rightarrow> u64 \<Rightarrow> u64 \<Rightarrow> 'w \<Rightarrow>
    go_error + BlockTransferIndex list \<Rightarrow> 'w \<Rightarrow> bool"
  for others c startBlock endBlock where
  undisturbed: "conc_IndexRange c startBlock endBlock w r w' \<Longrightarrow> shared_IndexRange others c startBlock endBlock w r w'"
| others_before: "others w w1 \<Longrightarrow> shared_IndexRange others c startBlock endBlock w1 r w' \<Longrightarrow>
    shared_IndexRange others c startBlock endBlock w r w'"
| others_after: "shared_IndexRange others c startBlock endBlock w r w1 \<Longrightarrow> others w1 w' \<Longrightarrow>
    shared_IndexRange others c startBlock endBlock w r w'"
| others_within: "\<not> startBlock > endBlock \<Longrightarrow> \<not> conc_workerCount c \<le> 0 \<Longrightarrow>
    Load (conc_persistence c) w = (Inr checkpoint, w1) \<Longrightarrow>
    resume_point checkpoint startBlock endBlock = Some (nextBlock, expectedParentHash) \<Longrightarrow>
    shared_reaches others c endBlock (start_pipeline c nextBlock expectedParentHash w1) s \<Longrightarrow>
    p_phase s = Returned r \<Longrightarrow>
    shared_IndexRange others c startBlock endBlock w (classified ErrIndexing ''index block range concurrently'' r) (p_world s)"

lemma pipeline_reaches_shared: "pipeline_reaches c endBlock s0 s \<Longrightarrow> shared_reaches others c endBlock s0 s"
  by (induction rule: pipeline_reaches.induct) (auto intro: shared_reaches.intros)

section \<open>Every schedule ends, and ends with a return\<close>

fun worker_weight :: "worker \<Rightarrow> nat" where
  "worker_weight Idle = 1"
| "worker_weight (Fetching n) = 7"
| "worker_weight (Decoding n b) = 6"
| "worker_weight (Sending r) = 5"
| "worker_weight Exited = 0"

fun phase_weight :: "phase \<Rightarrow> nat" where
  "phase_weight Receiving = 1"
| "phase_weight Draining = 2"
| "phase_weight (Returned r) = 0"

text \<open>Work left: heights not handed out yet, then what each of them still has to go through.\<close>

definition work_left :: "u64 \<Rightarrow> 'w pipeline \<Rightarrow> nat" where
  "work_left endBlock s =
     (case p_producer s of None \<Rightarrow> 0 | Some n \<Rightarrow> 7 * (unat (endBlock - n) + 1)) +
     sum_list (map worker_weight (p_workers s)) + 3 * length (p_results s) +
     unat (endBlock - p_nextCommit s) + phase_weight (p_phase s) + (if p_ctx_err s = None then 1 else 0)"

lemma sum_weight_update:
  "i < length ws \<Longrightarrow> sum_list (map worker_weight (ws[i := wk])) + worker_weight (ws ! i) =
     sum_list (map worker_weight ws) + worker_weight wk"
  by (induction ws arbitrary: i) (auto split: nat.splits)

lemma process_weights:
  "process_fetch c n w = (wk, w') \<Longrightarrow> worker_weight wk < 7"
  "process_decode c n b w = (wk, w') \<Longrightarrow> worker_weight wk < 6"
  by (auto simp: process_fetch_def process_decode_def split: prod.splits sum.splits)

lemma drain_one_cases [consumes 1, case_names missing returned saved]:
  assumes "drain_one c endBlock s = s'"
  obtains "p_pending s (p_nextCommit s) = None" "s' = s\<lparr>p_phase := Receiving\<rparr>"
  | res err w' where "p_pending s (p_nextCommit s) = Some res"
      "s' = collector_returns (Inl err) (s\<lparr>p_world := w'\<rparr>)"
      "w' = p_world s \<and> (res_err res = Some err \<or> res_err res = None \<and>
          validateParentHash (ix_BlockNumber (res_index res)) (ix_ParentHash (res_index res))
            (p_expectedParent s) = Some err) \<or>
       (\<exists>cause. res_err res = None \<and>
          validateParentHash (ix_BlockNumber (res_index res)) (ix_ParentHash (res_index res))
            (p_expectedParent s) = None \<and>
          SaveIndexedBlock (conc_persistence c) (res_index res) (p_world s) = (Inl cause, w') \<and>
          err = Wrapf (''failed to persist indexed block '' @ show_u64 (p_nextCommit s)) cause)"
  | res w' s1 where "p_pending s (p_nextCommit s) = Some res" "res_err res = None"
      "validateParentHash (ix_BlockNumber (res_index res)) (ix_ParentHash (res_index res))
         (p_expectedParent s) = None"
      "SaveIndexedBlock (conc_persistence c) (res_index res) (p_world s) = (Inr (), w')"
      "s1 = s\<lparr>p_world := w', p_expectedParent := ix_BlockHash (res_index res),
         p_ordered := p_ordered s @ [res_index res], p_pending := (p_pending s)(p_nextCommit s := None)\<rparr>"
      "s' = (if p_nextCommit s = endBlock then collector_returns (Inr (p_ordered s1)) s1
         else s1\<lparr>p_nextCommit := p_nextCommit s + 1\<rparr>)"
proof (cases "p_pending s (p_nextCommit s)")
  case None
  with assms that(1) show ?thesis by (simp add: drain_one_def)
next
  case (Some res)
  let ?v = "validateParentHash (ix_BlockNumber (res_index res)) (ix_ParentHash (res_index res)) (p_expectedParent s)"
  show ?thesis
  proof (cases "\<exists>err. res_err res = Some err \<or> res_err res = None \<and> ?v = Some err")
    case True
    then obtain err where e: "res_err res = Some err \<or> res_err res = None \<and> ?v = Some err" by blast
    with assms Some have "s' = collector_returns (Inl err) (s\<lparr>p_world := p_world s\<rparr>)"
      by (auto simp: drain_one_def)
    from that(2) [OF Some this] e show ?thesis by blast
  next
    case False
    then have ok: "res_err res = None" "?v = None" by (cases "res_err res"; cases ?v; auto)+
    obtain r w' where sv: "SaveIndexedBlock (conc_persistence c) (res_index res) (p_world s) = (r, w')"
      by (rule prod.exhaust)
    show ?thesis
    proof (cases r)
      case (Inl cause)
      with assms Some ok sv that(2) [OF Some _ disjI2] show ?thesis by (simp add: drain_one_def)
    next
      case (Inr u)
      with assms Some ok sv that(3) [OF Some ok] show ?thesis by (simp add: drain_one_def Let_def)
    qed
  qed
qed

lemma work_left_drain:
  assumes "p_phase s = Draining"
  shows "work_left endBlock (drain_one c endBlock s) < work_left endBlock s"
proof -
  obtain s' where s': "drain_one c endBlock s = s'" by simp
  then show ?thesis
  proof (cases rule: drain_one_cases)
    case (saved res w' s1)
    then show ?thesis
      using assms s' unat_distance_Suc [of "p_nextCommit s" endBlock]
      by (auto simp: work_left_def collector_returns_def)
  qed (use assms s' in \<open>auto simp: work_left_def collector_returns_def\<close>)
qed

lemma work_left_decreases:
  assumes "pipeline_step c endBlock s s'"
  shows "work_left endBlock s' < work_left endBlock s"
  using assms
proof cases
  case (dispatch n i)
  then show ?thesis
    using sum_weight_update [of i "p_workers s" "Fetching n"] unat_distance_Suc [of n endBlock]
    by (auto simp: work_left_def)
next
  case (fetch i n wk w')
  then show ?thesis
    using sum_weight_update [of i "p_workers s" wk] process_weights(1) by (fastforce simp: work_left_def)
next
  case (decode i n b wk w')
  then show ?thesis
    using sum_weight_update [of i "p_workers s" wk] process_weights(2) by (fastforce simp: work_left_def)
next
  case (send i r)
  then show ?thesis
    using sum_weight_update [of i "p_workers s" Idle] by (auto simp: work_left_def)
next
  case (worker_stops i r)
  then show ?thesis
    using sum_weight_update [of i "p_workers s" Exited] by (auto simp: work_left_def)
next
  case (jobs_closed i)
  then show ?thesis
    using sum_weight_update [of i "p_workers s" Exited] by (auto simp: work_left_def)
next
  case drain
  then show ?thesis by (simp add: work_left_drain)
qed (auto simp: work_left_def collector_returns_def)

text \<open>Before the collector has returned some goroutine can always move by itself.\<close>

definition stuck :: "'w ConcurrentRangeIndexer \<Rightarrow> u64 \<Rightarrow> 'w pipeline \<Rightarrow> bool" where
  "stuck c endBlock s \<longleftrightarrow> (\<forall>s'. pipeline_step c endBlock s s' \<longrightarrow> p_ctx_err s' \<noteq> p_ctx_err s)"

lemma stuckD:
  assumes "stuck c endBlock s" "pipeline_step c endBlock s s'"
  shows "p_ctx_err s' \<noteq> p_ctx_err s"
  using assms by (auto simp: stuck_def)

lemma stuck_worker:
  assumes "stuck c endBlock s" "i < length (p_workers s)"
  shows "p_workers s ! i = Exited \<or>
    (\<exists>r. p_workers s ! i = Sending r \<and> \<not> ctx_done s \<and> int (length (p_results s)) \<ge> conc_workerCount c)"
proof (cases "p_workers s ! i")
  case Idle
  with stuckD [OF assms(1) pipeline_step.jobs_closed [OF assms(2)]]
    stuckD [OF assms(1) pipeline_step.dispatch [OF _ assms(2)]]
  show ?thesis by (cases "p_producer s") auto
next
  case (Fetching n)
  obtain wk w' where "process_fetch c n (p_world s) = (wk, w')" by (rule prod.exhaust)
  with stuckD [OF assms(1) pipeline_step.fetch [OF assms(2) Fetching]] show ?thesis by auto
next
  case (Decoding n b)
  obtain wk w' where "process_decode c n b (p_world s) = (wk, w')" by (rule prod.exhaust)
  with stuckD [OF assms(1) pipeline_step.decode [OF assms(2) Decoding]] show ?thesis by auto
next
  case (Sending r)
  with stuckD [OF assms(1) pipeline_step.worker_stops [OF assms(2) Sending]]
    stuckD [OF assms(1) pipeline_step.send [OF assms(2) Sending]] show ?thesis by fastforce
qed simp

lemma stuck_returned:
  assumes "stuck c endBlock s" "conc_workerCount c > 0"
  shows "\<exists>r. p_phase s = Returned r"
proof (cases "p_phase s")
  case Receiving
  have "p_results s = []"
    using stuckD [OF assms(1) pipeline_step.receive [OF Receiving]] by (cases "p_results s") auto
  moreover from this have "list_all (\<lambda>wk. wk = Exited) (p_workers s)"
    using stuck_worker [OF assms(1)] assms(2) by (fastforce simp: list_all_length)
  ultimately show ?thesis
    using stuckD [OF assms(1) pipeline_step.results_closed [OF Receiving]] by (simp add: collector_returns_def)
next
  case Draining
  have "p_ctx_err (drain_one c endBlock s) = p_ctx_err s"
    by (simp add: drain_one_def collector_returns_def Let_def split: option.split prod.split sum.split)
  with stuckD [OF assms(1) pipeline_step.drain [OF Draining]] show ?thesis by simp
qed simp

section \<open>Where results come from\<close>

text \<open>Every block and every result in flight has a property that the two calls establish.\<close>

fun worker_from :: "(concurrentBlockResult \<Rightarrow> bool) \<Rightarrow> (u64 \<Rightarrow> ObservedBlock \<Rightarrow> bool) \<Rightarrow> worker \<Rightarrow> bool" where
  "worker_from P Q (Decoding n b) = Q n b"
| "worker_from P Q (Sending r) = P r"
| "worker_from P Q _ = True"

definition provenance :: "(concurrentBlockResult \<Rightarrow> bool) \<Rightarrow> (u64 \<Rightarrow> ObservedBlock \<Rightarrow> bool) \<Rightarrow> 'w pipeline \<Rightarrow> bool" where
  "provenance P Q s \<longleftrightarrow> list_all (worker_from P Q) (p_workers s) \<and> list_all P (p_results s) \<and>
     (\<forall>n r. p_pending s n = Some r \<longrightarrow> P r \<and> res_blockNumber r = n)"

lemma list_all_update: "list_all P xs \<Longrightarrow> P x \<Longrightarrow> list_all P (xs[i := x])"
  by (auto simp: list_all_iff dest: set_update_subset_insert [THEN subsetD])

lemma list_all_nthD: "list_all P xs \<Longrightarrow> i < length xs \<Longrightarrow> P (xs ! i)"
  by (simp add: list_all_length)

lemma provenance_start: "provenance P Q (start_pipeline c n h w)"
  by (simp add: provenance_def start_pipeline_def list_all_length)

lemma provenance_drain: "provenance P Q s \<Longrightarrow> provenance P Q (drain_one c endBlock s)"
  by (auto simp: provenance_def drain_one_def collector_returns_def Let_def
      split: option.split prod.split sum.split)

lemma provenance_step:
  assumes "pipeline_step c endBlock s s'" "provenance P Q s"
    and fetched: "\<And>n w wk w'. process_fetch c n w = (wk, w') \<Longrightarrow> worker_from P Q wk"
    and decoded: "\<And>n b w wk w'. Q n b \<Longrightarrow> process_decode c n b w = (wk, w') \<Longrightarrow> worker_from P Q wk"
  shows "provenance P Q s'"
  using assms(1)
proof cases
  case (decode i n b wk w')
  with assms(2) have "Q n b" using list_all_nthD [of "worker_from P Q" "p_workers s" i] by (simp add: provenance_def)
  with decode assms(2) decoded show ?thesis by (auto simp: provenance_def intro!: list_all_update)
next
  case (send i r)
  with assms(2) show ?thesis
    using list_all_nthD [of "worker_from P Q" "p_workers s" i] by (auto simp: provenance_def intro!: list_all_update)
next
  case drain
  with assms(2) show ?thesis by (simp add: provenance_drain)
qed (use assms(2) fetched in \<open>auto simp: provenance_def collector_returns_def intro!: list_all_update\<close>)

section \<open>No height is lost\<close>

fun carried :: "worker \<Rightarrow> u64 option" where
  "carried (Fetching n) = Some n"
| "carried (Decoding n b) = Some n"
| "carried (Sending r) = Some (res_blockNumber r)"
| "carried _ = None"

definition holds :: "'w pipeline \<Rightarrow> u64 \<Rightarrow> bool" where
  "holds s n \<longleftrightarrow> n \<in> dom (p_pending s) \<or> n \<in> res_blockNumber ` set (p_results s) \<or>
     Some n \<in> carried ` set (p_workers s)"

text \<open>Distances from the first height \<open>n0\<close>; the number of heights handed to workers so far.\<close>

abbreviation off :: "u64 \<Rightarrow> u64 \<Rightarrow> nat" where
  "off n0 n \<equiv> unat (n - n0)"

definition handed :: "u64 \<Rightarrow> u64 \<Rightarrow> 'w pipeline \<Rightarrow> nat" where
  "handed n0 endBlock s = (case p_producer s of None \<Rightarrow> off n0 endBlock + 1 | Some n \<Rightarrow> off n0 n)"

text \<open>While the context is live every height handed out and not yet committed is somewhere in
  the pipeline, and workers leave only after the last height was handed out.\<close>

definition flow_inv :: "u64 \<Rightarrow> u64 \<Rightarrow> 'w pipeline \<Rightarrow> bool" where
  "flow_inv n0 endBlock s \<longleftrightarrow>
     p_workers s \<noteq> [] \<and> (p_cancelled s \<longleftrightarrow> (\<exists>r. p_phase s = Returned r)) \<and>
     (p_phase s = Receiving \<longrightarrow> p_pending s (p_nextCommit s) = None) \<and>
     off n0 (p_nextCommit s) \<le> off n0 endBlock \<and>
     (\<not> ctx_done s \<longrightarrow>
        (\<forall>n. p_producer s = Some n \<longrightarrow> off n0 n \<le> off n0 endBlock) \<and>
        (Exited \<in> set (p_workers s) \<longrightarrow> p_producer s = None) \<and>
        (\<forall>n. off n0 (p_nextCommit s) \<le> off n0 n \<longrightarrow> off n0 n < handed n0 endBlock s \<longrightarrow> holds s n))"

lemma off_Suc: "n \<noteq> e \<Longrightarrow> off n0 n \<le> off n0 e \<Longrightarrow> off n0 (n + 1) = Suc (off n0 n) \<and> off n0 (n + 1) \<le> off n0 e"
proof -
  assume ne: "n \<noteq> e" and le: "off n0 n \<le> off n0 e"
  then have "off n0 n \<noteq> off n0 e" by (simp add: word_unat_eq_iff [symmetric])
  with le have lt: "n - n0 < e - n0" by (simp add: word_less_nat_alt)
  from unat_plus_one [OF lt] lt show ?thesis by (simp add: add_diff_eq [symmetric] diff_add_eq word_less_nat_alt)
qed

lemma off_inj: "off n0 a = off n0 b \<Longrightarrow> a = b"
  by (simp add: word_unat_eq_iff [symmetric])

lemma flow_inv_start:
  "conc_workerCount c > 0 \<Longrightarrow> flow_inv n0 endBlock (start_pipeline c n0 h w)"
  by (auto simp: flow_inv_def start_pipeline_def handed_def)

lemma image_update:
  "x \<in> f ` set xs \<Longrightarrow> (i < length xs \<Longrightarrow> f (xs ! i) = x \<Longrightarrow> f y = x) \<Longrightarrow> x \<in> f ` set (xs[i := y])"
proof -
  assume x: "x \<in> f ` set xs" and upd: "i < length xs \<Longrightarrow> f (xs ! i) = x \<Longrightarrow> f y = x"
  from x obtain j where j: "j < length xs" "x = f (xs ! j)" by (auto simp: in_set_conv_nth)
  have "f (xs[i := y] ! j) = x"
    using j upd by (cases "i = j") simp_all
  with j(1) show ?thesis by (metis image_eqI length_list_update nth_mem)
qed

lemma Exited_update: "Exited \<in> set (ws[i := wk]) \<Longrightarrow> wk \<noteq> Exited \<Longrightarrow> Exited \<in> set ws"
  using set_update_subset_insert [of ws i wk] by blast

lemma flow_inv_worker:
  assumes "flow_inv n0 endBlock s" "i < length (p_workers s)" "carried wk = carried (p_workers s ! i)" "wk \<noteq> Exited"
  shows "flow_inv n0 endBlock (s\<lparr>p_world := w', p_workers := (p_workers s)[i := wk]\<rparr>)"
proof -
  have "holds (s\<lparr>p_world := w', p_workers := (p_workers s)[i := wk]\<rparr>) n" if "holds s n" for n
    using that assms(3) image_update [of "Some n" carried "p_workers s" i wk] by (auto simp: holds_def)
  with assms show ?thesis
    by (auto simp: flow_inv_def ctx_done_def handed_def dest: Exited_update)
qed

lemma process_carried:
  "process_fetch c n w = (wk, w') \<Longrightarrow> carried wk = Some n \<and> wk \<noteq> Exited"
  "process_decode c n b w = (wk, w') \<Longrightarrow> carried wk = Some n \<and> wk \<noteq> Exited"
  by (auto simp: process_fetch_def process_decode_def block_failed_def split: prod.splits sum.splits)

lemma flow_inv_dispatch:
  assumes "flow_inv n0 endBlock s" "p_producer s = Some n" "i < length (p_workers s)" "p_workers s ! i = Idle"
  shows "flow_inv n0 endBlock (s\<lparr>p_producer := (if n = endBlock then None else Some (n + 1)),
      p_workers := (p_workers s)[i := Fetching n]\<rparr>)" (is "flow_inv n0 endBlock ?s")
proof -
  have old: "holds ?s m" if "holds s m" for m
    using that assms(4) image_update [of "Some m" carried "p_workers s" i "Fetching n"] by (auto simp: holds_def)
  have new: "holds ?s n"
    using assms(3) by (auto simp: holds_def image_iff set_update_memI intro!: bexI [of _ "Fetching n"])
  have "holds ?s m" if live: "\<not> ctx_done s" and m: "off n0 (p_nextCommit s) \<le> off n0 m"
      "off n0 m < handed n0 endBlock ?s" for m
  proof (cases "off n0 m < handed n0 endBlock s")
    case True
    with assms(1) live m old show ?thesis by (simp add: flow_inv_def)
  next
    case False
    from assms(1,2) live have "off n0 n \<le> off n0 endBlock" by (simp add: flow_inv_def)
    with False m off_Suc [of n endBlock n0] have "off n0 m = off n0 n"
      by (auto simp: handed_def assms(2) split: if_splits)
    with new off_inj [of m n0 n] show ?thesis by simp
  qed
  moreover have "ctx_done ?s = ctx_done s" by (simp add: ctx_done_def)
  ultimately show ?thesis
    using assms off_Suc [of n endBlock n0]
    by (auto simp: flow_inv_def dest: Exited_update)
qed

lemma flow_inv_send:
  assumes "flow_inv n0 endBlock s" "i < length (p_workers s)" "p_workers s ! i = Sending r"
  shows "flow_inv n0 endBlock (s\<lparr>p_results := p_results s @ [r], p_workers := (p_workers s)[i := Idle]\<rparr>)"
    (is "flow_inv n0 endBlock ?s")
proof -
  have "holds ?s n" if "holds s n" for n
    using that assms(3) image_update [of "Some n" carried "p_workers s" i Idle] by (auto simp: holds_def)
  with assms show ?thesis
    by (auto simp: flow_inv_def ctx_done_def handed_def dest: Exited_update)
qed

lemma flow_inv_drain:
  assumes "flow_inv n0 endBlock s" "p_phase s = Draining"
  shows "flow_inv n0 endBlock (drain_one c endBlock s)"
proof -
  obtain s' where s': "drain_one c endBlock s = s'" by simp
  then show ?thesis
  proof (cases rule: drain_one_cases)
    case missing
    with assms show ?thesis by (auto simp: s' flow_inv_def ctx_done_def handed_def holds_def)
  next
    case (returned res err w')
    with assms show ?thesis by (auto simp: s' flow_inv_def collector_returns_def ctx_done_def)
  next
    case (saved res w' s1)
    show ?thesis
    proof (cases "p_nextCommit s = endBlock")
      case True
      with assms saved show ?thesis by (auto simp: s' flow_inv_def collector_returns_def ctx_done_def)
    next
      case False
      with assms(1) off_Suc [of "p_nextCommit s" endBlock n0]
      have off: "off n0 (p_nextCommit s + 1) = Suc (off n0 (p_nextCommit s))"
        "off n0 (p_nextCommit s + 1) \<le> off n0 endBlock" by (auto simp: flow_inv_def)
      have "holds s' n" if "holds s n" "off n0 (p_nextCommit s + 1) \<le> off n0 n" for n
        using that off saved False by (auto simp: holds_def)
      with assms saved False off show ?thesis
        by (auto simp: s' flow_inv_def ctx_done_def handed_def)
    qed
  qed
qed

lemma flow_inv_step:
  assumes "pipeline_step c endBlock s s'" "flow_inv n0 endBlock s"
  shows "flow_inv n0 endBlock s'"
  using assms(1)
proof cases
  case (dispatch n i)
  with assms(2) flow_inv_dispatch show ?thesis by blast
next
  case (fetch i n wk w')
  with assms(2) process_carried(1) [OF fetch(4)] flow_inv_worker [of n0 endBlock s i wk w'] show ?thesis by simp
next
  case (decode i n b wk w')
  with assms(2) process_carried(2) [OF decode(4)] flow_inv_worker [of n0 endBlock s i wk w'] show ?thesis by simp
next
  case (send i r)
  with assms(2) flow_inv_send show ?thesis by blast
next
  case (jobs_closed i)
  have "holds s' n" if "holds s n" for n
    using that jobs_closed image_update [of "Some n" carried "p_workers s" i Exited] by (auto simp: holds_def)
  with jobs_closed assms(2) show ?thesis by (auto simp: flow_inv_def ctx_done_def handed_def)
next
  case (receive r rs)
  with assms(2) show ?thesis by (auto simp: flow_inv_def ctx_done_def handed_def holds_def)
next
  case drain
  with assms(2) show ?thesis by (simp add: flow_inv_drain)
qed (use assms(2) in \<open>auto simp: flow_inv_def ctx_done_def collector_returns_def\<close>)

text \<open>So the results channel is closed under a waiting collector only after a cancellation: the
  partial success at the end of \<^verbatim>\<open>IndexRange\<close> is never returned.\<close>

lemma closed_only_if_interrupted:
  assumes "flow_inv n0 endBlock s" "p_phase s = Receiving" "p_results s = []"
    "list_all (\<lambda>wk. wk = Exited) (p_workers s)"
  shows "p_ctx_err s \<noteq> None"
proof
  assume "p_ctx_err s = None"
  with assms(1,2) have live: "\<not> ctx_done s" by (simp add: flow_inv_def ctx_done_def)
  from assms(1) have "p_workers s \<noteq> []" by (simp add: flow_inv_def)
  with assms(4) have "Exited \<in> set (p_workers s)" by (cases "p_workers s") auto
  with assms(1) live have "holds s (p_nextCommit s)" by (auto simp: flow_inv_def handed_def)
  with assms show False by (auto simp: holds_def flow_inv_def list_all_iff)
qed

lemma reaches_flow_inv:
  assumes "pipeline_reaches c endBlock (start_pipeline c n0 h w) s" "conc_workerCount c > 0"
  shows "flow_inv n0 endBlock s"
  using assms by (induction rule: pipeline_reaches.induct) (auto intro: flow_inv_start flow_inv_step)

section \<open>Correctness against the persistence contract\<close>

context range_indexing
begin

abbreviation conc_indexer :: "int \<Rightarrow> 'w ConcurrentRangeIndexer" where
  "conc_indexer k \<equiv> NewConcurrentRangeIndexer
     \<lparr>GetObservedBlockByNumber = fetch, GetERC20TransfersByBlock = decode\<rparr>
     \<lparr>Load = load, SaveIndexedBlock = save\<rparr> k"

text \<open>Results in flight are answers of the client, and what was committed so far is a run of
  them, in height order.\<close>

definition from_client :: "'w pipeline \<Rightarrow> bool" where
  "from_client = provenance (\<lambda>r. res_err r = None \<longrightarrow> served_by fetch decode (res_blockNumber r) (res_index r))
     (\<lambda>n b. \<exists>w w'. fetch n w = (Inr b, w'))"

definition commit_inv :: "u64 \<Rightarrow> u64 \<Rightarrow> BlockHash \<Rightarrow> 'w \<Rightarrow> 'w pipeline \<Rightarrow> bool" where
  "commit_inv n0 endBlock h0 w0 s \<longleftrightarrow> inv (p_world s) \<and>
     (case p_phase s of
        Returned r \<Rightarrow> loop_post view (served_run fetch decode) n0 endBlock h0 [] w0 r (p_world s)
      | _ \<Rightarrow> view (p_world s) = fold commit_view (p_ordered s) (view w0) \<and>
          served_run fetch decode n0 (p_ordered s) \<and> linked h0 (p_ordered s) \<and>
          length (p_ordered s) = off n0 (p_nextCommit s) \<and>
          p_expectedParent s = (if p_ordered s = [] then h0 else ix_BlockHash (last (p_ordered s))))"

lemma from_client_step:
  assumes "pipeline_step (conc_indexer k) endBlock s s'" "from_client s"
  shows "from_client s'"
  using assms(1) assms(2) [unfolded from_client_def] unfolding from_client_def
proof (rule provenance_step)
  show "worker_from (\<lambda>r. res_err r = None \<longrightarrow> served_by fetch decode (res_blockNumber r) (res_index r))
      (\<lambda>n b. \<exists>w w'. fetch n w = (Inr b, w')) wk" if "process_fetch (conc_indexer k) n w = (wk, w')" for n w wk w'
    using that by (auto simp: process_fetch_def NewConcurrentRangeIndexer_def block_failed_def
        split: prod.splits sum.splits) blast
  show "worker_from (\<lambda>r. res_err r = None \<longrightarrow> served_by fetch decode (res_blockNumber r) (res_index r))
      (\<lambda>n b. \<exists>w w'. fetch n w = (Inr b, w')) wk"
    if "\<exists>w w'. fetch n w = (Inr b, w')" "process_decode (conc_indexer k) n b w = (wk, w')" for n b w wk w'
    using that by (auto simp: process_decode_def NewConcurrentRangeIndexer_def block_failed_def served_by_def
        split: prod.splits sum.splits) blast
qed

lemma process_frame:
  assumes "inv w" "process_fetch (conc_indexer k) n w = (wk, w') \<or> process_decode (conc_indexer k) n b w = (wk, w')"
  shows "inv w' \<and> view w' = view w"
  using assms(2) fetch_frame [OF assms(1)] decode_frame [OF assms(1)]
  by (auto simp: process_fetch_def process_decode_def NewConcurrentRangeIndexer_def split: prod.splits sum.splits)

lemma commit_inv_world:
  assumes "commit_inv n0 endBlock h0 w0 s" "inv w'" "view w' = view (p_world s)"
  shows "commit_inv n0 endBlock h0 w0 (s\<lparr>p_world := w', p_workers := ws\<rparr>)"
  using assms by (auto simp: commit_inv_def loop_post_def split: phase.splits)

lemma commit_inv_returned:
  assumes "commit_inv n0 endBlock h0 w0 s" "flow_inv n0 endBlock s" "\<not> (\<exists>r. p_phase s = Returned r)"
    and "inv w'" "view w' = view (p_world s)"
  shows "commit_inv n0 endBlock h0 w0 (collector_returns (Inl err) (s\<lparr>p_world := w'\<rparr>))"
proof -
  from assms(2) have "off n0 (p_nextCommit s) \<le> off n0 endBlock" by (simp add: flow_inv_def)
  with assms show ?thesis
    by (cases "p_phase s") (auto simp: commit_inv_def collector_returns_def loop_post_def intro!: exI [of _ "p_ordered s"])
qed

lemma commit_extend:
  assumes "commit_inv n0 endBlock h0 w0 s" "from_client s" "p_phase s = Draining"
    and "p_pending s (p_nextCommit s) = Some res" "res_err res = None"
    and "validateParentHash (ix_BlockNumber (res_index res)) (ix_ParentHash (res_index res)) (p_expectedParent s) = None"
  shows "served_run fetch decode n0 (p_ordered s @ [res_index res])" "linked h0 (p_ordered s @ [res_index res])"
proof -
  from assms(1,3) have ci: "served_run fetch decode n0 (p_ordered s)" "linked h0 (p_ordered s)"
    "length (p_ordered s) = off n0 (p_nextCommit s)"
    "p_expectedParent s = (if p_ordered s = [] then h0 else ix_BlockHash (last (p_ordered s)))"
    by (auto simp: commit_inv_def)
  have height: "n0 + of_nat (length (p_ordered s)) = p_nextCommit s" by (simp add: ci(3))
  from assms(2,4) have "res_blockNumber res = p_nextCommit s"
    "res_err res = None \<longrightarrow> served_by fetch decode (res_blockNumber res) (res_index res)"
    unfolding from_client_def provenance_def by blast+
  with assms(5) have "served_by fetch decode (p_nextCommit s) (res_index res)" by simp
  with ci(1) height show "served_run fetch decode n0 (p_ordered s @ [res_index res])"
    by (simp add: served_run_append_one)
  from assms(6) ci(2,4) show "linked h0 (p_ordered s @ [res_index res])"
    by (simp add: validateParentHash_None linked_append)
qed

lemma commit_inv_drain:
  assumes "commit_inv n0 endBlock h0 w0 s" "flow_inv n0 endBlock s" "from_client s" "p_phase s = Draining"
  shows "commit_inv n0 endBlock h0 w0 (drain_one (conc_indexer k) endBlock s)"
proof -
  from assms(1,4) have ci: "inv (p_world s)" "view (p_world s) = fold commit_view (p_ordered s) (view w0)"
    "served_run fetch decode n0 (p_ordered s)" "linked h0 (p_ordered s)"
    "length (p_ordered s) = off n0 (p_nextCommit s)"
    "p_expectedParent s = (if p_ordered s = [] then h0 else ix_BlockHash (last (p_ordered s)))"
    by (auto simp: commit_inv_def)
  from assms(2) have le: "off n0 (p_nextCommit s) \<le> off n0 endBlock" by (simp add: flow_inv_def)
  note extend = commit_extend [OF assms(1,3,4)]
  obtain s' where s': "drain_one (conc_indexer k) endBlock s = s'" by simp
  then show ?thesis
  proof (cases rule: drain_one_cases)
    case missing
    with ci show ?thesis by (simp add: s' commit_inv_def)
  next
    case (returned res err w')
    show ?thesis
    proof (cases "w' = p_world s")
      case True
      with commit_inv_returned [OF assms(1,2) _ ci(1) refl, of err] assms(4) returned(2) show ?thesis by (simp add: s')
    next
      case False
      with returned(3) obtain cause where ok: "res_err res = None"
        "validateParentHash (ix_BlockNumber (res_index res)) (ix_ParentHash (res_index res)) (p_expectedParent s) = None"
        "save (res_index res) (p_world s) = (Inl cause, w')" by (auto simp: NewConcurrentRangeIndexer_def)
      note ext = extend [OF returned(1) ok(1,2)]
      from save_error [OF ci(1) ok(3)] consider "inv w'" "view w' = view (p_world s)"
        | "inv w'" "view w' = commit_view (res_index res) (view (p_world s))" by blast
      then show ?thesis
      proof cases
        case 1
        with commit_inv_returned [OF assms(1,2) _ 1, of err] assms(4) returned(2) show ?thesis by (simp add: s')
      next
        case 2
        with ext ci le returned(2) show ?thesis
          by (auto simp: s' commit_inv_def collector_returns_def loop_post_def
              intro!: exI [of _ "p_ordered s @ [res_index res]"])
      qed
    qed
  next
    case (saved res w' s1)
    note ext = extend [OF saved(1-3)]
    from saved(4) have sv: "save (res_index res) (p_world s) = (Inr (), w')" by (simp add: NewConcurrentRangeIndexer_def)
    note w' = save_ok [OF ci(1) sv]
    have "off n0 (p_nextCommit s + 1) = Suc (off n0 (p_nextCommit s))" if "p_nextCommit s \<noteq> endBlock"
      using off_Suc [OF that le] by simp
    with saved(5,6) w' ext ci le assms(4) show ?thesis
      by (auto simp: s' commit_inv_def collector_returns_def loop_post_def
          intro!: exI [of _ "p_ordered s @ [res_index res]"])
  qed
qed

lemma commit_inv_step:
  assumes "pipeline_step (conc_indexer k) endBlock s s'"
    and "commit_inv n0 endBlock h0 w0 s" "flow_inv n0 endBlock s" "from_client s"
  shows "commit_inv n0 endBlock h0 w0 s'"
  using assms(1)
proof cases
  case (fetch i n wk w')
  from assms(2) have "inv (p_world s)" by (simp add: commit_inv_def)
  with fetch process_frame [of "p_world s" k n wk w'] show ?thesis
    using commit_inv_world [OF assms(2)] by blast
next
  case (decode i n b wk w')
  from assms(2) have "inv (p_world s)" by (simp add: commit_inv_def)
  with decode process_frame [of "p_world s" k n wk w' b] show ?thesis
    using commit_inv_world [OF assms(2)] by blast
next
  case drain
  with assms commit_inv_drain show ?thesis by blast
next
  case results_closed
  with closed_only_if_interrupted [OF assms(3)] obtain err where err: "p_ctx_err s = Some err" by auto
  from assms(2) have "inv (p_world s)" by (simp add: commit_inv_def)
  from commit_inv_returned [OF assms(2,3) _ this refl, of err] results_closed err show ?thesis by simp
qed (use assms(2) in \<open>auto simp: commit_inv_def split: phase.splits\<close>)

lemma shared_commit_inv:
  assumes "shared_reaches others (conc_indexer k) endBlock (start_pipeline (conc_indexer k) n0 h0 w0) s" "k > 0" "inv w0"
    and others: "\<And>w w'. others w w' \<Longrightarrow> inv w \<Longrightarrow> inv w' \<and> view w' = view w"
  shows "commit_inv n0 endBlock h0 w0 s \<and> flow_inv n0 endBlock s \<and> from_client s"
  using assms(1)
proof (induction rule: shared_reaches.induct)
  case shared_start
  show ?case
  proof (intro conjI)
    show "commit_inv n0 endBlock h0 w0 (start_pipeline (conc_indexer k) n0 h0 w0)"
      using assms(3) by (simp add: commit_inv_def start_pipeline_def)
    show "flow_inv n0 endBlock (start_pipeline (conc_indexer k) n0 h0 w0)"
      using assms(2) by (intro flow_inv_start) (simp add: NewConcurrentRangeIndexer_def)
    show "from_client (start_pipeline (conc_indexer k) n0 h0 w0)"
      by (simp add: from_client_def provenance_start)
  qed
next
  case (shared_step s s')
  then show ?case using commit_inv_step flow_inv_step from_client_step by blast
next
  case (shared_others s w')
  from shared_others.IH have "inv (p_world s)" by (simp add: commit_inv_def)
  note w' = others [OF shared_others.hyps(2) this]
  from commit_inv_world [of n0 endBlock h0 w0 s w' "p_workers s"] w' shared_others.IH
  have "commit_inv n0 endBlock h0 w0 (s\<lparr>p_world := w'\<rparr>)" by (auto simp: commit_inv_def loop_post_def split: phase.splits)
  moreover have "flow_inv n0 endBlock (s\<lparr>p_world := w'\<rparr>) = flow_inv n0 endBlock s"
    "from_client (s\<lparr>p_world := w'\<rparr>) = from_client s"
    by (simp_all add: flow_inv_def ctx_done_def handed_def holds_def from_client_def provenance_def)
  ultimately show ?case using shared_others.IH by simp
qed

lemma shared_pipeline_commits:
  assumes "inv w" and guards: "\<not> startBlock > endBlock" "\<not> k \<le> 0" and l: "load w = (Inr checkpoint, w1)"
    and resume: "resume_point checkpoint startBlock endBlock = Some (n, h)"
    and run: "shared_reaches others (conc_indexer k) endBlock (start_pipeline (conc_indexer k) n h w1) s" "p_phase s = Returned r"
    and others: "\<And>w w'. others w w' \<Longrightarrow> inv w \<Longrightarrow> inv w' \<and> view w' = view w"
  shows "inv (p_world s) \<and> range_post view fetch decode startBlock endBlock w
    (classified ErrIndexing ''index block range concurrently'' r) (p_world s)"
proof -
  from load_frame [OF assms(1) l] load_value [OF assms(1) l] have w1: "inv w1" "view w1 = view w"
    "checkpoint = cv_checkpoint (view w)" by auto
  from guards(2) have "k > 0" by simp
  from shared_commit_inv [OF run(1) this w1(1) others] run(2)
  have "inv (p_world s)" "loop_post view (served_run fetch decode) n endBlock h [] w1 r (p_world s)"
    by (auto simp: commit_inv_def)
  with guards resume w1 show ?thesis unfolding loop_post_def range_post_def by (auto simp: not_less)
qed

text \<open>The same contract as the sequential indexer, whatever the interleaving.\<close>

lemma conc_IndexRange_commits:
  assumes "inv w" "conc_IndexRange (conc_indexer k) startBlock endBlock w r w'"
  shows "inv w' \<and> range_post view fetch decode startBlock endBlock w r w'"
proof -
  from assms(2) obtain ctx where "conc_returns (conc_indexer k) startBlock endBlock w ctx r w'"
    by (auto simp: conc_IndexRange_def)
  then show ?thesis
  proof cases
    case (load_failed err)
    with load_frame [OF assms(1)] show ?thesis
      by (auto simp: range_post_def NewConcurrentRangeIndexer_def intro!: exI [of _ "[]"])
  next
    case (up_to_date checkpoint)
    with load_frame [OF assms(1)] load_value [OF assms(1)] show ?thesis
      by (auto simp: range_post_def NewConcurrentRangeIndexer_def not_less intro!: exI [of _ "[]"])
  next
    case (pipelined checkpoint w1 n h s r0)
    note reach = pipeline_reaches_shared [OF pipelined(8), of "\<lambda>_ _. False"]
    from pipelined have l: "load w = (Inr checkpoint, w1)" and k: "\<not> k \<le> 0" by (simp_all add: NewConcurrentRangeIndexer_def)
    from shared_pipeline_commits [OF assms(1) pipelined(4) k l pipelined(7) reach pipelined(9)] pipelined(2,3)
    show ?thesis by simp
  qed (use assms(1) in \<open>auto simp: range_post_def intro!: exI [of _ "[]"]\<close>)
qed

lemma range_post_view:
  "range_post view fetch decode startBlock endBlock w r w' \<Longrightarrow> view v = view w \<Longrightarrow> view v' = view w' \<Longrightarrow>
   range_post view fetch decode startBlock endBlock v r v'"
  unfolding range_post_def by auto

text \<open>And whatever other goroutines do meanwhile, as long as they leave the chain alone.\<close>

lemma shared_IndexRange_commits:
  assumes "shared_IndexRange others (conc_indexer k) startBlock endBlock w r w'" "inv w"
    and others: "\<And>w w'. others w w' \<Longrightarrow> inv w \<Longrightarrow> inv w' \<and> view w' = view w"
  shows "inv w' \<and> range_post view fetch decode startBlock endBlock w r w'"
  using assms(1,2)
proof (induction rule: shared_IndexRange.induct)
  case (undisturbed w r w')
  then show ?case using conc_IndexRange_commits by blast
next
  case (others_before w w1 r w')
  note w1 = others [OF others_before.hyps(1) others_before.prems]
  with others_before.IH range_post_view [of startBlock endBlock w1 r w' w w'] show ?case by simp
next
  case (others_after w r w1 w')
  note ih = others_after.IH [OF others_after.prems]
  note w' = others [OF others_after.hyps(2) conjunct1 [OF ih]]
  with ih range_post_view [of startBlock endBlock w r w1 w w'] show ?case by simp
next
  case (others_within w checkpoint w1 n h s r)
  from others_within have l: "load w = (Inr checkpoint, w1)" and k: "\<not> k \<le> 0" by (simp_all add: NewConcurrentRangeIndexer_def)
  from shared_pipeline_commits [OF others_within.prems others_within.hyps(1) k l others_within.hyps(4-6) others]
  show ?case .
qed

end

context transfer_storing
begin

definition stored_inv :: "'w pipeline \<Rightarrow> bool" where
  "stored_inv s \<longleftrightarrow> (\<forall>ix \<in> set (p_ordered s). stored ix (p_world s)) \<and>
     (\<forall>out. p_phase s = Returned (Inr out) \<longrightarrow> out = p_ordered s)"

lemma process_keeps:
  assumes "process_fetch (conc_indexer k) n w = (wk, w') \<or> process_decode (conc_indexer k) n b w = (wk, w')"
    and "stored ix w"
  shows "stored ix w'"
  using assms fetch_keeps decode_keeps
  by (auto simp: process_fetch_def process_decode_def NewConcurrentRangeIndexer_def split: prod.splits sum.splits)

lemma stored_inv_drain:
  assumes "stored_inv s" "inv (p_world s)" "p_phase s = Draining"
  shows "stored_inv (drain_one (conc_indexer k) endBlock s)"
proof -
  obtain s' where s': "drain_one (conc_indexer k) endBlock s = s'" by simp
  then show ?thesis
  proof (cases rule: drain_one_cases)
    case missing
    with assms show ?thesis by (simp add: s' stored_inv_def)
  next
    case (returned res err w')
    then have "w' = p_world s \<or> (\<exists>r. save (res_index res) (p_world s) = (r, w'))"
      by (auto simp: NewConcurrentRangeIndexer_def)
    with assms(1) save_keeps [OF assms(2)] returned(2) show ?thesis
      by (auto simp: s' stored_inv_def collector_returns_def)
  next
    case (saved res w' s1)
    then have sv: "save (res_index res) (p_world s) = (Inr (), w')" by (simp add: NewConcurrentRangeIndexer_def)
    from saved(5,6) assms(1,3) save_keeps [OF assms(2) sv] save_stores [OF assms(2) sv] show ?thesis
      by (auto simp: s' stored_inv_def collector_returns_def)
  qed
qed

lemma stored_inv_step:
  assumes "pipeline_step (conc_indexer k) endBlock s s'" "stored_inv s" "inv (p_world s)" "flow_inv n0 endBlock s"
  shows "stored_inv s'"
  using assms(1)
proof cases
  case (fetch i n wk w')
  with process_keeps [of k n "p_world s" wk w'] assms(2) show ?thesis by (auto simp: stored_inv_def)
next
  case (decode i n b wk w')
  with process_keeps [of k n "p_world s" wk w' b] assms(2) show ?thesis by (auto simp: stored_inv_def)
next
  case drain
  with stored_inv_drain [OF assms(2,3)] show ?thesis by simp
qed (use assms(2) in \<open>auto simp: stored_inv_def collector_returns_def split: option.splits\<close>)

lemma shared_stored_inv:
  assumes "shared_reaches others (conc_indexer k) endBlock (start_pipeline (conc_indexer k) n h w1) s" "k > 0" "inv w1"
    and others: "\<And>w w'. others w w' \<Longrightarrow> inv w \<Longrightarrow> inv w' \<and> view w' = view w"
    and keeps: "\<And>w w' ix. others w w' \<Longrightarrow> stored ix w \<Longrightarrow> stored ix w'"
  shows "stored_inv s"
  using assms(1)
proof (induction rule: shared_reaches.induct)
  case shared_start
  show ?case by (simp add: stored_inv_def start_pipeline_def)
next
  case (shared_step s s')
  from shared_commit_inv [OF shared_step.hyps(1) assms(2,3) others] have "inv (p_world s)" "flow_inv n endBlock s"
    by (auto simp: commit_inv_def)
  with shared_step stored_inv_step show ?case by blast
next
  case (shared_others s w')
  then show ?case using keeps by (auto simp: stored_inv_def)
qed

lemma shared_IndexRange_stores:
  assumes "shared_IndexRange others (conc_indexer k) startBlock endBlock w r w'" "inv w"
    and others: "\<And>w w'. others w w' \<Longrightarrow> inv w \<Longrightarrow> inv w' \<and> view w' = view w"
    and keeps: "\<And>w w' ix. others w w' \<Longrightarrow> stored ix w \<Longrightarrow> stored ix w'"
  shows "\<forall>out. r = Inr out \<longrightarrow> (\<forall>ix \<in> set out. stored ix w')"
  using assms(1,2)
proof (induction rule: shared_IndexRange.induct)
  case (undisturbed w r w')
  from undisturbed.hyps obtain ctx where "conc_returns (conc_indexer k) startBlock endBlock w ctx r w'"
    by (auto simp: conc_IndexRange_def)
  then show ?case
  proof cases
    case (pipelined checkpoint w1 n h s r0)
    then have l: "load w = (Inr checkpoint, w1)" and k: "k > 0" by (simp_all add: NewConcurrentRangeIndexer_def)
    from load_frame [OF undisturbed.prems l] have w1: "inv w1" by simp
    from shared_stored_inv [OF pipeline_reaches_shared [OF pipelined(8), of "\<lambda>_ _. False"] k w1] have "stored_inv s" by blast
    with pipelined show ?thesis by (cases r0) (auto simp: stored_inv_def)
  qed auto
next
  case (others_before w w1 r w')
  then show ?case using others by blast
next
  case (others_after w r w1 w')
  then show ?case using keeps by blast
next
  case (others_within w checkpoint w1 n h s r)
  then have l: "load w = (Inr checkpoint, w1)" and k: "k > 0" by (simp_all add: NewConcurrentRangeIndexer_def)
  from load_frame [OF others_within.prems l] have w1: "inv w1" by simp
  have "stored_inv s"
    by (rule shared_stored_inv [OF others_within.hyps(5) k w1]) (use others keeps in blast)+
  with others_within.hyps(6) show ?case by (cases r) (auto simp: stored_inv_def)
qed

end

section \<open>Equivalence with the sequential indexer\<close>

text \<open>A client whose answers depend only on the question.\<close>

definition stable_client :: "'w TransferBlockClient \<Rightarrow> (u64 \<Rightarrow> go_error + ObservedBlock) \<Rightarrow>
    (ObservedBlock \<Rightarrow> go_error + BlockTransferIndex) \<Rightarrow> bool" where
  "stable_client client F G \<longleftrightarrow> (\<forall>n w. GetObservedBlockByNumber client n w = (F n, w)) \<and>
     (\<forall>b w. GetERC20TransfersByBlock client b w = (G b, w))"

definition expected_result :: "(u64 \<Rightarrow> go_error + ObservedBlock) \<Rightarrow> (ObservedBlock \<Rightarrow> go_error + BlockTransferIndex) \<Rightarrow>
    u64 \<Rightarrow> concurrentBlockResult" where
  "expected_result F G n =
     (case F n of
        Inl err \<Rightarrow> block_failed n (Wrapf (''failed to fetch block '' @ show_u64 n) err)
      | Inr block \<Rightarrow>
          (case G block of
             Inl err \<Rightarrow> block_failed n (Wrapf (''failed to index block '' @ show_u64 n) err)
           | Inr index \<Rightarrow> \<lparr>res_blockNumber = n, res_index = index, res_err = None\<rparr>))"

definition as_expected :: "(u64 \<Rightarrow> go_error + ObservedBlock) \<Rightarrow> (ObservedBlock \<Rightarrow> go_error + BlockTransferIndex) \<Rightarrow>
    'w pipeline \<Rightarrow> bool" where
  "as_expected F G = provenance (\<lambda>r. r = expected_result F G (res_blockNumber r)) (\<lambda>n b. F n = Inr b)"

lemma expected_result_number [simp]: "res_blockNumber (expected_result F G n) = n"
  by (simp add: expected_result_def block_failed_def split: sum.split)

lemma as_expected_step:
  assumes "pipeline_step c endBlock s s'" "as_expected F G s" "stable_client (conc_client c) F G"
  shows "as_expected F G s'"
  using assms(1) assms(2) [unfolded as_expected_def] unfolding as_expected_def
proof (rule provenance_step)
  show "worker_from (\<lambda>r. r = expected_result F G (res_blockNumber r)) (\<lambda>n b. F n = Inr b) wk"
    if "process_fetch c n w = (wk, w')" for n w wk w'
    using that assms(3)
    by (auto simp: process_fetch_def stable_client_def expected_result_def block_failed_def split: sum.splits)
  show "worker_from (\<lambda>r. r = expected_result F G (res_blockNumber r)) (\<lambda>n b. F n = Inr b) wk"
    if "F n = Inr b" "process_decode c n b w = (wk, w')" for n b w wk w'
    using that assms(3)
    by (auto simp: process_decode_def stable_client_def expected_result_def block_failed_def split: sum.splits)
qed

lemma process_stable:
  assumes "stable_client (conc_client c) F G"
  shows "process_fetch c n w = (wk, w') \<Longrightarrow> w' = w" "process_decode c n b w = (wk, w') \<Longrightarrow> w' = w"
  using assms by (auto simp: process_fetch_def process_decode_def stable_client_def split: sum.splits)

text \<open>One iteration of the sequential loop, in terms of the expected result.\<close>

lemma index_block_stable:
  assumes "stable_client (seq_client i) F G" "res = expected_result F G n"
  shows "index_block i n h w =
    (case res_err res of
       Some err \<Rightarrow> (Inl err, w)
     | None \<Rightarrow>
         (case validateParentHash (ix_BlockNumber (res_index res)) (ix_ParentHash (res_index res)) h of
            Some err \<Rightarrow> (Inl err, w)
          | None \<Rightarrow>
              (case SaveIndexedBlock (seq_persistence i) (res_index res) w of
                 (Inl err, w') \<Rightarrow> (Inl (Wrapf (''failed to persist indexed block '' @ show_u64 n) err), w')
               | (Inr _, w') \<Rightarrow> (Inr (res_index res), w'))))"
  using assms by (auto simp: index_block_def stable_client_def expected_result_def block_failed_def
      split: sum.splits option.splits prod.splits)

text \<open>What was committed is what the sequential loop commits up to the height before \<^verbatim>\<open>nextCommit\<close>.\<close>

definition committed_prefix :: "'w ConcurrentRangeIndexer \<Rightarrow> u64 \<Rightarrow> BlockHash \<Rightarrow> 'w \<Rightarrow> 'w pipeline \<Rightarrow> bool" where
  "committed_prefix c n0 h0 w0 s \<longleftrightarrow>
     (if p_ordered s = [] then p_world s = w0 \<and> p_nextCommit s = n0 \<and> p_expectedParent s = h0
      else p_nextCommit s \<noteq> n0 \<and> p_expectedParent s = ix_BlockHash (last (p_ordered s)) \<and>
        index_loop (NewSequentialIndexer (conc_client c) (conc_persistence c)) (p_nextCommit s - 1) n0 h0 [] w0 =
          (Inr (p_ordered s), p_world s))"

lemma index_loop_results:
  assumes "index_loop i m n h acc w = (Inr out, w')"
  obtains ixs where "out = acc @ ixs" "ixs \<noteq> []"
  using assms
proof (induction "unat (m - n)" arbitrary: n h acc w thesis rule: less_induct)
  case less
  obtain first w1 where first: "index_block i n h w = (Inr first, w1)"
    using less.prems(2) by (auto simp: index_loop.simps [of i m n] split: prod.splits sum.splits)
  show ?case
  proof (cases "n = m")
    case True
    with first less.prems show ?thesis by (auto simp: index_loop.simps [of i m m])
  next
    case False
    with first less.prems(2) have "index_loop i m (n + 1) (ix_BlockHash first) (acc @ [first]) w1 = (Inr out, w')"
      by (simp add: index_loop.simps [of i m n])
    from less.hyps [OF _ _ this] unat_distance_Suc [OF False] obtain ixs where "out = (acc @ [first]) @ ixs" by auto
    with less.prems(1) show ?thesis by simp
  qed
qed

lemma index_loop_extend:
  assumes "index_loop i m n h acc w = (Inr (acc @ ixs), w1)" "m + 1 \<noteq> n"
    and "index_block i (m + 1) (ix_BlockHash (last ixs)) w1 = (Inr ix, w2)"
  shows "index_loop i (m + 1) n h acc w = (Inr (acc @ ixs @ [ix]), w2)"
  using assms
proof (induction "unat (m - n)" arbitrary: n h acc w ixs rule: less_induct)
  case less
  obtain first w' where first: "index_block i n h w = (Inr first, w')"
    using less.prems(1) by (auto simp: index_loop.simps [of i m n] split: prod.splits sum.splits)
  show ?case
  proof (cases "n = m")
    case True
    with first less.prems show ?thesis
      by (auto simp: index_loop.simps [of i m m] index_loop.simps [of i "m + 1" m] index_loop.simps [of i "m + 1" "m + 1"])
  next
    case False
    with first less.prems(1) have rec: "index_loop i m (n + 1) (ix_BlockHash first) (acc @ [first]) w' = (Inr (acc @ ixs), w1)"
      by (simp add: index_loop.simps [of i m n])
    from index_loop_results [OF rec] obtain more where more: "acc @ ixs = (acc @ [first]) @ more" "more \<noteq> []" by blast
    then have ixs: "ixs = first # more" by simp
    have "index_loop i (m + 1) (n + 1) (ix_BlockHash first) (acc @ [first]) w' = (Inr ((acc @ [first]) @ more @ [ix]), w2)"
    proof (rule less.hyps)
      show "unat (m - (n + 1)) < unat (m - n)" using unat_distance_Suc [OF False] by simp
      show "index_loop i m (n + 1) (ix_BlockHash first) (acc @ [first]) w' = (Inr ((acc @ [first]) @ more), w1)"
        using rec more(1) by simp
      show "m + 1 \<noteq> n + 1" using False by simp
      show "index_block i (m + 1) (ix_BlockHash (last more)) w1 = (Inr ix, w2)" using less.prems(3) ixs more(2) by simp
    qed
    with first less.prems(2) ixs show ?thesis by (simp add: index_loop.simps [of i "m + 1" n])
  qed
qed

text \<open>The sequential run that the pipeline simulates: before the collector returns it is the
  sequential loop continued from the collector's variables.\<close>

definition sequential_inv :: "'w ConcurrentRangeIndexer \<Rightarrow> u64 \<Rightarrow> u64 \<Rightarrow> BlockHash \<Rightarrow> 'w \<Rightarrow> 'w pipeline \<Rightarrow> bool" where
  "sequential_inv c endBlock n0 h0 w0 s \<longleftrightarrow>
     (let i = NewSequentialIndexer (conc_client c) (conc_persistence c);
          out = index_loop i endBlock n0 h0 [] w0;
          rest = index_loop i endBlock (p_nextCommit s) (p_expectedParent s) (p_ordered s) (p_world s)
      in case p_phase s of
           Returned r \<Rightarrow> out = (r, p_world s) \<or> (\<exists>err. p_ctx_err s = Some err \<and> r = Inl err \<and> committed_prefix c n0 h0 w0 s)
         | _ \<Rightarrow> rest = out \<and> committed_prefix c n0 h0 w0 s)"

lemma committed_prefix_saved:
  assumes "committed_prefix c n0 h0 w0 s" "flow_inv n0 endBlock s" "p_nextCommit s \<noteq> endBlock"
    and "index_block (NewSequentialIndexer (conc_client c) (conc_persistence c)) (p_nextCommit s) (p_expectedParent s)
      (p_world s) = (Inr ix, w')"
    and "s' = s\<lparr>p_world := w', p_expectedParent := ix_BlockHash ix, p_ordered := p_ordered s @ [ix], p_pending := pend,
      p_nextCommit := p_nextCommit s + 1\<rparr>"
  shows "committed_prefix c n0 h0 w0 s'"
proof -
  let ?i = "NewSequentialIndexer (conc_client c) (conc_persistence c)"
  from assms(2) have "off n0 (p_nextCommit s) \<le> off n0 endBlock" by (simp add: flow_inv_def)
  with off_Suc [OF assms(3)] have fresh: "p_nextCommit s + 1 \<noteq> n0" by fastforce
  have "index_loop ?i (p_nextCommit s) n0 h0 [] w0 = (Inr (p_ordered s @ [ix]), w')"
  proof (cases "p_ordered s = []")
    case True
    with assms(1,4) show ?thesis by (simp add: committed_prefix_def index_loop.simps [of _ n0 n0])
  next
    case False
    with assms(1) have "index_loop ?i (p_nextCommit s - 1) n0 h0 [] w0 = (Inr ([] @ p_ordered s), p_world s)"
      "p_nextCommit s - 1 + 1 \<noteq> n0" "p_expectedParent s = ix_BlockHash (last (p_ordered s))"
      by (simp_all add: committed_prefix_def)
    from index_loop_extend [OF this(1,2)] assms(4) this(3) show ?thesis by simp
  qed
  with fresh assms(5) show ?thesis by (simp add: committed_prefix_def)
qed

lemma sequential_inv_drain:
  assumes "sequential_inv c endBlock n0 h0 w0 s" "as_expected F G s" "stable_client (conc_client c) F G"
    and "p_phase s = Draining" "flow_inv n0 endBlock s"
  shows "sequential_inv c endBlock n0 h0 w0 (drain_one c endBlock s)"
proof -
  let ?i = "NewSequentialIndexer (conc_client c) (conc_persistence c)"
  let ?out = "index_loop ?i endBlock n0 h0 [] w0"
  have out: "index_loop ?i endBlock (p_nextCommit s) (p_expectedParent s) (p_ordered s) (p_world s) = ?out"
    and prefix: "committed_prefix c n0 h0 w0 s"
    using assms(1,4) by (simp_all add: sequential_inv_def Let_def)
  have expected: "res = expected_result F G (p_nextCommit s)" if "p_pending s (p_nextCommit s) = Some res" for res
    using assms(2) that unfolding as_expected_def provenance_def by metis
  note block = index_block_stable [of ?i F G, simplified, OF assms(3)]
  obtain s' where s': "drain_one c endBlock s = s'" by simp
  then show ?thesis
  proof (cases rule: drain_one_cases)
    case missing
    with out prefix s' show ?thesis by (simp add: sequential_inv_def committed_prefix_def Let_def)
  next
    case (returned res err w')
    with expected have "index_block ?i (p_nextCommit s) (p_expectedParent s) (p_world s) = (Inl err, w')"
      by (auto simp: block [of res])
    then have "?out = (Inl err, w')" unfolding out [symmetric] by (simp add: index_loop.simps [of _ _ "p_nextCommit s"])
    with s' returned(2) show ?thesis by (simp add: sequential_inv_def collector_returns_def)
  next
    case (saved res w' s1)
    with expected have ib: "index_block ?i (p_nextCommit s) (p_expectedParent s) (p_world s) = (Inr (res_index res), w')"
      by (auto simp: block [of res])
    show ?thesis
    proof (cases "p_nextCommit s = endBlock")
      case True
      with ib have "?out = (Inr (p_ordered s @ [res_index res]), w')"
        unfolding out [symmetric] by (simp add: index_loop.simps [of _ endBlock endBlock])
      with True s' saved(5,6) show ?thesis by (simp add: sequential_inv_def collector_returns_def)
    next
      case False
      with saved(5,6) have s2: "s' = s\<lparr>p_world := w', p_expectedParent := ix_BlockHash (res_index res),
          p_ordered := p_ordered s @ [res_index res], p_pending := (p_pending s)(p_nextCommit s := None),
          p_nextCommit := p_nextCommit s + 1\<rparr>" by simp
      have "?out = index_loop ?i endBlock (p_nextCommit s + 1) (ix_BlockHash (res_index res)) (p_ordered s @ [res_index res]) w'"
        unfolding out [symmetric] using ib False by (simp add: index_loop.simps [of _ _ "p_nextCommit s"])
      with committed_prefix_saved [OF prefix assms(5) False ib s2] s' s2 assms(4) show ?thesis
        by (simp add: sequential_inv_def Let_def)
    qed
  qed
qed

lemma committed_prefix_cong:
  "p_world s' = p_world s \<Longrightarrow> p_ordered s' = p_ordered s \<Longrightarrow> p_nextCommit s' = p_nextCommit s \<Longrightarrow>
   p_expectedParent s' = p_expectedParent s \<Longrightarrow> committed_prefix c n0 h0 w0 s' = committed_prefix c n0 h0 w0 s"
  by (simp add: committed_prefix_def)

lemma sequential_inv_cong:
  assumes "sequential_inv c endBlock n0 h0 w0 s"
    and "p_world s' = p_world s" "p_ordered s' = p_ordered s" "p_nextCommit s' = p_nextCommit s"
    and "p_expectedParent s' = p_expectedParent s" "p_ctx_err s \<noteq> None \<Longrightarrow> p_ctx_err s' = p_ctx_err s"
    and "p_phase s' = p_phase s \<or> p_phase s = Receiving \<and> p_phase s' = Draining"
  shows "sequential_inv c endBlock n0 h0 w0 s'"
  using assms committed_prefix_cong [of s' s c n0 h0 w0]
  by (cases "p_phase s") (auto simp: sequential_inv_def Let_def)

lemma sequential_inv_step:
  assumes "pipeline_step c endBlock s s'" "stable_client (conc_client c) F G"
    and "sequential_inv c endBlock n0 h0 w0 s" "as_expected F G s" "flow_inv n0 endBlock s"
  shows "sequential_inv c endBlock n0 h0 w0 s'"
  using assms(1)
proof cases
  case (fetch i n wk w')
  with process_stable(1) [OF assms(2) fetch(4)] show ?thesis by (intro sequential_inv_cong [OF assms(3)]) auto
next
  case (decode i n b wk w')
  with process_stable(2) [OF assms(2) decode(4)] show ?thesis by (intro sequential_inv_cong [OF assms(3)]) auto
next
  case drain
  with sequential_inv_drain [OF assms(3,4,2) _ assms(5)] show ?thesis by simp
next
  case results_closed
  with closed_only_if_interrupted [OF assms(5)] obtain err where "p_ctx_err s = Some err" by auto
  with results_closed assms(3) show ?thesis
    by (simp add: sequential_inv_def collector_returns_def Let_def committed_prefix_def)
qed (use sequential_inv_cong [OF assms(3), of s'] in simp_all)

lemma reaches_sequential_inv:
  assumes "pipeline_reaches c endBlock (start_pipeline c n0 h0 w0) s" "conc_workerCount c > 0"
    and "stable_client (conc_client c) F G"
  shows "sequential_inv c endBlock n0 h0 w0 s \<and> as_expected F G s \<and> flow_inv n0 endBlock s"
  using assms(1)
proof (induction rule: pipeline_reaches.induct)
  case start
  have "sequential_inv c endBlock n0 h0 w0 (start_pipeline c n0 h0 w0)"
    by (simp add: sequential_inv_def start_pipeline_def committed_prefix_def)
  moreover have "as_expected F G (start_pipeline c n0 h0 w0)" by (simp add: as_expected_def provenance_start)
  ultimately show ?case using flow_inv_start [OF assms(2)] by simp
next
  case (step s s')
  with sequential_inv_step [OF step.hyps(2) assms(3)] flow_inv_step [OF step.hyps(2)]
    as_expected_step [OF step.hyps(2) _ assms(3)] show ?case by simp
qed

section \<open>Schedules\<close>

text \<open>An executable scheduler: each action names the goroutine that moves; an action that is not
  enabled gives \<^term>\<open>None\<close>.\<close>

datatype action = Dispatch nat | ProducerStops | Fetch nat | Decode nat | Send nat | WorkerStops nat
  | JobsClosed nat | Receive | Drain | ResultsClosed | Interrupt

definition worker_at :: "'w pipeline \<Rightarrow> nat \<Rightarrow> worker option" where
  "worker_at s i = (if i < length (p_workers s) then Some (p_workers s ! i) else None)"

fun perform :: "'w ConcurrentRangeIndexer \<Rightarrow> u64 \<Rightarrow> action \<Rightarrow> 'w pipeline \<Rightarrow> 'w pipeline option" where
  "perform c endBlock (Dispatch i) s =
     (case (p_producer s, worker_at s i) of
        (Some n, Some Idle) \<Rightarrow> Some (s\<lparr>p_producer := (if n = endBlock then None else Some (n + 1)),
           p_workers := (p_workers s)[i := Fetching n]\<rparr>)
      | _ \<Rightarrow> None)"
| "perform c endBlock ProducerStops s =
     (if p_producer s \<noteq> None \<and> ctx_done s then Some (s\<lparr>p_producer := None\<rparr>) else None)"
| "perform c endBlock (Fetch i) s =
     (case worker_at s i of
        Some (Fetching n) \<Rightarrow> (case process_fetch c n (p_world s) of
           (wk, w') \<Rightarrow> Some (s\<lparr>p_world := w', p_workers := (p_workers s)[i := wk]\<rparr>))
      | _ \<Rightarrow> None)"
| "perform c endBlock (Decode i) s =
     (case worker_at s i of
        Some (Decoding n b) \<Rightarrow> (case process_decode c n b (p_world s) of
           (wk, w') \<Rightarrow> Some (s\<lparr>p_world := w', p_workers := (p_workers s)[i := wk]\<rparr>))
      | _ \<Rightarrow> None)"
| "perform c endBlock (Send i) s =
     (case worker_at s i of
        Some (Sending r) \<Rightarrow> if int (length (p_results s)) < conc_workerCount c then
            Some (s\<lparr>p_results := p_results s @ [r], p_workers := (p_workers s)[i := Idle]\<rparr>) else None
      | _ \<Rightarrow> None)"
| "perform c endBlock (WorkerStops i) s =
     (case worker_at s i of
        Some (Sending r) \<Rightarrow> if ctx_done s then Some (s\<lparr>p_workers := (p_workers s)[i := Exited]\<rparr>) else None
      | _ \<Rightarrow> None)"
| "perform c endBlock (JobsClosed i) s =
     (if worker_at s i = Some Idle \<and> p_producer s = None then Some (s\<lparr>p_workers := (p_workers s)[i := Exited]\<rparr>)
      else None)"
| "perform c endBlock Receive s =
     (case (p_phase s, p_results s) of
        (Receiving, r # rs) \<Rightarrow> Some (s\<lparr>p_results := rs, p_pending := (p_pending s)(res_blockNumber r \<mapsto> r),
           p_phase := Draining\<rparr>)
      | _ \<Rightarrow> None)"
| "perform c endBlock Drain s = (if p_phase s = Draining then Some (drain_one c endBlock s) else None)"
| "perform c endBlock ResultsClosed s =
     (if p_phase s = Receiving \<and> p_results s = [] \<and> list_all (\<lambda>wk. wk = Exited) (p_workers s) then
        Some (collector_returns (case p_ctx_err s of Some err \<Rightarrow> Inl err | None \<Rightarrow> Inr (p_ordered s)) s)
      else None)"
| "perform c endBlock Interrupt s =
     (if p_ctx_err s = None then Some (s\<lparr>p_ctx_err := Some (Sentinel ContextCanceled)\<rparr>) else None)"

fun perform_all :: "'w ConcurrentRangeIndexer \<Rightarrow> u64 \<Rightarrow> action list \<Rightarrow> 'w pipeline \<Rightarrow> 'w pipeline option" where
  "perform_all c endBlock [] s = Some s"
| "perform_all c endBlock (a # as) s =
     (case perform c endBlock a s of None \<Rightarrow> None | Some s' \<Rightarrow> perform_all c endBlock as s')"

lemma perform_step:
  assumes "perform c endBlock a s = Some s'"
  shows "pipeline_step c endBlock s s'"
proof (cases a)
  case (Dispatch i)
  with assms obtain n where "p_producer s = Some n" "i < length (p_workers s)" "p_workers s ! i = Idle"
    "s' = s\<lparr>p_producer := (if n = endBlock then None else Some (n + 1)), p_workers := (p_workers s)[i := Fetching n]\<rparr>"
    by (auto simp: worker_at_def split: option.splits worker.splits if_splits)
  then show ?thesis by (simp only: pipeline_step.dispatch)
next
  case ResultsClosed
  with assms have "p_phase s = Receiving" "p_results s = []" "list_all (\<lambda>wk. wk = Exited) (p_workers s)"
    "s' = collector_returns (case p_ctx_err s of Some err \<Rightarrow> Inl err | None \<Rightarrow> Inr (p_ordered s)) s"
    by (auto split: if_splits)
  then show ?thesis by (simp only: pipeline_step.results_closed)
qed (use assms in \<open>auto simp: worker_at_def intro: step_intros
      split: option.splits worker.splits phase.splits list.splits prod.splits if_splits\<close>)

lemma perform_all_reaches:
  assumes "perform_all c endBlock as s = Some s'"
  shows "pipeline_reaches c endBlock s s'"
proof -
  have "pipeline_reaches c endBlock s0 s \<Longrightarrow> perform_all c endBlock as s = Some s' \<Longrightarrow> pipeline_reaches c endBlock s0 s'" for s0 s
  proof (induction as arbitrary: s)
    case (Cons a as)
    then show ?case by (auto split: option.splits dest: perform_step pipeline_reaches.step)
  qed simp
  with assms show ?thesis by (blast intro: pipeline_reaches.start)
qed

lemma perform_all_relpowp:
  "perform_all c endBlock as s = Some s' \<Longrightarrow> (pipeline_step c endBlock ^^ length as) s s'"
proof (induction as arbitrary: s)
  case (Cons a as)
  then obtain s1 where s1: "perform c endBlock a s = Some s1" "perform_all c endBlock as s1 = Some s'"
    by (auto split: option.splits)
  with Cons.IH have "(pipeline_step c endBlock ^^ length as) s1 s'" by blast
  with perform_step [OF s1(1)] have "(pipeline_step c endBlock ^^ Suc (length as)) s s'" by (rule relpowp_Suc_I2)
  then show ?case by simp
qed simp

lemma all_exited_stuck:
  assumes "p_phase s = Returned r" "p_producer s = None" "list_all (\<lambda>wk. wk = Exited) (p_workers s)"
  shows "stuck c endBlock s"
  unfolding stuck_def
proof (intro allI impI)
  fix s' assume "pipeline_step c endBlock s s'"
  then show "p_ctx_err s' \<noteq> p_ctx_err s"
    by cases (use assms in \<open>auto simp: list_all_length\<close>)
qed

section \<open>Properties of the pipeline\<close>

lemma reaches_ctx_err:
  assumes "pipeline_reaches c endBlock (start_pipeline c n0 h w) s" "p_ctx_err s = Some err"
  shows "err \<in> {Sentinel ContextCanceled, Sentinel ContextDeadlineExceeded}"
  using assms
proof (induction arbitrary: err rule: pipeline_reaches.induct)
  case (step s s')
  from step.hyps(2) have "p_ctx_err s' = p_ctx_err s \<or>
      p_ctx_err s' \<in> {Some (Sentinel ContextCanceled), Some (Sentinel ContextDeadlineExceeded)}"
  proof cases
    case drain
    have "p_ctx_err (drain_one c endBlock s) = p_ctx_err s"
      by (simp add: drain_one_def collector_returns_def Let_def split: option.split prod.split sum.split)
    with drain show ?thesis by simp
  qed (auto simp: collector_returns_def)
  with step.IH [of err] step.prems show ?case by auto
qed (simp add: start_pipeline_def)

lemma work_left_steps:
  "(pipeline_step c endBlock ^^ k) s s' \<Longrightarrow> work_left endBlock s' + k \<le> work_left endBlock s"
  by (induction k arbitrary: s') (fastforce dest: work_left_decreases)+

text \<open>
  C3. Every \<^verbatim>\<open>IndexRange\<close> call ends, with no goroutine left behind: under any schedule, any number of
  failures and any moment of cancellation the pipeline makes at most \<open>8 d + workerCount + 9\<close> steps
  for a range of \<open>d + 1\<close> heights, and when no goroutine can move any more the collector has
  returned, the producer has closed \<^verbatim>\<open>jobs\<close> and every worker has exited.
\<close>
theorem pipeline_terminates:
  assumes "conc_workerCount c > 0"
  shows "((pipeline_step c endBlock ^^ k) (start_pipeline c n h w) s \<longrightarrow>
       k \<le> 8 * unat (endBlock - n) + nat (conc_workerCount c) + 9) \<and>
    (pipeline_reaches c endBlock (start_pipeline c n h w) s \<and> stuck c endBlock s \<longrightarrow>
       (\<exists>r. p_phase s = Returned r) \<and> p_producer s = None \<and> list_all (\<lambda>wk. wk = Exited) (p_workers s))"
proof (intro conjI impI)
  assume "(pipeline_step c endBlock ^^ k) (start_pipeline c n h w) s"
  from work_left_steps [OF this] show "k \<le> 8 * unat (endBlock - n) + nat (conc_workerCount c) + 9"
    by (simp add: work_left_def start_pipeline_def sum_list_replicate)
next
  assume s: "pipeline_reaches c endBlock (start_pipeline c n h w) s \<and> stuck c endBlock s"
  then have st: "stuck c endBlock s" by simp
  from stuck_returned [OF st assms] show ret: "\<exists>r. p_phase s = Returned r" .
  with reaches_flow_inv [of c endBlock n h w s] s assms have ctx: "ctx_done s"
    by (simp add: flow_inv_def ctx_done_def)
  show "p_producer s = None"
    using stuckD [OF st pipeline_step.producer_stops [OF _ ctx]] by (cases "p_producer s") auto
  show "list_all (\<lambda>wk. wk = Exited) (p_workers s)"
    using stuck_worker [OF st] ctx by (auto simp: list_all_length)
qed

end
