(* ===== verification/Reorg_Manager.thy ===== *)
theory Reorg_Manager
  imports Concurrent_Indexer
begin

text \<open>
  \<^verbatim>\<open>ReorgManager\<close> of \<^verbatim>\<open>internal/indexer/reorg.go\<close>: comparing the saved checkpoint with the canonical
  chain and rolling back to the nearest recorded common ancestor. The search loop descends one
  height per iteration, so it ends by the height, whatever the maximal depth.
\<close>

section \<open>Operations\<close>

record ReorgResult =
  rr_Checkpoint :: BlockCheckpoint
  rr_PreviousCheckpoint :: BlockCheckpoint
  rr_Exists :: bool
  rr_ReorgDetected :: bool

definition no_checkpoint :: BlockCheckpoint where
  "no_checkpoint = \<lparr>cp_Number = 0, cp_Hash = ''''\<rparr>"

definition empty_ReorgResult :: ReorgResult where
  "empty_ReorgResult = \<lparr>rr_Checkpoint = no_checkpoint, rr_PreviousCheckpoint = no_checkpoint,
     rr_Exists = False, rr_ReorgDetected = False\<rparr>"

record 'w ReorgManager =
  rm_client :: "u64 \<Rightarrow> 'w \<Rightarrow> (go_error, ObservedBlock, 'w) outcome"
  rm_store :: "'w ReorgPersistence"
  rm_maxDepth :: u64

definition NewReorgManager :: "(u64 \<Rightarrow> 'w \<Rightarrow> (go_error, ObservedBlock, 'w) outcome) \<Rightarrow> 'w ReorgPersistence \<Rightarrow> u64 \<Rightarrow>
    'w ReorgManager" where
  "NewReorgManager client store maxDepth = \<lparr>rm_client = client, rm_store = store, rm_maxDepth = maxDepth\<rparr>"

text \<open>The search for a common ancestor below \<open>height\<close>.\<close>

function reconcile_loop :: "'w ReorgManager \<Rightarrow> BlockCheckpoint \<Rightarrow> u64 \<Rightarrow> u64 \<Rightarrow> 'w \<Rightarrow>
    (go_error, ReorgResult, 'w) outcome" where
  "reconcile_loop m checkpoint depth height w =
     (if \<not> (depth \<le> rm_maxDepth m \<and> height > 0) then
        (Inl (NewDomainError (Some (Sentinel ErrReorgTooDeep))
           (''find common ancestor for checkpoint '' @ show_u64 (cp_Number checkpoint))
           (Some (Sentinel ErrChainReorg))), w)
      else
        (case LoadIndexedBlockHash (rm_store m) (height - 1) w of
           (Inl err, w1) \<Rightarrow> (Inl (Wrapf (''load indexed block '' @ show_u64 (height - 1)) err), w1)
         | (Inr None, w1) \<Rightarrow>
             (Inl (NewDomainError (Some (Sentinel ErrReorgHistoryUnavailable))
                (''find common ancestor at block '' @ show_u64 (height - 1))
                (Some (Sentinel ErrChainReorg))), w1)
         | (Inr (Some storedHash), w1) \<Rightarrow>
             (case rm_client m (height - 1) w1 of
                (Inl err, w2) \<Rightarrow> (Inl (Wrapf (''fetch canonical block '' @ show_u64 (height - 1)) err), w2)
              | (Inr canonical, w2) \<Rightarrow>
                  if ob_Hash canonical \<noteq> storedHash then reconcile_loop m checkpoint (depth + 1) (height - 1) w2
                  else
                    let ancestor = \<lparr>cp_Number = height - 1, cp_Hash = storedHash\<rparr>
                    in (case RollbackTo (rm_store m) ancestor w2 of
                          (Inl err, w3) \<Rightarrow>
                            (Inl (Wrapf (''roll back to common ancestor '' @ show_u64 (height - 1)) err), w3)
                        | (Inr _, w3) \<Rightarrow>
                            (Inr \<lparr>rr_Checkpoint = ancestor, rr_PreviousCheckpoint = checkpoint, rr_Exists = True,
                                  rr_ReorgDetected = True\<rparr>, w3)))))"
  by pat_completeness auto
termination
proof (relation "measure (\<lambda>(m, cp, depth, height, w). unat height)")
  fix height depth maxDepth :: u64
  assume "\<not> \<not> (depth \<le> maxDepth \<and> height > 0)"
  then have "unat (height - 1) < unat height" using unat_pred_u64 [of height] by linarith
  then show "((m, cp, depth + 1, height - 1, w'), (m, cp, depth, height, w)) \<in>
      measure (\<lambda>(m, cp, depth, height, w). unat height)"
    for m :: "'w ReorgManager" and cp :: BlockCheckpoint and w w' :: 'w by simp
qed simp

declare reconcile_loop.simps [simp del]

definition Reconcile :: "'w ReorgManager \<Rightarrow> 'w \<Rightarrow> (go_error, ReorgResult, 'w) outcome" where
  "Reconcile m w =
     (if rm_maxDepth m = 0 then
        (Inl (NewDomainError (Some (Sentinel ErrValidation)) ''validate maximum reorg depth''
           (Some (Anonymous ''maximum reorg depth must be greater than zero''))), w)
      else
        (case Load (rm_store m) w of
           (Inl err, w1) \<Rightarrow> (Inl (Wrapf ''load checkpoint for reorg verification'' err), w1)
         | (Inr None, w1) \<Rightarrow> (Inr empty_ReorgResult, w1)
         | (Inr (Some checkpoint), w1) \<Rightarrow>
             (case rm_client m (cp_Number checkpoint) w1 of
                (Inl err, w2) \<Rightarrow>
                  (Inl (Wrapf (''fetch canonical block '' @ show_u64 (cp_Number checkpoint) @
                     '' for reorg verification'') err), w2)
              | (Inr canonical, w2) \<Rightarrow>
                  if ob_Hash canonical = cp_Hash checkpoint then
                    (case EnsureIndexedBlock (rm_store m) checkpoint w2 of
                       (Inl err, w3) \<Rightarrow> (Inl (Wrapf ''record checkpoint history'' err), w3)
                     | (Inr _, w3) \<Rightarrow>
                         (Inr (empty_ReorgResult\<lparr>rr_Checkpoint := checkpoint, rr_Exists := True\<rparr>), w3))
                  else reconcile_loop m checkpoint 1 (cp_Number checkpoint) w2)))"

section \<open>What reconciliation does to the view\<close>

text \<open>The client once answered \<open>n\<close> with a block of hash \<open>h\<close>.\<close>

definition answered :: "(u64 \<Rightarrow> 'w \<Rightarrow> (go_error, ObservedBlock, 'w) outcome) \<Rightarrow> u64 \<Rightarrow> BlockHash \<Rightarrow> bool" where
  "answered canonical n h \<longleftrightarrow> (\<exists>w b w'. canonical n w = (Inr b, w') \<and> ob_Hash b = h)"

text \<open>\<open>a\<close> is a recorded height below \<open>height\<close> that the client confirmed, and every height between
  is recorded with a hash the client contradicted.\<close>

definition common_ancestor :: "(u64 \<Rightarrow> 'w \<Rightarrow> (go_error, ObservedBlock, 'w) outcome) \<Rightarrow> (u64 \<rightharpoonup> BlockHash) \<Rightarrow> u64 \<Rightarrow>
    BlockCheckpoint \<Rightarrow> bool" where
  "common_ancestor canonical hashes height a \<longleftrightarrow>
     cp_Number a < height \<and> hashes (cp_Number a) = Some (cp_Hash a) \<and> answered canonical (cp_Number a) (cp_Hash a) \<and>
     (\<forall>n. cp_Number a < n \<and> n < height \<longrightarrow>
        (\<exists>h h'. hashes n = Some h \<and> answered canonical n h' \<and> h' \<noteq> h))"

text \<open>The effect on a view, given the outcome. An error leaves the view alone, unless it is the
  last write of the call that was applied without being acknowledged.\<close>

definition reconciled :: "(u64 \<Rightarrow> 'w \<Rightarrow> (go_error, ObservedBlock, 'w) outcome) \<Rightarrow> u64 \<Rightarrow> chain_view \<Rightarrow>
    go_error + ReorgResult \<Rightarrow> chain_view \<Rightarrow> bool" where
  "reconciled canonical maxDepth v r v' \<longleftrightarrow>
     (case r of
        Inr res \<Rightarrow>
          if \<not> rr_Exists res then \<not> rr_ReorgDetected res \<and> cv_checkpoint v = None \<and> v' = v
          else if \<not> rr_ReorgDetected res then
            cv_checkpoint v = Some (rr_Checkpoint res) \<and>
            answered canonical (cp_Number (rr_Checkpoint res)) (cp_Hash (rr_Checkpoint res)) \<and>
            v' = ensure_view (rr_Checkpoint res) v
          else
            cv_checkpoint v = Some (rr_PreviousCheckpoint res) \<and>
            (\<exists>h. answered canonical (cp_Number (rr_PreviousCheckpoint res)) h \<and> h \<noteq> cp_Hash (rr_PreviousCheckpoint res)) \<and>
            common_ancestor canonical (cv_hashes v) (cp_Number (rr_PreviousCheckpoint res)) (rr_Checkpoint res) \<and>
            unat (cp_Number (rr_PreviousCheckpoint res)) - unat (cp_Number (rr_Checkpoint res)) \<le> unat maxDepth \<and>
            v' = rollback_view (rr_Checkpoint res) v
      | Inl _ \<Rightarrow> v' = v \<or> (\<exists>cp. cv_checkpoint v = Some cp \<and>
            (v' = ensure_view cp v \<or>
             (\<exists>a. common_ancestor canonical (cv_hashes v) (cp_Number cp) a \<and>
               unat (cp_Number cp) - unat (cp_Number a) \<le> unat maxDepth \<and> v' = rollback_view a v))))"

lemma common_ancestor_Suc:
  assumes "height > 0" "common_ancestor canonical hashes (height - 1) a"
    and "hashes (height - 1) = Some h" "answered canonical (height - 1) h'" "h' \<noteq> h"
  shows "common_ancestor canonical hashes height a"
proof -
  have split: "n < height - 1 \<or> n = height - 1" if "n < height" for n :: u64
    using that unat_pred_u64(1,2) [OF assms(1)] by (auto simp: word_less_nat_alt word_unat_eq_iff)
  have "\<exists>h h'. hashes n = Some h \<and> answered canonical n h' \<and> h' \<noteq> h" if n: "cp_Number a < n" "n < height" for n
  proof (cases "n = height - 1")
    case True
    with assms(3-5) show ?thesis by blast
  next
    case False
    with split [OF n(2)] n(1) assms(2) show ?thesis by (simp add: common_ancestor_def)
  qed
  moreover have "cp_Number a < height"
    using assms(2) unat_pred_u64(3) [OF assms(1)] by (auto simp: common_ancestor_def)
  ultimately show ?thesis using assms(2) by (simp add: common_ancestor_def)
qed

locale reorg_reconciling = reorg_persistence load save view inv ensure hash_at rollback
  for load :: "'w \<Rightarrow> (go_error, BlockCheckpoint option, 'w) outcome"
    and save :: "BlockTransferIndex \<Rightarrow> 'w \<Rightarrow> (go_error, unit, 'w) outcome"
    and view :: "'w \<Rightarrow> chain_view"
    and inv :: "'w \<Rightarrow> bool"
    and ensure :: "BlockCheckpoint \<Rightarrow> 'w \<Rightarrow> (go_error, unit, 'w) outcome"
    and hash_at :: "u64 \<Rightarrow> 'w \<Rightarrow> (go_error, BlockHash option, 'w) outcome"
    and rollback :: "BlockCheckpoint \<Rightarrow> 'w \<Rightarrow> (go_error, unit, 'w) outcome" +
  fixes canonical :: "u64 \<Rightarrow> 'w \<Rightarrow> (go_error, ObservedBlock, 'w) outcome"
  assumes canonical_frame: "inv w \<Longrightarrow> canonical n w = (r, w') \<Longrightarrow> inv w' \<and> view w' = view w"
begin

abbreviation manager :: "u64 \<Rightarrow> 'w ReorgManager" where
  "manager maxDepth \<equiv> NewReorgManager canonical
     \<lparr>Load = load, SaveIndexedBlock = save, EnsureIndexedBlock = ensure, LoadIndexedBlockHash = hash_at,
      RollbackTo = rollback\<rparr> maxDepth"

text \<open>One iteration: it ends the search with an error, goes on one height below, or rolls back.\<close>

lemma reconcile_loop_cases:
  assumes "inv w" "reconcile_loop (manager k) cp depth height w = (r, w')"
  obtains (failed) "isl r" "inv w'" "view w' = view w"
  | (onward) h h' w2 where "depth \<le> k" "height > 0" "cv_hashes (view w) (height - 1) = Some h"
      "answered canonical (height - 1) h'" "h' \<noteq> h" "inv w2" "view w2 = view w"
      "reconcile_loop (manager k) cp (depth + 1) (height - 1) w2 = (r, w')"
  | (found) a where "depth \<le> k" "height > 0" "cp_Number a = height - 1"
      "cv_hashes (view w) (height - 1) = Some (cp_Hash a)" "answered canonical (height - 1) (cp_Hash a)" "inv w'"
      "isl r \<and> view w' = view w \<or> view w' = rollback_view a (view w)"
      "\<And>res. r = Inr res \<Longrightarrow> res = \<lparr>rr_Checkpoint = a, rr_PreviousCheckpoint = cp, rr_Exists = True, rr_ReorgDetected = True\<rparr>"
proof -
  note unf = assms(2) [unfolded reconcile_loop.simps [of _ _ depth]]
  obtain rh w1 where h: "hash_at (height - 1) w = (rh, w1)" by force
  from hash_frame [OF assms(1) h] have w1: "inv w1" "view w1 = view w" by auto
  obtain rc w2 where c: "canonical (height - 1) w1 = (rc, w2)" by force
  from canonical_frame [OF w1(1) c] w1 have w2: "inv w2" "view w2 = view w" by auto
  consider "\<not> (depth \<le> k \<and> height > 0)" | "\<not> (\<exists>st. rh = Inr (Some st))" "depth \<le> k \<and> height > 0"
    | st where "depth \<le> k \<and> height > 0" "rh = Inr (Some st)" "isl rc"
    | st b where "depth \<le> k \<and> height > 0" "rh = Inr (Some st)" "rc = Inr b"
    by (cases rc) auto
  then show thesis
  proof cases
    case 1
    with unf assms(1) show ?thesis by (intro failed) (auto simp: NewReorgManager_def)
  next
    case 2
    with unf h w1 show ?thesis
      by (intro failed) (auto simp: NewReorgManager_def split: sum.splits option.splits)
  next
    case 3
    with unf h c w2 show ?thesis
      by (intro failed) (auto simp: NewReorgManager_def isl_def)
  next
    case (4 st b)
    have st: "cv_hashes (view w) (height - 1) = Some st" using hash_value [OF assms(1)] h 4 by auto
    have ans: "answered canonical (height - 1) (ob_Hash b)" using c 4 by (auto simp: answered_def)
    show ?thesis
    proof (cases "ob_Hash b = st")
      case False
      with unf h c 4 show ?thesis by (intro onward [OF _ _ st ans False w2]) (auto simp: NewReorgManager_def)
    next
      case True
      let ?a = "\<lparr>cp_Number = height - 1, cp_Hash = st\<rparr>"
      obtain rr w3 where rb: "rollback ?a w2 = (rr, w3)" by force
      with unf h c 4 True rollback_ok [OF w2(1), of ?a] rollback_error [OF w2(1), of ?a] w2 st ans
      show ?thesis by (intro found [of ?a]) (auto simp: NewReorgManager_def split: sum.splits)
    qed
  qed
qed

lemma reconcile_loop_result:
  assumes "inv w" "reconcile_loop (manager k) cp depth height w = (r, w')"
    and "height = 0 \<or> unat depth + unat height = unat (cp_Number cp) + 1"
  shows "inv w' \<and> (isl r \<and> view w' = view w \<or>
    (\<exists>a. common_ancestor canonical (cv_hashes (view w)) height a \<and>
       unat (cp_Number cp) - unat (cp_Number a) \<le> unat k \<and> view w' = rollback_view a (view w) \<and>
       (\<forall>res. r = Inr res \<longrightarrow> res = \<lparr>rr_Checkpoint = a, rr_PreviousCheckpoint = cp, rr_Exists = True, rr_ReorgDetected = True\<rparr>)))"
  using assms
proof (induction "unat height" arbitrary: height depth w rule: less_induct)
  case less
  from less.prems(1,2) show ?case
  proof (cases rule: reconcile_loop_cases)
    case failed
    then show ?thesis by blast
  next
    case (onward h h' w2)
    note lt = unat_pred_u64(1,2) [OF onward(2)]
    have next_depth: "height - 1 = 0 \<or> unat (depth + 1) + unat (height - 1) = unat (cp_Number cp) + 1"
    proof (cases "unat height = 1")
      case True
      with lt show ?thesis by (simp add: unat_eq_0)
    next
      case False
      with less.prems(3) lt unat_bound_u64 [of "cp_Number cp"] have "unat depth + 1 < 2 ^ 64" by auto
      then have "unat (depth + 1) = unat depth + 1" by (simp add: unat_word_ariths)
      with less.prems(3) lt show ?thesis by auto
    qed
    from less.hyps [OF _ onward(6,8) next_depth] lt onward(7)
    have "inv w' \<and> (isl r \<and> view w' = view w \<or>
      (\<exists>a. common_ancestor canonical (cv_hashes (view w)) (height - 1) a \<and>
         unat (cp_Number cp) - unat (cp_Number a) \<le> unat k \<and> view w' = rollback_view a (view w) \<and>
         (\<forall>res. r = Inr res \<longrightarrow> res = \<lparr>rr_Checkpoint = a, rr_PreviousCheckpoint = cp, rr_Exists = True, rr_ReorgDetected = True\<rparr>)))"
      by simp
    with common_ancestor_Suc [of height canonical "cv_hashes (view w)", OF onward(2) _ onward(3-5)]
    show ?thesis by blast
  next
    case (found a)
    note ht = unat_pred_u64(1,2) [OF found(2)] and lt = unat_pred_u64(3) [OF found(2)]
    from found(1) have "unat depth \<le> unat k" by (simp add: word_le_nat_alt)
    with less.prems(3) ht found(2) have dist: "unat (cp_Number cp) - unat (cp_Number a) \<le> unat k"
      by (auto simp: found(3))
    have "\<not> (height - 1 < n \<and> n < height)" for n
      using ht by (auto simp: word_less_nat_alt)
    with found lt have "common_ancestor canonical (cv_hashes (view w)) height a"
      unfolding common_ancestor_def by (metis found(3))
    with found dist show ?thesis by blast
  qed
qed

text \<open>When no call fails and the client is consistent, a recorded common ancestor within the
  depth is found.\<close>

lemma reconcile_loop_finds:
  assumes hash_total: "\<And>n w. inv w \<Longrightarrow> \<not> isl (fst (hash_at n w))"
    and rollback_total: "\<And>a w. inv w \<Longrightarrow> cv_hashes (view w) (cp_Number a) = Some (cp_Hash a) \<Longrightarrow> \<not> isl (fst (rollback a w))"
    and stable: "\<And>n w. inv w \<Longrightarrow> \<exists>b w'. canonical n w = (Inr b, w') \<and> ob_Hash b = C n"
    and a: "cv_hashes v a = Some (C a)" "unat (cp_Number cp) - unat a \<le> unat k"
      "\<And>n. a < n \<Longrightarrow> n < cp_Number cp \<Longrightarrow> \<exists>h. cv_hashes v n = Some h \<and> h \<noteq> C n"
    and "inv w" "view w = v" "a < height" "height \<le> cp_Number cp"
    and "unat depth + unat height = unat (cp_Number cp) + 1"
  shows "\<exists>w'. reconcile_loop (manager k) cp depth height w =
    (Inr \<lparr>rr_Checkpoint = \<lparr>cp_Number = a, cp_Hash = C a\<rparr>, rr_PreviousCheckpoint = cp, rr_Exists = True,
          rr_ReorgDetected = True\<rparr>, w')"
  using assms(7-11)
proof (induction "unat height" arbitrary: height depth w rule: less_induct)
  case less
  then have pos: "height > 0" by (metis word_gt_0 word_not_simps(1))
  note pred = unat_pred_u64 [OF pos]
  from less.prems(3) have lt: "unat a < unat height" by (simp add: word_less_nat_alt)
  from less.prems(5) lt a(2) less.prems(4) have depth: "depth \<le> k" by (simp add: word_le_nat_alt)
  obtain rh w1 where h: "hash_at (height - 1) w = (rh, w1)" by force
  from hash_total [OF less.prems(1), of "height - 1"] h obtain found where rh: "rh = Inr found" by (cases rh) auto
  note hv = hash_value [OF less.prems(1) h [unfolded rh]] hash_frame [OF less.prems(1) h]
  then have w1: "inv w1" "view w1 = v" "found = cv_hashes v (height - 1)" using less.prems(2) by auto
  from stable [OF w1(1)] obtain b w2 where c: "canonical (height - 1) w1 = (Inr b, w2)" "ob_Hash b = C (height - 1)" by blast
  from canonical_frame [OF w1(1) c(1)] w1 have w2: "inv w2" "view w2 = v" by auto
  note unf = reconcile_loop.simps [of "manager k" cp depth height w]
  show ?case
  proof (cases "height - 1 = a")
    case True
    with w1(3) a(1) have found: "found = Some (C a)" by simp
    let ?a = "\<lparr>cp_Number = a, cp_Hash = C a\<rparr>"
    from rollback_total [OF w2(1), of ?a] w2 a(1) obtain w3 where "rollback ?a w2 = (Inr (), w3)"
      by (cases "rollback ?a w2"; cases "fst (rollback ?a w2)") auto
    with unf depth pos h rh found c True show ?thesis by (simp add: NewReorgManager_def Let_def)
  next
    case False
    with pred lt have below: "a < height - 1"
      by (auto simp: word_less_nat_alt word_unat_eq_iff)
    from pred(3) less.prems(4) have le: "height - 1 < cp_Number cp" by simp
    from a(3) [OF below le] w1(3) obtain st where st: "found = Some st" "st \<noteq> C (height - 1)" by auto
    have "unat depth + 1 < 2 ^ 64"
      using less.prems(5) lt below unat_bound_u64 [of "cp_Number cp"] pred by (auto simp: word_less_nat_alt)
    then have "unat (depth + 1) = unat depth + 1" by (simp add: unat_word_ariths)
    with less.prems(5) pred have "unat (depth + 1) + unat (height - 1) = unat (cp_Number cp) + 1" by simp
    from less.hyps [OF _ w2 below _ this] pred le unf depth pos h rh st c show ?thesis
      by (simp add: NewReorgManager_def)
  qed
qed

lemma Reconcile_finds:
  assumes hash_total: "\<And>n w. inv w \<Longrightarrow> \<not> isl (fst (hash_at n w))"
    and rollback_total: "\<And>a w. inv w \<Longrightarrow> cv_hashes (view w) (cp_Number a) = Some (cp_Hash a) \<Longrightarrow> \<not> isl (fst (rollback a w))"
    and stable: "\<And>n w. inv w \<Longrightarrow> \<exists>b w'. canonical n w = (Inr b, w') \<and> ob_Hash b = C n"
    and load_total: "\<And>w. inv w \<Longrightarrow> \<not> isl (fst (load w))"
    and "inv w" "cv_checkpoint (view w) = Some cp" "C (cp_Number cp) \<noteq> cp_Hash cp" "k \<noteq> 0"
    and a: "a < cp_Number cp" "cv_hashes (view w) a = Some (C a)" "unat (cp_Number cp) - unat a \<le> unat k"
      "\<And>n. a < n \<Longrightarrow> n < cp_Number cp \<Longrightarrow> \<exists>h. cv_hashes (view w) n = Some h \<and> h \<noteq> C n"
  shows "\<exists>w'. Reconcile (manager k) w =
    (Inr \<lparr>rr_Checkpoint = \<lparr>cp_Number = a, cp_Hash = C a\<rparr>, rr_PreviousCheckpoint = cp, rr_Exists = True,
          rr_ReorgDetected = True\<rparr>, w')"
proof -
  obtain rl w1 where l: "load w = (rl, w1)" by force
  with load_total [OF assms(5)] load_value [OF assms(5)] assms(6) have rl: "rl = Inr (Some cp)"
    by (cases rl) auto
  from load_frame [OF assms(5) l] have w1: "inv w1" "view w1 = view w" by auto
  from stable [OF w1(1)] obtain b w2 where c: "canonical (cp_Number cp) w1 = (Inr b, w2)" "ob_Hash b = C (cp_Number cp)"
    by blast
  from canonical_frame [OF w1(1) c(1)] w1 have w2: "inv w2" "view w2 = view w" by auto
  have "\<exists>w'. reconcile_loop (manager k) cp 1 (cp_Number cp) w2 =
    (Inr \<lparr>rr_Checkpoint = \<lparr>cp_Number = a, cp_Hash = C a\<rparr>, rr_PreviousCheckpoint = cp, rr_Exists = True,
          rr_ReorgDetected = True\<rparr>, w')"
    by (rule reconcile_loop_finds [OF hash_total rollback_total stable a(2,3,4) w2 a(1) order_refl]) simp_all
  with l rl c assms(7,8) show ?thesis by (auto simp: Reconcile_def NewReorgManager_def)
qed

lemma Reconcile_reconciled:
  assumes "inv w" "Reconcile (manager k) w = (r, w')"
  shows "inv w' \<and> reconciled canonical k (view w) r (view w')"
proof -
  obtain rl w1 where l: "load w = (rl, w1)" by force
  from load_frame [OF assms(1) l] have w1: "inv w1" "view w1 = view w" by auto
  show ?thesis
  proof (cases "k \<noteq> 0 \<and> (\<exists>cp. rl = Inr (Some cp))")
    case False
    with assms l w1 load_value [OF assms(1)] show ?thesis
      by (auto simp: Reconcile_def NewReorgManager_def reconciled_def empty_ReorgResult_def
          split: sum.splits option.splits if_splits)
  next
    case True
    then obtain cp where cp: "k \<noteq> 0" "rl = Inr (Some cp)" by blast
    with load_value [OF assms(1)] l have cv: "cv_checkpoint (view w) = Some cp" by auto
    obtain rc w2 where c: "canonical (cp_Number cp) w1 = (rc, w2)" by force
    from canonical_frame [OF w1(1) c] w1 have w2: "inv w2" "view w2 = view w" by auto
    show ?thesis
    proof (cases rc)
      case (Inl e)
      with assms(2) l cp c w2 show ?thesis by (auto simp: Reconcile_def NewReorgManager_def reconciled_def)
    next
      case (Inr b)
      with c have ans: "answered canonical (cp_Number cp) (ob_Hash b)" by (auto simp: answered_def)
      show ?thesis
      proof (cases "ob_Hash b = cp_Hash cp")
        case True
        obtain re w3 where e: "ensure cp w2 = (re, w3)" by force
        from ensure_ok [OF w2(1), of cp "()" w3] ensure_error [OF w2(1), of cp _ w3] w2 e
        have "inv w3" "isl re \<and> view w3 = view w \<or> view w3 = ensure_view cp (view w)" by (cases re; auto)+
        with assms(2) l cp c Inr True e ans cv show ?thesis
          by (cases re) (auto simp: Reconcile_def NewReorgManager_def reconciled_def empty_ReorgResult_def)
      next
        case False
        with assms(2) l cp c Inr have loop: "reconcile_loop (manager k) cp 1 (cp_Number cp) w2 = (r, w')"
          by (simp add: Reconcile_def NewReorgManager_def)
        from reconcile_loop_result [OF w2(1) loop] w2(2) ans False cv show ?thesis
          by (cases r) (auto simp: reconciled_def)
      qed
    qed
  qed
qed

end

end
