(* ===== verification/Continuous_Indexer.thy ===== *)
theory Continuous_Indexer
  imports Reorg_Manager
begin

text \<open>
  \<^verbatim>\<open>ContinuousIndexer\<close> of \<^verbatim>\<open>internal/indexer/continuous_indexer.go\<close>, and \<^verbatim>\<open>determineStartBlock\<close> of
  \<^verbatim>\<open>internal/app/application.go\<close>, which chooses where it starts. A range indexer is a relation
  between the world before a call, its result and the world after it, since the concurrent one
  is not a function. \<^verbatim>\<open>Run\<close> is a state machine whose steps are polling cycles, ticks and the end of
  the context; logging is left out.
\<close>

section \<open>Operations\<close>

type_synonym 'w RangeIndexer = "u64 \<Rightarrow> u64 \<Rightarrow> 'w \<Rightarrow> go_error + BlockTransferIndex list \<Rightarrow> 'w \<Rightarrow> bool"

record 'w ContinuousIndexer =
  ci_client :: "'w \<Rightarrow> (go_error, ObservedBlock, 'w) outcome"
  ci_indexer :: "'w RangeIndexer"
  ci_startBlock :: u64
  ci_pollInterval :: int
  ci_confirmationDepth :: u64

definition NewContinuousIndexer :: "('w \<Rightarrow> (go_error, ObservedBlock, 'w) outcome) \<Rightarrow> 'w RangeIndexer \<Rightarrow> u64 \<Rightarrow> int \<Rightarrow> u64 \<Rightarrow>
    'w ContinuousIndexer" where
  "NewContinuousIndexer client indexer startBlock pollInterval confirmationDepth =
     \<lparr>ci_client = client, ci_indexer = indexer, ci_startBlock = startBlock, ci_pollInterval = pollInterval,
      ci_confirmationDepth = confirmationDepth\<rparr>"

text \<open>The last height a cycle may index, if there is one.\<close>

definition index_through :: "'w ContinuousIndexer \<Rightarrow> ObservedBlock \<Rightarrow> u64 option" where
  "index_through c latestBlock =
     (if ob_Number latestBlock < ci_confirmationDepth c then None
      else let indexThrough = ob_Number latestBlock - ci_confirmationDepth c
           in if ci_startBlock c > indexThrough then None else Some indexThrough)"

inductive RunCycle :: "'w ContinuousIndexer \<Rightarrow> 'w \<Rightarrow> go_error + BlockTransferIndex list \<Rightarrow> 'w \<Rightarrow> bool"
  for c :: "'w ContinuousIndexer" and w :: 'w where
  latest_failed: "ci_client c w = (Inl err, w1) \<Longrightarrow>
    RunCycle c w (Inl (Wrapf ''failed to fetch latest block'' err)) w1"
| nothing_confirmed: "ci_client c w = (Inr latestBlock, w1) \<Longrightarrow> index_through c latestBlock = None \<Longrightarrow>
    RunCycle c w (Inr []) w1"
| range_failed: "ci_client c w = (Inr latestBlock, w1) \<Longrightarrow> index_through c latestBlock = Some n \<Longrightarrow>
    ci_indexer c (ci_startBlock c) n w1 (Inl err) w2 \<Longrightarrow>
    RunCycle c w (Inl (Wrapf (''failed to index through block '' @ show_u64 n) err)) w2"
| range_done: "ci_client c w = (Inr latestBlock, w1) \<Longrightarrow> index_through c latestBlock = Some n \<Longrightarrow>
    ci_indexer c (ci_startBlock c) n w1 (Inr indexes) w2 \<Longrightarrow> RunCycle c w (Inr indexes) w2"

text \<open>\<^verbatim>\<open>runCycleAndHandle\<close>: the handler (nil is \<^term>\<open>None\<close>) sees the indexes in order.\<close>

inductive runCycleAndHandle :: "'w ContinuousIndexer \<Rightarrow> (BlockTransferIndex \<Rightarrow> 'w \<Rightarrow> 'w) option \<Rightarrow> 'w \<Rightarrow>
    go_error option \<Rightarrow> 'w \<Rightarrow> bool"
  for c :: "'w ContinuousIndexer" and handler and w :: 'w where
  cycle_failed: "RunCycle c w (Inl err) w1 \<Longrightarrow> runCycleAndHandle c handler w (Some err) w1"
| cycle_handled: "RunCycle c w (Inr indexes) w1 \<Longrightarrow>
    runCycleAndHandle c handler w None (case handler of None \<Rightarrow> w1 | Some f \<Rightarrow> fold f indexes w1)"

datatype run_state = Cycling | Waiting | Stopped "go_error option"

definition Run_start :: "'w ContinuousIndexer \<Rightarrow> run_state" where
  "Run_start c =
     (if ci_pollInterval c \<le> 0 then Stopped (Some (Anonymous ''poll interval must be greater than zero''))
      else Cycling)"

text \<open>At any moment outside a cycle the rest of the process may change the world, as \<open>env\<close> describes.\<close>

inductive run_step :: "'w ContinuousIndexer \<Rightarrow> (BlockTransferIndex \<Rightarrow> 'w \<Rightarrow> 'w) option \<Rightarrow> ('w \<Rightarrow> 'w \<Rightarrow> bool) \<Rightarrow>
    run_state \<times> 'w \<Rightarrow> run_state \<times> 'w \<Rightarrow> bool"
  for c handler env where
  cycle_ok: "runCycleAndHandle c handler w None w' \<Longrightarrow> run_step c handler env (Cycling, w) (Waiting, w')"
| cycle_canceled: "runCycleAndHandle c handler w (Some err) w' \<Longrightarrow> errors_is err ContextCanceled \<Longrightarrow>
    run_step c handler env (Cycling, w) (Stopped None, w')"
| cycle_error: "runCycleAndHandle c handler w (Some err) w' \<Longrightarrow> \<not> errors_is err ContextCanceled \<Longrightarrow>
    run_step c handler env (Cycling, w) (Stopped (Some err), w')"
| tick: "run_step c handler env (Waiting, w) (Cycling, w)"
| ctx_closed: "run_step c handler env (Waiting, w) (Stopped None, w)"
| elsewhere: "env w w' \<Longrightarrow> run_step c handler env (state, w) (state, w')"

inductive run_reaches :: "'w ContinuousIndexer \<Rightarrow> (BlockTransferIndex \<Rightarrow> 'w \<Rightarrow> 'w) option \<Rightarrow> ('w \<Rightarrow> 'w \<Rightarrow> bool) \<Rightarrow>
    run_state \<times> 'w \<Rightarrow> run_state \<times> 'w \<Rightarrow> bool"
  for c handler env s0 where
  run_start: "run_reaches c handler env s0 s0"
| run_more: "run_reaches c handler env s0 s \<Longrightarrow> run_step c handler env s s' \<Longrightarrow> run_reaches c handler env s0 s'"

text \<open>\<^verbatim>\<open>determineStartBlock\<close>.\<close>

definition determineStartBlock :: "'w ContinuousTransferClient \<Rightarrow> 'w ReorgPersistence \<Rightarrow> u64 \<Rightarrow> u64 \<Rightarrow> 'w \<Rightarrow>
    (go_error, u64, 'w) outcome" where
  "determineStartBlock client persistence confirmationDepth maxReorgDepth w =
     (case Reconcile (NewReorgManager (GetObservedBlockByNumber client) persistence maxReorgDepth) w of
        (Inl err, w1) \<Rightarrow> (Inl (Wrapf ''reconcile Ethereum chain'' err), w1)
      | (Inr reorgResult, w1) \<Rightarrow>
          if rr_Exists reorgResult then (Inr (cp_Number (rr_Checkpoint reorgResult) + 1), w1)
          else
            (case GetLatestObservedBlock client w1 of
               (Inl err, w2) \<Rightarrow> (Inl (Wrapf ''fetch latest Ethereum block'' err), w2)
             | (Inr latestBlock, w2) \<Rightarrow>
                 (Inr (if ob_Number latestBlock \<ge> confirmationDepth then ob_Number latestBlock - confirmationDepth
                       else 0), w2)))"

section \<open>Runs of cycles\<close>

text \<open>Where a run starts, whatever the end of the range.\<close>

definition run_start_at :: "BlockCheckpoint option \<Rightarrow> u64 \<Rightarrow> u64 \<times> BlockHash" where
  "run_start_at checkpoint startBlock =
     (case checkpoint of
        None \<Rightarrow> (startBlock, '''')
      | Some cp \<Rightarrow>
          let n = (if startBlock \<le> cp_Number cp then cp_Number cp + 1 else startBlock)
          in (n, if cp_Number cp + 1 = n then cp_Hash cp else ''''))"

text \<open>Everything written between two views is one unbroken, parent-linked run of heights.\<close>

definition one_run :: "u64 \<Rightarrow> chain_view \<Rightarrow> chain_view \<Rightarrow> bool" where
  "one_run startBlock v v' \<longleftrightarrow>
     (\<exists>bs. v' = fold commit_view bs v \<and>
        (case run_start_at (cv_checkpoint v) startBlock of (n, h) \<Rightarrow> numbered n bs \<and> linked h bs) \<and>
        (\<forall>ix \<in> set bs. startBlock \<le> ix_BlockNumber ix))"

lemma resume_point_run_start:
  "resume_point cp startBlock endBlock = Some x \<Longrightarrow> x = run_start_at cp startBlock"
  by (auto simp: resume_point_def run_start_at_def Let_def split: option.splits if_splits)

lemma one_run_refl: "one_run startBlock v v"
  by (auto simp: one_run_def numbered_def intro!: exI [of _ "[]"] split: prod.splits)

lemma numbered_append:
  "numbered n (xs @ ys) \<longleftrightarrow> numbered n xs \<and> numbered (n + of_nat (length xs)) ys"
proof -
  have "(\<forall>i < length (xs @ ys). P i) \<longleftrightarrow> (\<forall>i < length xs. P i) \<and> (\<forall>i < length ys. P (length xs + i))" for P
    by (auto simp: not_less dest!: le_Suc_ex) (metis add_less_cancel_left le_Suc_ex linorder_not_less)
  then show ?thesis by (simp add: numbered_def nth_append add.assoc)
qed

lemma range_indexed_one_run:
  assumes "range_indexed startBlock endBlock v r v'"
  shows "one_run startBlock v v'"
proof -
  from assms obtain n h bs where bs: "v' = fold commit_view bs v" "numbered n bs" "linked h bs"
    "bs = [] \<or> resume_point (cv_checkpoint v) startBlock endBlock = Some (n, h)"
    "\<forall>ix \<in> set bs. startBlock \<le> ix_BlockNumber ix"
    unfolding range_indexed_def by blast
  show ?thesis
  proof (cases "bs = []")
    case True
    with bs(1) one_run_refl show ?thesis by simp
  next
    case False
    with bs(4) resume_point_run_start have "(n, h) = run_start_at (cv_checkpoint v) startBlock" by blast
    with bs show ?thesis unfolding one_run_def by (intro exI [of _ bs]) (auto split: prod.splits)
  qed
qed

lemma one_run_trans:
  assumes "one_run startBlock v v1" "one_run startBlock v1 v2"
  shows "one_run startBlock v v2"
proof -
  obtain n h where nh: "run_start_at (cv_checkpoint v) startBlock = (n, h)" by force
  from assms(1) nh obtain bs where bs: "v1 = fold commit_view bs v" "numbered n bs" "linked h bs"
    "\<forall>ix \<in> set bs. startBlock \<le> ix_BlockNumber ix" unfolding one_run_def by auto
  show ?thesis
  proof (cases "bs = []")
    case True
    with assms(2) bs(1) show ?thesis by simp
  next
    case False
    let ?l = "last bs"
    from False bs(4) have l: "startBlock \<le> ix_BlockNumber ?l" by simp
    from False bs(1) have cp: "cv_checkpoint v1 = Some (checkpoint_of ?l)" by (simp add: fold_commit_checkpoint)
    from l cp have start: "run_start_at (cv_checkpoint v1) startBlock = (ix_BlockNumber ?l + 1, ix_BlockHash ?l)"
      by (simp add: run_start_at_def checkpoint_of_def)
    from False bs(2) have "ix_BlockNumber ?l = n + of_nat (length bs - 1)"
      by (simp add: numbered_def last_conv_nth)
    with False have next_n: "ix_BlockNumber ?l + 1 = n + of_nat (length bs)"
      by (cases bs) (simp_all add: add.commute add.left_commute)
    from assms(2) start obtain cs where cs: "v2 = fold commit_view cs v1" "numbered (ix_BlockNumber ?l + 1) cs"
      "linked (ix_BlockHash ?l) cs" "\<forall>ix \<in> set cs. startBlock \<le> ix_BlockNumber ix" unfolding one_run_def by auto
    with bs False nh next_n show ?thesis
      unfolding one_run_def by (intro exI [of _ "bs @ cs"]) (auto simp: numbered_append linked_append)
  qed
qed

section \<open>Invariants of the loop\<close>

lemma index_through_confirmed:
  assumes "index_through c latestBlock = Some n"
  shows "ci_startBlock c \<le> n" "unat n + unat (ci_confirmationDepth c) = unat (ob_Number latestBlock)"
proof -
  from assms have ge: "ci_confirmationDepth c \<le> ob_Number latestBlock"
    and n: "n = ob_Number latestBlock - ci_confirmationDepth c" and "\<not> ci_startBlock c > n"
    by (auto simp: index_through_def Let_def split: if_splits)
  then show "ci_startBlock c \<le> n" by simp
  from ge n show "unat n + unat (ci_confirmationDepth c) = unat (ob_Number latestBlock)"
    by (simp add: unat_sub word_le_nat_alt)
qed

lemma RunCycle_cases:
  assumes "RunCycle c w r w'"
  obtains (idle) r0 where "ci_client c w = (r0, w')" "isl r \<or> r = Inr []"
  | (ranged) b w1 n r0 where "ci_client c w = (Inr b, w1)" "index_through c b = Some n"
      "ci_indexer c (ci_startBlock c) n w1 r0 w'" "\<And>ixs. r = Inr ixs \<Longrightarrow> r0 = Inr ixs"
  using assms by cases auto

text \<open>What a step of the loop must keep, and a relation between worlds that composes, hold for
  the whole run.\<close>

lemma run_reaches_invariant:
  assumes reaches: "run_reaches c handler env s0 s"
    and I: "I (snd s0)" and R: "\<And>w. R w w" "\<And>w w' w''. R w w' \<Longrightarrow> R w' w'' \<Longrightarrow> R w w''"
    and cycle: "\<And>w e w'. I w \<Longrightarrow> runCycleAndHandle c handler w e w' \<Longrightarrow> I w' \<and> R w w'"
    and wait: "\<And>w w'. I w \<Longrightarrow> env w w' \<Longrightarrow> I w' \<and> R w w'"
  shows "I (snd s) \<and> R (snd s0) (snd s)"
  using reaches
proof (induction rule: run_reaches.induct)
  case run_start
  show ?case using I R(1) by simp
next
  case (run_more s s')
  from run_more.hyps(2) consider e where "runCycleAndHandle c handler (snd s) e (snd s')"
    | "env (snd s) (snd s')" | "snd s' = snd s" by cases auto
  then have "I (snd s') \<and> R (snd s) (snd s')"
  proof cases
    case 1
    from cycle [OF conjunct1 [OF run_more.IH] 1] show ?thesis .
  next
    case 2
    from wait [OF conjunct1 [OF run_more.IH] 2] show ?thesis .
  next
    case 3
    show ?thesis unfolding 3 using conjunct1 [OF run_more.IH] R(1) [of "snd s"] by (rule conjI)
  qed
  with run_more.IH R(2) [of "snd s0" "snd s" "snd s'"] show ?case by simp
qed

end
