(* ===== verification/Memory_Store.thy ===== *)
theory Memory_Store
  imports Continuous_Indexer
begin

text \<open>
  \<^verbatim>\<open>MemoryCheckpointStore\<close> of \<^verbatim>\<open>internal/indexer/checkpoint.go\<close> and \<^verbatim>\<open>NoopBlockTransferStore\<close> of
  \<^verbatim>\<open>transfer_store.go\<close>. The store is mutex-protected, so each operation is one atomic
  transition; \<open>ctx_Err\<close> is what \<^verbatim>\<open>ctx.Err()\<close> returns at the call. A nil \<^verbatim>\<open>indexes\<close> map is
  \<^term>\<open>None\<close>.
\<close>

section \<open>State and operations\<close>

record MemoryCheckpointStore =
  ms_checkpoint :: BlockCheckpoint
  ms_exists :: bool
  ms_indexes :: "(u64 \<rightharpoonup> BlockTransferIndex) option"

definition zero_checkpoint :: BlockCheckpoint where
  "zero_checkpoint = \<lparr>cp_Number = 0, cp_Hash = ''''\<rparr>"

definition NewMemoryCheckpointStore :: MemoryCheckpointStore where
  "NewMemoryCheckpointStore = \<lparr>ms_checkpoint = zero_checkpoint, ms_exists = False, ms_indexes = None\<rparr>"

text \<open>Reading a nil map finds nothing; writing first makes an empty one.\<close>

definition indexes_map :: "MemoryCheckpointStore \<Rightarrow> (u64 \<rightharpoonup> BlockTransferIndex)" where
  "indexes_map s = (case ms_indexes s of None \<Rightarrow> Map.empty | Some m \<Rightarrow> m)"

definition cloneBlockTransferIndex :: "BlockTransferIndex \<Rightarrow> BlockTransferIndex" where
  "cloneBlockTransferIndex index =
     \<lparr>ix_BlockNumber = ix_BlockNumber index, ix_BlockHash = ix_BlockHash index,
      ix_ParentHash = ix_ParentHash index,
      ix_Transfers = map (\<lambda>t. case tr_Value t of None \<Rightarrow> t | Some v \<Rightarrow> t\<lparr>tr_Value := Some v\<rparr>)
        (ix_Transfers index)\<rparr>"

definition mem_Load :: "('e \<Rightarrow> go_error option) \<Rightarrow> MemoryCheckpointStore \<times> 'e \<Rightarrow>
    (go_error, BlockCheckpoint option, MemoryCheckpointStore \<times> 'e) outcome" where
  "mem_Load ctx_Err w =
     (case ctx_Err (snd w) of
        Some err \<Rightarrow> (Inl err, w)
      | None \<Rightarrow> (Inr (if ms_exists (fst w) then Some (ms_checkpoint (fst w)) else None), w))"

definition mem_Save :: "('e \<Rightarrow> go_error option) \<Rightarrow> BlockCheckpoint \<Rightarrow> MemoryCheckpointStore \<times> 'e \<Rightarrow>
    (go_error, unit, MemoryCheckpointStore \<times> 'e) outcome" where
  "mem_Save ctx_Err checkpoint w =
     (case ctx_Err (snd w) of
        Some err \<Rightarrow> (Inl err, w)
      | None \<Rightarrow> (Inr (), ((fst w)\<lparr>ms_checkpoint := checkpoint, ms_exists := True\<rparr>, snd w)))"

definition mem_SaveIndexedBlock :: "('e \<Rightarrow> go_error option) \<Rightarrow> BlockTransferIndex \<Rightarrow>
    MemoryCheckpointStore \<times> 'e \<Rightarrow> (go_error, unit, MemoryCheckpointStore \<times> 'e) outcome" where
  "mem_SaveIndexedBlock ctx_Err index w =
     (case ctx_Err (snd w) of
        Some err \<Rightarrow> (Inl err, w)
      | None \<Rightarrow>
          let storedIndex = cloneBlockTransferIndex index;
              s = fst w
          in (Inr (), (s\<lparr>ms_indexes := Some ((indexes_map s)(ix_BlockNumber index \<mapsto> storedIndex)),
                        ms_checkpoint := checkpoint_of index, ms_exists := True\<rparr>, snd w)))"

definition mem_EnsureIndexedBlock :: "('e \<Rightarrow> go_error option) \<Rightarrow> BlockCheckpoint \<Rightarrow>
    MemoryCheckpointStore \<times> 'e \<Rightarrow> (go_error, unit, MemoryCheckpointStore \<times> 'e) outcome" where
  "mem_EnsureIndexedBlock ctx_Err checkpoint w =
     (case ctx_Err (snd w) of
        Some err \<Rightarrow> (Inl err, w)
      | None \<Rightarrow>
          let s = (fst w)\<lparr>ms_indexes := Some (indexes_map (fst w))\<rparr>
          in if (case indexes_map s (cp_Number checkpoint) of
                   None \<Rightarrow> False | Some existing \<Rightarrow> ix_BlockHash existing \<noteq> cp_Hash checkpoint)
             then (Inl (Sentinel ErrChainReorg), (s, snd w))
             else (Inr (), (s\<lparr>ms_indexes := Some ((indexes_map s)(cp_Number checkpoint \<mapsto>
                     \<lparr>ix_BlockNumber = cp_Number checkpoint, ix_BlockHash = cp_Hash checkpoint,
                      ix_ParentHash = '''', ix_Transfers = []\<rparr>))\<rparr>, snd w)))"

definition mem_LoadIndexedBlockHash :: "('e \<Rightarrow> go_error option) \<Rightarrow> u64 \<Rightarrow>
    MemoryCheckpointStore \<times> 'e \<Rightarrow> (go_error, BlockHash option, MemoryCheckpointStore \<times> 'e) outcome" where
  "mem_LoadIndexedBlockHash ctx_Err blockNumber w =
     (case ctx_Err (snd w) of
        Some err \<Rightarrow> (Inl err, w)
      | None \<Rightarrow> (Inr (map_option ix_BlockHash (indexes_map (fst w) blockNumber)), w))"

definition mem_RollbackTo :: "('e \<Rightarrow> go_error option) \<Rightarrow> BlockCheckpoint \<Rightarrow>
    MemoryCheckpointStore \<times> 'e \<Rightarrow> (go_error, unit, MemoryCheckpointStore \<times> 'e) outcome" where
  "mem_RollbackTo ctx_Err checkpoint w =
     (case ctx_Err (snd w) of
        Some err \<Rightarrow> (Inl err, w)
      | None \<Rightarrow>
          let s = fst w
          in (Inr (), (s\<lparr>ms_indexes := map_option (\<lambda>m n. if n > cp_Number checkpoint then None else m n) (ms_indexes s),
                        ms_checkpoint := checkpoint, ms_exists := True\<rparr>, snd w)))"

definition noop_SaveBlock :: "('e \<Rightarrow> go_error option) \<Rightarrow> BlockTransferIndex \<Rightarrow> 'e \<Rightarrow> go_error option" where
  "noop_SaveBlock ctx_Err index e = ctx_Err e"

definition mem_persistence :: "('e \<Rightarrow> go_error option) \<Rightarrow> (MemoryCheckpointStore \<times> 'e) ReorgPersistence" where
  "mem_persistence ctx_Err =
     \<lparr>Load = mem_Load ctx_Err, SaveIndexedBlock = mem_SaveIndexedBlock ctx_Err,
      EnsureIndexedBlock = mem_EnsureIndexedBlock ctx_Err,
      LoadIndexedBlockHash = mem_LoadIndexedBlockHash ctx_Err, RollbackTo = mem_RollbackTo ctx_Err\<rparr>"

section \<open>The store implements the contracts\<close>

text \<open>The view does not account for transfers: \<^verbatim>\<open>EnsureIndexedBlock\<close> overwrites those of its block (below).\<close>

definition mem_view :: "MemoryCheckpointStore \<times> 'e \<Rightarrow> chain_view" where
  "mem_view w =
     \<lparr>cv_checkpoint = (if ms_exists (fst w) then Some (ms_checkpoint (fst w)) else None),
      cv_hashes = (\<lambda>n. map_option ix_BlockHash (indexes_map (fst w) n)), cv_transfers = None\<rparr>"

lemma cloneBlockTransferIndex_id [simp]: "cloneBlockTransferIndex index = index"
proof -
  have "(case tr_Value t of None \<Rightarrow> t | Some v \<Rightarrow> t\<lparr>tr_Value := Some v\<rparr>) = t" for t :: ERC20Transfer
    by (cases t) (simp split: option.split)
  then show ?thesis by (simp add: cloneBlockTransferIndex_def)
qed

lemma indexes_map_simps [simp]:
  "indexes_map (s\<lparr>ms_indexes := Some m\<rparr>) = m"
  "indexes_map (s\<lparr>ms_checkpoint := c\<rparr>) = indexes_map s"
  "indexes_map (s\<lparr>ms_exists := b\<rparr>) = indexes_map s"
  "indexes_map (s\<lparr>ms_indexes := map_option f (ms_indexes s)\<rparr>) =
     (case ms_indexes s of None \<Rightarrow> Map.empty | Some m \<Rightarrow> f m)"
  by (simp_all add: indexes_map_def split: option.splits)

lemmas mem_defs = mem_Load_def mem_SaveIndexedBlock_def mem_EnsureIndexedBlock_def
  mem_LoadIndexedBlockHash_def mem_RollbackTo_def

lemma mem_view_eq [view_simps]:
  "mem_view (snd (mem_Load ctx w)) = mem_view w"
  "mem_view (snd (mem_SaveIndexedBlock ctx ix w)) =
     (if ctx (snd w) = None then commit_view ix (mem_view w) else mem_view w)"
  "mem_view (snd (mem_EnsureIndexedBlock ctx cp w)) =
     (if isl (fst (mem_EnsureIndexedBlock ctx cp w)) then mem_view w else ensure_view cp (mem_view w))"
  "mem_view (snd (mem_LoadIndexedBlockHash ctx n w)) = mem_view w"
  by (auto simp: mem_defs mem_view_def commit_view_def ensure_view_def rollback_view_def Let_def
      intro!: ext split: option.splits if_splits)

lemma mem_view_RollbackTo [view_simps]:
  "mem_view (snd (mem_RollbackTo ctx cp w)) =
     (if ctx (snd w) = None then rollback_view cp (mem_view w) else mem_view w)"
  by (auto simp: mem_RollbackTo_def mem_view_def rollback_view_def Let_def indexes_map_def
      restrict_map_def not_le intro!: ext split: option.splits)

lemma mem_results:
  "fst (mem_Load ctx w) = (case ctx (snd w) of Some e \<Rightarrow> Inl e | None \<Rightarrow> Inr (cv_checkpoint (mem_view w)))"
  "fst (mem_SaveIndexedBlock ctx ix w) = (case ctx (snd w) of Some e \<Rightarrow> Inl e | None \<Rightarrow> Inr ())"
  "fst (mem_EnsureIndexedBlock ctx cp w) =
     (case ctx (snd w) of Some e \<Rightarrow> Inl e
      | None \<Rightarrow> (case cv_hashes (mem_view w) (cp_Number cp) of
           None \<Rightarrow> Inr ()
         | Some h \<Rightarrow> if h = cp_Hash cp then Inr () else Inl (Sentinel ErrChainReorg)))"
  "fst (mem_LoadIndexedBlockHash ctx n w) =
     (case ctx (snd w) of Some e \<Rightarrow> Inl e | None \<Rightarrow> Inr (cv_hashes (mem_view w) n))"
  "fst (mem_RollbackTo ctx cp w) = (case ctx (snd w) of Some e \<Rightarrow> Inl e | None \<Rightarrow> Inr ())"
  by (simp_all add: mem_defs mem_view_def Let_def split: option.splits)

lemma outcome_eq: "f = (r, w') \<longleftrightarrow> fst f = r \<and> snd f = w'"
  by (cases f) auto

interpretation mem: reorg_persistence
  "mem_Load ctx_Err" "mem_SaveIndexedBlock ctx_Err" mem_view "\<lambda>_. True"
  "mem_EnsureIndexedBlock ctx_Err" "mem_LoadIndexedBlockHash ctx_Err" "mem_RollbackTo ctx_Err"
  for ctx_Err :: "'e \<Rightarrow> go_error option"
  by unfold_locales
    (auto simp: outcome_eq mem_results view_simps split: option.splits if_splits)

lemma mem_view_on_env: "on_env f a w = (r, w') \<Longrightarrow> mem_view w' = mem_view w"
  using on_env_frame [of f a w r w'] by (simp add: mem_view_def)

interpretation mem_indexing: range_indexing
  "mem_Load ctx_Err" "mem_SaveIndexedBlock ctx_Err" mem_view "\<lambda>_. True"
  "on_env fetch" "on_env decode"
  for ctx_Err :: "'e \<Rightarrow> go_error option" and fetch and decode
  by unfold_locales (auto dest: mem_view_on_env)

interpretation mem_reconciling: reorg_reconciling
  "mem_Load ctx_Err" "mem_SaveIndexedBlock ctx_Err" mem_view "\<lambda>_. True"
  "mem_EnsureIndexedBlock ctx_Err" "mem_LoadIndexedBlockHash ctx_Err" "mem_RollbackTo ctx_Err" "on_env canonical"
  for ctx_Err :: "'e \<Rightarrow> go_error option" and canonical
  by unfold_locales (auto dest: mem_view_on_env)

section \<open>Properties\<close>

text \<open>
  What the in-memory store holds after each call. A cancelled context changes nothing and is
  the error returned. Otherwise a save puts the block, transfers included, at its height and
  makes it the checkpoint, and a rollback forgets exactly the heights above the ancestor; both
  leave every other height alone, and \<^verbatim>\<open>Load\<close> then returns the new checkpoint.
\<close>
lemma mem_store_effects:
  "case ctx_Err e of
     Some err \<Rightarrow> mem_SaveIndexedBlock ctx_Err ix (s, e) = (Inl err, (s, e)) \<and>
       mem_RollbackTo ctx_Err cp (s, e) = (Inl err, (s, e)) \<and>
       mem_EnsureIndexedBlock ctx_Err cp (s, e) = (Inl err, (s, e)) \<and>
       mem_Save ctx_Err cp (s, e) = (Inl err, (s, e))
   | None \<Rightarrow> \<exists>s1 s2. mem_SaveIndexedBlock ctx_Err ix (s, e) = (Inr (), (s1, e)) \<and>
       indexes_map s1 = (indexes_map s)(ix_BlockNumber ix \<mapsto> ix) \<and>
       mem_Load ctx_Err (s1, e) = (Inr (Some (checkpoint_of ix)), (s1, e)) \<and>
       mem_RollbackTo ctx_Err cp (s, e) = (Inr (), (s2, e)) \<and>
       indexes_map s2 = indexes_map s |` {n. n \<le> cp_Number cp} \<and>
       mem_Load ctx_Err (s2, e) = (Inr (Some cp), (s2, e))"
  by (auto simp: mem_defs mem_Save_def Let_def indexes_map_def restrict_map_def not_le intro!: ext
      split: option.splits)

text \<open>
  \<^verbatim>\<open>EnsureIndexedBlock\<close> of the in-memory store on a height it already holds under the same hash
  succeeds and overwrites the stored block: its transfers and its parent hash are lost.
\<close>
lemma mem_EnsureIndexedBlock_overwrites:
  assumes "ctx_Err e = None" and "indexes_map s (cp_Number cp) = Some ix" and "ix_BlockHash ix = cp_Hash cp"
  shows "fst (mem_EnsureIndexedBlock ctx_Err cp (s, e)) = Inr () \<and>
    indexes_map (fst (snd (mem_EnsureIndexedBlock ctx_Err cp (s, e)))) (cp_Number cp) =
      Some \<lparr>ix_BlockNumber = cp_Number cp, ix_BlockHash = ix_BlockHash ix, ix_ParentHash = '''', ix_Transfers = []\<rparr>"
  using assms by (simp add: mem_EnsureIndexedBlock_def Let_def)

definition sample_block :: BlockTransferIndex where
  "sample_block = \<lparr>ix_BlockNumber = 7, ix_BlockHash = ''h7'', ix_ParentHash = ''h6'', ix_Transfers =
     [\<lparr>tr_Token = ''T'', tr_From = ''A'', tr_To = ''B'', tr_Value = Some 5, tr_TransactionHash = ''x'', tr_LogIndex = 0\<rparr>]\<rparr>"

lemma mem_EnsureIndexedBlock_overwrites_witness:
  "let s = fst (snd (mem_SaveIndexedBlock (\<lambda>_. None) sample_block (NewMemoryCheckpointStore, ())));
       s' = fst (snd (mem_EnsureIndexedBlock (\<lambda>_. None) \<lparr>cp_Number = 7, cp_Hash = ''h7''\<rparr> (s, ())))
   in map_option ix_Transfers (indexes_map s 7) = Some (ix_Transfers sample_block) \<and>
      map_option ix_Transfers (indexes_map s' 7) = Some []"
proof -
  let ?s = "fst (snd (mem_SaveIndexedBlock (\<lambda>_. None) sample_block (NewMemoryCheckpointStore, ())))"
  let ?cp = "\<lparr>cp_Number = 7, cp_Hash = ''h7''\<rparr>"
  have found: "indexes_map ?s 7 = Some sample_block"
    by (simp add: mem_SaveIndexedBlock_def sample_block_def)
  with mem_EnsureIndexedBlock_overwrites [of "\<lambda>_. None" "()" ?s ?cp sample_block]
  show ?thesis by (simp add: sample_block_def)
qed

end
