(* ===== verification/Postgres_Database.thy ===== *)
theory Postgres_Database
  imports Domain_Types
begin

text \<open>
  The PostgreSQL schema of \<^verbatim>\<open>migrations/\<close> and the statements of \<^verbatim>\<open>internal/store\<close> as functions on
  tables. A table with a primary key that the program only looks up is a map; the transfers
  table is a list of rows in an arbitrary physical order, with pairwise different keys. The
  columns \<^verbatim>\<open>updated_at\<close>, \<^verbatim>\<open>indexed_at\<close> and \<^verbatim>\<open>created_at\<close> are never read and left out. A violated
  constraint or a value outside a column's type is an error of the statement.

  The server itself is a parameter: at every statement it may report a fault instead of
  running it, and at a commit it may also lose the acknowledgement of a transaction that was
  applied. What faults are reported, and when, is unconstrained; a fault is never
  \<^verbatim>\<open>pgx.ErrNoRows\<close>, which pgx documents as "the query returned no row".
\<close>

section \<open>Tables\<close>

record transfer_row =
  r_transaction_hash :: string
  r_log_index :: int
  r_block_number :: int
  r_block_hash :: string
  r_token_address :: string
  r_from_address :: string
  r_to_address :: string
  r_value :: int

record db =
  checkpoints :: "string \<rightharpoonup> int \<times> string"
  erc20_transfers :: "transfer_row list"
  indexed_blocks :: "int \<rightharpoonup> string \<times> string"
  token_metadata :: "string \<rightharpoonup> string \<times> string \<times> int"

definition empty_db :: db where
  "empty_db = \<lparr>checkpoints = Map.empty, erc20_transfers = [], indexed_blocks = Map.empty,
     token_metadata = Map.empty\<rparr>"

abbreviation row_key :: "transfer_row \<Rightarrow> string \<times> int" where
  "row_key r \<equiv> (r_transaction_hash r, r_log_index r)"

section \<open>The server\<close>

datatype pg_fault = FaultCanceled | FaultDeadline | FaultOther string

fun fault_error :: "pg_fault \<Rightarrow> go_error" where
  "fault_error FaultCanceled = Sentinel ContextCanceled"
| "fault_error FaultDeadline = Sentinel ContextDeadlineExceeded"
| "fault_error (FaultOther text) = Anonymous text"

datatype commit_reply = Committed | NotCommitted pg_fault | AckLost pg_fault

record 'e postgres =
  pg_begin :: "'e \<Rightarrow> pg_fault option \<times> 'e"
  pg_statement :: "'e \<Rightarrow> pg_fault option \<times> 'e"
  pg_commit :: "'e \<Rightarrow> commit_reply \<times> 'e"

text \<open>A statement inside a transaction: a fault leaves the transaction's tables alone.\<close>

definition run_statement :: "'e postgres \<Rightarrow> (db \<Rightarrow> (go_error, 'a, db) outcome) \<Rightarrow> db \<times> 'e \<Rightarrow>
    (go_error, 'a, db \<times> 'e) outcome" where
  "run_statement pg stmt w =
     (case pg_statement pg (snd w) of
        (Some f, e) \<Rightarrow> (Inl (fault_error f), (fst w, e))
      | (None, e) \<Rightarrow> (case stmt (fst w) of (r, d) \<Rightarrow> (r, (d, e))))"

text \<open>A statement on the pool commits by itself, with a commit's possible replies.\<close>

definition run_auto :: "'e postgres \<Rightarrow> (db \<Rightarrow> (go_error, 'a, db) outcome) \<Rightarrow> db \<times> 'e \<Rightarrow>
    (go_error, 'a, db \<times> 'e) outcome" where
  "run_auto pg stmt w =
     (case stmt (fst w) of
        (Inl err, _) \<Rightarrow> (case pg_statement pg (snd w) of
             (Some f, e) \<Rightarrow> (Inl (fault_error f), (fst w, e)) | (None, e) \<Rightarrow> (Inl err, (fst w, e)))
      | (Inr x, d) \<Rightarrow> (case pg_commit pg (snd w) of
             (Committed, e) \<Rightarrow> (Inr x, (d, e))
           | (NotCommitted f, e) \<Rightarrow> (Inl (fault_error f), (fst w, e))
           | (AckLost f, e) \<Rightarrow> (Inl (fault_error f), (d, e))))"

text \<open>\<^verbatim>\<open>tx.Commit\<close> publishes the transaction's tables; an unsuccessful commit is followed by the
  deferred rollback, which changes nothing.\<close>

definition commit_tx :: "'e postgres \<Rightarrow> string \<Rightarrow> db \<Rightarrow> db \<times> 'e \<Rightarrow> (go_error, unit, db \<times> 'e) outcome" where
  "commit_tx pg what before w =
     (case pg_commit pg (snd w) of
        (Committed, e) \<Rightarrow> (Inr (), (fst w, e))
      | (NotCommitted f, e) \<Rightarrow> (Inl (Wrapf what (fault_error f)), (before, e))
      | (AckLost f, e) \<Rightarrow> (Inl (Wrapf what (fault_error f)), (fst w, e)))"

section \<open>Statements\<close>

definition sql_select_checkpoint :: "string \<Rightarrow> db \<Rightarrow> (go_error, int \<times> string, db) outcome" where
  "sql_select_checkpoint name d =
     (case checkpoints d name of None \<Rightarrow> (Inl (Sentinel PgxErrNoRows), d) | Some row \<Rightarrow> (Inr row, d))"

definition sql_upsert_checkpoint :: "string \<Rightarrow> int \<Rightarrow> string \<Rightarrow> db \<Rightarrow> (go_error, unit, db) outcome" where
  "sql_upsert_checkpoint name block_number block_hash d =
     (Inr (), d\<lparr>checkpoints := (checkpoints d)(name \<mapsto> (block_number, block_hash))\<rparr>)"

definition sql_insert_transfer :: "transfer_row \<Rightarrow> db \<Rightarrow> (go_error, unit, db) outcome" where
  "sql_insert_transfer row d =
     (if \<not> (- (2 ^ 31) \<le> r_log_index row \<and> r_log_index row < 2 ^ 31) then
        (Inl (Anonymous ''log_index is out of range for INTEGER''), d)
      else if \<not> \<bar>r_value row\<bar> < 10 ^ 78 then (Inl (Anonymous ''numeric field overflow''), d)
      else if row_key row \<in> row_key ` set (erc20_transfers d) then (Inr (), d)
      else (Inr (), d\<lparr>erc20_transfers := erc20_transfers d @ [row]\<rparr>))"

text \<open>\<^verbatim>\<open>INSERT ... ON CONFLICT DO UPDATE ... WHERE hash matches RETURNING block_hash\<close>: a conflicting
  hash updates nothing and returns no row.\<close>

definition sql_record_block :: "int \<Rightarrow> string \<Rightarrow> string \<Rightarrow> db \<Rightarrow> (go_error, string, db) outcome" where
  "sql_record_block block_number block_hash parent_hash d =
     (if block_number < 0 then (Inl (Anonymous ''violates check constraint block_number >= 0''), d)
      else (case indexed_blocks d block_number of
         None \<Rightarrow> (Inr block_hash,
            d\<lparr>indexed_blocks := (indexed_blocks d)(block_number \<mapsto> (block_hash, parent_hash))\<rparr>)
       | Some (stored, parent) \<Rightarrow>
           if stored = block_hash then (Inr stored,
             d\<lparr>indexed_blocks := (indexed_blocks d)(block_number \<mapsto>
                  (stored, if parent = '''' then parent_hash else parent))\<rparr>)
           else (Inl (Sentinel PgxErrNoRows), d)))"

definition sql_select_block_hash :: "int \<Rightarrow> db \<Rightarrow> (go_error, string, db) outcome" where
  "sql_select_block_hash block_number d =
     (case indexed_blocks d block_number of
        None \<Rightarrow> (Inl (Sentinel PgxErrNoRows), d) | Some (block_hash, _) \<Rightarrow> (Inr block_hash, d))"

definition sql_delete_transfers_above :: "int \<Rightarrow> db \<Rightarrow> (go_error, unit, db) outcome" where
  "sql_delete_transfers_above n d =
     (Inr (), d\<lparr>erc20_transfers := filter (\<lambda>r. \<not> r_block_number r > n) (erc20_transfers d)\<rparr>)"

definition sql_delete_blocks_above :: "int \<Rightarrow> db \<Rightarrow> (go_error, unit, db) outcome" where
  "sql_delete_blocks_above n d =
     (Inr (), d\<lparr>indexed_blocks := (\<lambda>k. if k > n then None else indexed_blocks d k)\<rparr>)"

section \<open>Table invariant\<close>

text \<open>What the schema and the program's own guards keep true of the tables.\<close>

definition db_ok :: "db \<Rightarrow> bool" where
  "db_ok d \<longleftrightarrow>
     (\<forall>name n h. checkpoints d name = Some (n, h) \<longrightarrow> 0 \<le> n \<and> n < 2 ^ 63) \<and>
     (\<forall>n \<in> dom (indexed_blocks d). 0 \<le> n \<and> n < 2 ^ 63) \<and>
     distinct (map row_key (erc20_transfers d)) \<and>
     (\<forall>r \<in> set (erc20_transfers d). 0 \<le> r_block_number r \<and> r_block_number r < 2 ^ 63 \<and>
        - (2 ^ 31) \<le> r_log_index r \<and> r_log_index r < 2 ^ 31 \<and> \<bar>r_value r\<bar> < 10 ^ 78)"

lemma db_ok_empty: "db_ok empty_db"
  by (simp add: db_ok_def empty_db_def)

lemma db_ok_no_negative: "db_ok d \<Longrightarrow> k < 0 \<Longrightarrow> indexed_blocks d k = None"
  unfolding db_ok_def by (meson domI not_less option.exhaust_sel)

lemma db_ok_checkpoint: "db_ok d \<Longrightarrow> checkpoints d name = Some (n, h) \<Longrightarrow> 0 \<le> n \<and> n < 2 ^ 63"
  unfolding db_ok_def by blast

lemma fault_error_not_NoRows [simp]: "\<not> errors_is (fault_error f) PgxErrNoRows"
  by (cases f) auto

lemma db_ok_upsert_checkpoint:
  "db_ok d \<Longrightarrow> 0 \<le> n \<Longrightarrow> n < 2 ^ 63 \<Longrightarrow> db_ok (snd (sql_upsert_checkpoint name n h d))"
  by (auto simp: db_ok_def sql_upsert_checkpoint_def)

lemma db_ok_record_block:
  "db_ok d \<Longrightarrow> n < 2 ^ 63 \<Longrightarrow> db_ok (snd (sql_record_block n h p d))"
  by (auto simp: db_ok_def sql_record_block_def split: option.splits)

lemma db_ok_insert_transfer:
  "db_ok d \<Longrightarrow> 0 \<le> r_block_number row \<Longrightarrow> r_block_number row < 2 ^ 63 \<Longrightarrow>
   db_ok (snd (sql_insert_transfer row d))"
  by (auto simp: db_ok_def sql_insert_transfer_def)

lemma db_ok_delete:
  "db_ok d \<Longrightarrow> db_ok (snd (sql_delete_transfers_above n d))"
  "db_ok d \<Longrightarrow> db_ok (snd (sql_delete_blocks_above n d))"
  by (auto simp: db_ok_def sql_delete_transfers_above_def sql_delete_blocks_above_def distinct_map_filter
      split: if_splits)

lemma run_statement_cases:
  assumes "run_statement pg stmt w = (r, w')"
  obtains (fault) f e where "r = Inl (fault_error f)" "w' = (fst w, e)"
    | (ran) e where "r = fst (stmt (fst w))" "w' = (snd (stmt (fst w)), e)"
  using assms by (auto simp: run_statement_def split: prod.splits option.splits)

lemma run_auto_cases:
  assumes "run_auto pg stmt w = (r, w')"
  obtains (failed) err e where "r = Inl err" "w' = (fst w, e)"
      "(\<exists>f. err = fault_error f) \<or> fst (stmt (fst w)) = Inl err"
    | (lost) x f e where "r = Inl (fault_error f)" "fst (stmt (fst w)) = Inr x" "w' = (snd (stmt (fst w)), e)"
    | (ran) x e where "r = Inr x" "fst (stmt (fst w)) = Inr x" "w' = (snd (stmt (fst w)), e)"
  using assms
  by (auto simp: run_auto_def split: prod.splits option.splits sum.splits commit_reply.splits)

end
