(* ===== verification/Token_Metadata.thy ===== *)
theory Token_Metadata
  imports Postgres_Database
begin

text \<open>
  Token metadata: \<^verbatim>\<open>TokenMetadataService\<close> of \<^verbatim>\<open>internal/metadata\<close>, a cache in front of a store in
  front of a fetcher, and \<^verbatim>\<open>PostgresTokenMetadataStore\<close> of \<^verbatim>\<open>internal/store\<close>. The service is stated
  against the interface of a store; the PostgreSQL store is an interpretation of it. Here a request runs
  alone; \<^verbatim>\<open>Metadata_Requests\<close> interleaves requests.
\<close>

section \<open>Interfaces\<close>

record 'w TokenMetadataStore =
  LoadTokenMetadata :: "Address \<Rightarrow> 'w \<Rightarrow> (go_error, TokenMetadata option, 'w) outcome"
  SaveTokenMetadata :: "TokenMetadata \<Rightarrow> 'w \<Rightarrow> (go_error, unit, 'w) outcome"

section \<open>The service\<close>

record 'w TokenMetadataService =
  tms_fetcher :: "Address \<Rightarrow> 'w \<Rightarrow> (go_error, TokenMetadata, 'w) outcome"
  tms_store :: "'w TokenMetadataStore"

type_synonym metadata_cache = "string \<rightharpoonup> TokenMetadata"

definition NewTokenMetadataService :: "(Address \<Rightarrow> 'w \<Rightarrow> (go_error, TokenMetadata, 'w) outcome) \<Rightarrow> 'w TokenMetadataStore \<Rightarrow>
    'w TokenMetadataService \<times> metadata_cache" where
  "NewTokenMetadataService fetcher store = (\<lparr>tms_fetcher = fetcher, tms_store = store\<rparr>, Map.empty)"

definition cacheMetadata :: "string \<Rightarrow> TokenMetadata \<Rightarrow> metadata_cache \<Rightarrow> metadata_cache" where
  "cacheMetadata key metadata cache = cache(key \<mapsto> metadata)"

definition GetTokenMetadata :: "'w TokenMetadataService \<Rightarrow> Address \<Rightarrow> metadata_cache \<times> 'w \<Rightarrow>
    (go_error, TokenMetadata, metadata_cache \<times> 'w) outcome" where
  "GetTokenMetadata s address cw =
     (let key = ToLower address in
      case cw of (cache, w) \<Rightarrow>
        (case cache key of
           Some metadata \<Rightarrow> (Inr metadata, cw)
         | None \<Rightarrow>
             (case LoadTokenMetadata (tms_store s) address w of
                (Inl err, w1) \<Rightarrow>
                  (Inl (NewDomainError (Some (Sentinel ErrMetadata)) ''load cached token metadata'' (Some err)), (cache, w1))
              | (Inr (Some metadata), w1) \<Rightarrow> (Inr metadata, (cacheMetadata key metadata cache, w1))
              | (Inr None, w1) \<Rightarrow>
                  (case tms_fetcher s address w1 of
                     (Inl err, w2) \<Rightarrow>
                       (Inl (NewDomainError (Some (Sentinel ErrMetadata)) ''fetch token metadata'' (Some err)), (cache, w2))
                   | (Inr metadata, w2) \<Rightarrow>
                       (case SaveTokenMetadata (tms_store s) metadata w2 of
                          (Inl err, w3) \<Rightarrow>
                            (Inl (NewDomainError (Some (Sentinel ErrMetadata)) ''persist token metadata'' (Some err)), (cache, w3))
                        | (Inr _, w3) \<Rightarrow> (Inr metadata, (cacheMetadata key metadata cache, w3)))))))"

section \<open>The PostgreSQL store\<close>

definition normalizeMetadataAddress :: "Address \<Rightarrow> string" where
  "normalizeMetadataAddress address = ToLower address"

definition sql_select_metadata :: "string \<Rightarrow> db \<Rightarrow> (go_error, string \<times> string \<times> int, db) outcome" where
  "sql_select_metadata key d =
     (case token_metadata d key of None \<Rightarrow> (Inl (Sentinel PgxErrNoRows), d) | Some row \<Rightarrow> (Inr row, d))"

definition sql_upsert_metadata :: "string \<Rightarrow> string \<Rightarrow> string \<Rightarrow> int \<Rightarrow> db \<Rightarrow> (go_error, unit, db) outcome" where
  "sql_upsert_metadata key name symbol decimals d =
     (if \<not> (0 \<le> decimals \<and> decimals \<le> 255) then (Inl (Anonymous ''violates check constraint on decimals''), d)
      else (Inr (), d\<lparr>token_metadata := (token_metadata d)(key \<mapsto> (name, symbol, decimals))\<rparr>))"

definition pg_LoadTokenMetadata :: "'e postgres \<Rightarrow> Address \<Rightarrow> db \<times> 'e \<Rightarrow> (go_error, TokenMetadata option, db \<times> 'e) outcome" where
  "pg_LoadTokenMetadata pool address w =
     (let (r, w') = run_statement pool (sql_select_metadata (normalizeMetadataAddress address)) w
      in (classified ErrDatabase ''load token metadata''
           (case r of
              Inl err \<Rightarrow>
                if errors_is err PgxErrNoRows then Inr None
                else Inl (Wrapf ''failed to load token metadata'' err)
            | Inr (name, symbol, decimals) \<Rightarrow>
                if decimals < 0 \<or> decimals > 255 then
                  Inl (Anonymous (''invalid token decimals '' @ show_int decimals))
                else Inr (Some \<lparr>md_Address = address, md_Name = name, md_Symbol = symbol,
                                md_Decimals = word_of_int decimals\<rparr>)), w'))"

definition pg_SaveTokenMetadata :: "'e postgres \<Rightarrow> TokenMetadata \<Rightarrow> db \<times> 'e \<Rightarrow> (go_error, unit, db \<times> 'e) outcome" where
  "pg_SaveTokenMetadata pool metadata w =
     (case run_auto pool (sql_upsert_metadata (normalizeMetadataAddress (md_Address metadata)) (md_Name metadata)
             (md_Symbol metadata) (uint (md_Decimals metadata))) w of
        (Inl err, w') \<Rightarrow>
          (classified ErrDatabase ''save token metadata'' (Inl (Wrapf ''failed to save token metadata'' err)), w')
      | (Inr u, w') \<Rightarrow> (Inr u, w'))"

section \<open>The contract of a metadata store\<close>

text \<open>What a store holds per lower-case address: name, symbol, decimals.\<close>

type_synonym metadata_view = "string \<rightharpoonup> string \<times> string \<times> u8"

definition content :: "TokenMetadata \<Rightarrow> string \<times> string \<times> u8" where
  "content m = (md_Name m, md_Symbol m, md_Decimals m)"

definition put_view :: "TokenMetadata \<Rightarrow> metadata_view \<Rightarrow> metadata_view" where
  "put_view m v = v(ToLower (md_Address m) \<mapsto> content m)"

definition metadata_at :: "Address \<Rightarrow> string \<times> string \<times> u8 \<Rightarrow> TokenMetadata" where
  "metadata_at a c = \<lparr>md_Address = a, md_Name = fst c, md_Symbol = fst (snd c), md_Decimals = snd (snd c)\<rparr>"

lemma content_metadata_at [simp]: "content (metadata_at a c) = c"
  by (simp add: content_def metadata_at_def)

locale metadata_store =
  fixes load :: "Address \<Rightarrow> 'w \<Rightarrow> (go_error, TokenMetadata option, 'w) outcome"
    and save :: "TokenMetadata \<Rightarrow> 'w \<Rightarrow> (go_error, unit, 'w) outcome"
    and view :: "'w \<Rightarrow> metadata_view"
  assumes load_frame: "load a w = (r, w') \<Longrightarrow> view w' = view w"
    and load_value: "load a w = (Inr found, w') \<Longrightarrow> found = map_option (metadata_at a) (view w (ToLower a))"
    and save_ok: "save m w = (Inr u, w') \<Longrightarrow> view w' = put_view m (view w)"
    and save_error: "save m w = (Inl e, w') \<Longrightarrow> view w' = view w \<or> view w' = put_view m (view w)"
begin

abbreviation service :: "(Address \<Rightarrow> 'w \<Rightarrow> (go_error, TokenMetadata, 'w) outcome) \<Rightarrow> 'w TokenMetadataService" where
  "service fetch \<equiv> fst (NewTokenMetadataService fetch \<lparr>LoadTokenMetadata = load, SaveTokenMetadata = save\<rparr>)"

text \<open>Every cached entry is what the store holds.\<close>

definition coherent :: "metadata_cache \<times> 'w \<Rightarrow> bool" where
  "coherent cw \<longleftrightarrow> (\<forall>k m. fst cw k = Some m \<longrightarrow> view (snd cw) k = Some (content m))"

lemma GetTokenMetadata_coherent:
  assumes frame: "\<And>a w r w'. fetch a w = (r, w') \<Longrightarrow> view w' = view w"
    and address: "\<And>w m w'. fetch a w = (Inr m, w') \<Longrightarrow> ToLower (md_Address m) = ToLower a"
    and "coherent (c, w)" "GetTokenMetadata (service fetch) a (c, w) = (r, (c', w'))"
  shows "coherent (c', w') \<and> (\<forall>m. r = Inr m \<longrightarrow> c' = c(ToLower a \<mapsto> m)) \<and> (isl r \<longrightarrow> c' = c)"
proof (cases "c (ToLower a)")
  case (Some m)
  with assms(3,4) show ?thesis by (auto simp: GetTokenMetadata_def Let_def)
next
  case None
  obtain rl w1 where l: "load a w = (rl, w1)" by force
  note w1 = load_frame [OF l]
  consider (bad) e where "rl = Inl e" | (hit) m where "rl = Inr (Some m)" | (miss) "rl = Inr None"
    by (cases rl) auto
  then show ?thesis
  proof cases
    case bad
    with assms(3,4) None l w1 show ?thesis
      by (auto simp: GetTokenMetadata_def NewTokenMetadataService_def coherent_def)
  next
    case (hit m)
    from load_value [OF l [unfolded hit]] have "view w (ToLower a) = Some (content m)"
      by (cases "view w (ToLower a)") auto
    with assms(3,4) None l hit w1 show ?thesis
      by (auto simp: GetTokenMetadata_def NewTokenMetadataService_def cacheMetadata_def coherent_def split: if_splits)
  next
    case miss
    obtain rf w2 where f: "fetch a w1 = (rf, w2)" by force
    show ?thesis
    proof (cases rf)
      case (Inl e)
      with assms(3,4) None l miss f w1 frame [OF f] show ?thesis
        by (auto simp: GetTokenMetadata_def NewTokenMetadataService_def coherent_def)
    next
      case (Inr m)
      obtain rs w3 where s: "save m w2 = (rs, w3)" by force
      from address f Inr have "ToLower (md_Address m) = ToLower a" by blast
      with assms(3,4) None l miss f Inr s w1 frame [OF f] save_ok [of m w2 "()" w3] save_error [of m w2 _ w3] show ?thesis
        by (cases rs) (auto simp: GetTokenMetadata_def NewTokenMetadataService_def cacheMetadata_def coherent_def
            put_view_def split: if_splits)
    qed
  qed
qed

end

text \<open>After a success every further request for the address, in any letter case and whatever has happened
  to the store or the node meanwhile, is answered from the cache.\<close>

lemma GetTokenMetadata_memo:
  assumes "GetTokenMetadata s a (c, w) = (Inr m, (c', w'))" "ToLower b = ToLower a"
  shows "GetTokenMetadata s b (c', w'') = (Inr m, (c', w''))"
proof -
  have "c' (ToLower a) = Some m"
    using assms(1)
    by (auto simp: GetTokenMetadata_def cacheMetadata_def Let_def split: option.splits prod.splits sum.splits)
  with assms(2) show ?thesis by (simp add: GetTokenMetadata_def)
qed

section \<open>The PostgreSQL store implements the contract\<close>

definition metadata_view_of :: "db \<times> 'e \<Rightarrow> metadata_view" where
  "metadata_view_of w = (\<lambda>k. map_option (\<lambda>(n, s, d). (n, s, word_of_int d)) (token_metadata (fst w) k))"

lemma pg_SaveTokenMetadata_cases:
  assumes "pg_SaveTokenMetadata pool m w = (r, w')"
  shows "(isl r \<and> metadata_view_of w' = metadata_view_of w) \<or> metadata_view_of w' = put_view m (metadata_view_of w)"
proof -
  let ?stmt = "sql_upsert_metadata (normalizeMetadataAddress (md_Address m)) (md_Name m) (md_Symbol m) (uint (md_Decimals m))"
  have range: "0 \<le> uint (md_Decimals m)" "uint (md_Decimals m) \<le> 255"
    using uint_range_size [of "md_Decimals m"] by (simp_all add: word_size)
  from assms obtain r0 where au: "run_auto pool ?stmt w = (r0, w')" and "isl r = isl r0"
    by (auto simp: pg_SaveTokenMetadata_def split: prod.splits sum.splits)
  have put: "metadata_view_of (snd (?stmt (fst w)), e) = put_view m (metadata_view_of w)" for e :: 'b
    using range by (auto simp: sql_upsert_metadata_def metadata_view_of_def put_view_def content_def
        normalizeMetadataAddress_def intro!: ext)
  from au show ?thesis
    by (cases rule: run_auto_cases) (use put \<open>isl r = isl r0\<close> in \<open>auto simp: metadata_view_of_def\<close>)
qed

lemma pg_LoadTokenMetadata_frame: "pg_LoadTokenMetadata pool a w = (r, w') \<Longrightarrow> fst w' = fst w"
  by (auto simp: pg_LoadTokenMetadata_def sql_select_metadata_def split: prod.splits option.splits
      elim!: run_statement_cases)

lemma pg_LoadTokenMetadata_value:
  assumes "pg_LoadTokenMetadata pool a w = (Inr found, w')"
  shows "found = map_option (metadata_at a) (metadata_view_of w (ToLower a))"
proof -
  from assms obtain r where
    st: "run_statement pool (sql_select_metadata (ToLower a)) w = (r, w')"
    by (auto simp: pg_LoadTokenMetadata_def normalizeMetadataAddress_def split: prod.splits)
  then show ?thesis
    using assms
    by (cases rule: run_statement_cases)
      (auto simp: st pg_LoadTokenMetadata_def sql_select_metadata_def metadata_view_of_def metadata_at_def
        normalizeMetadataAddress_def split: option.splits if_splits)
qed

interpretation pg_metadata: metadata_store "pg_LoadTokenMetadata pool" "pg_SaveTokenMetadata pool" metadata_view_of
  for pool :: "'e postgres"
proof (unfold_locales, goal_cases)
  case (1 a w r w')
  then show ?case by (auto dest: pg_LoadTokenMetadata_frame simp: metadata_view_of_def)
next
  case (2 a w found w')
  then show ?case by (rule pg_LoadTokenMetadata_value)
next
  case (3 m w u w')
  then show ?case using pg_SaveTokenMetadata_cases [of pool m w] by fastforce
next
  case (4 m w e w')
  then show ?case using pg_SaveTokenMetadata_cases [of pool m w] by blast
qed

section \<open>Properties\<close>

abbreviation pg_service :: "(Address \<Rightarrow> db \<times> 'e \<Rightarrow> (go_error, TokenMetadata, db \<times> 'e) outcome) \<Rightarrow> 'e postgres \<Rightarrow>
    (db \<times> 'e) TokenMetadataService" where
  "pg_service fetch pool \<equiv> fst (NewTokenMetadataService fetch
     \<lparr>LoadTokenMetadata = pg_LoadTokenMetadata pool, SaveTokenMetadata = pg_SaveTokenMetadata pool\<rparr>)"

text \<open>Every cached entry is what PostgreSQL holds under its key.\<close>

definition cache_coherent :: "metadata_cache \<Rightarrow> db \<Rightarrow> bool" where
  "cache_coherent c d \<longleftrightarrow> (\<forall>k m. c k = Some m \<longrightarrow>
     (case token_metadata d k of None \<Rightarrow> False
      | Some (name, symbol, decimals) \<Rightarrow> content m = (name, symbol, word_of_int decimals)))"

lemma cache_coherent_iff: "cache_coherent c d \<longleftrightarrow> pg_metadata.coherent (c, (d, e))"
  by (force simp: cache_coherent_def pg_metadata.coherent_def metadata_view_of_def split: option.splits)

definition metadata_server :: "'e postgres" where
  "metadata_server = \<lparr>pg_begin = (\<lambda>e. (None, e)), pg_statement = (\<lambda>e. (None, e)), pg_commit = (\<lambda>e. (Committed, e))\<rparr>"

end
