(* ===== verification/Erc20_Transfer.thy ===== *)
theory Erc20_Transfer
  imports Domain_Types
begin

text \<open>
  \<^verbatim>\<open>internal/domain/erc20_transfer.go\<close>: recognising and decoding ERC-20 transfer logs. What the
  code calls of go-ethereum is a parameter: \<^verbatim>\<open>common.HexToHash\<close> (the 32 bytes of a hexadecimal
  topic), \<^verbatim>\<open>common.BytesToAddress(b).Hex()\<close> (the checksummed text of 20 bytes) and the topic
  \<^verbatim>\<open>crypto.Keccak256Hash("Transfer(address,address,uint256)")\<close>.
\<close>

section \<open>Decoding\<close>

record eth_common =
  HexToHash :: "string \<Rightarrow> bytes"
  AddressHex :: "bytes \<Rightarrow> string"
  erc20TransferTopic :: bytes

definition ERC20TransferTopic :: "eth_common \<Rightarrow> bytes" where
  "ERC20TransferTopic eth = erc20TransferTopic eth"

definition IsERC20TransferLog :: "eth_common \<Rightarrow> ObservedLog \<Rightarrow> bool" where
  "IsERC20TransferLog eth log \<longleftrightarrow>
     (if length (log_Topics log) \<noteq> 3 then False
      else HexToHash eth (log_Topics log ! 0) = erc20TransferTopic eth)"

definition addressFromTopic :: "eth_common \<Rightarrow> string \<Rightarrow> Address" where
  "addressFromTopic eth topic = AddressHex eth (drop 12 (HexToHash eth topic))"

text \<open>\<^verbatim>\<open>big.Int.SetBytes\<close>: big-endian.\<close>

definition SetBytes :: "bytes \<Rightarrow> int" where
  "SetBytes bs = foldl (\<lambda>acc b. acc * 256 + uint b) 0 bs"

definition DecodeERC20Transfer :: "eth_common \<Rightarrow> ObservedLog \<Rightarrow> TransactionHash \<Rightarrow> go_error + ERC20Transfer" where
  "DecodeERC20Transfer eth log transactionHash =
     (if \<not> IsERC20TransferLog eth log then Inl (Sentinel ErrNotERC20Transfer)
      else if length (log_Data log) \<noteq> 32 then Inl (Sentinel ErrInvalidERC20TransferData)
      else Inr \<lparr>tr_Token = log_Address log, tr_From = addressFromTopic eth (log_Topics log ! 1),
                tr_To = addressFromTopic eth (log_Topics log ! 2), tr_Value = Some (SetBytes (log_Data log)),
                tr_TransactionHash = transactionHash, tr_LogIndex = log_Index log\<rparr>)"

section \<open>Facts about big-endian numbers\<close>

lemma SetBytes_snoc: "SetBytes (bs @ [b]) = SetBytes bs * 256 + uint b"
  by (simp add: SetBytes_def)

lemma SetBytes_range: "0 \<le> SetBytes bs \<and> SetBytes bs < 256 ^ length bs"
proof (induction bs rule: rev_induct)
  case Nil
  show ?case by (simp add: SetBytes_def)
next
  case (snoc b bs)
  have b: "0 \<le> uint b" "uint b < 256" using uint_range_size [of b] by (simp_all add: word_size)
  from snoc have "SetBytes bs \<le> 256 ^ length bs - 1" by simp
  then have "SetBytes bs * 256 \<le> (256 ^ length bs - 1) * 256" by (intro mult_right_mono) simp_all
  with snoc b show ?case unfolding SetBytes_snoc by simp
qed

text \<open>The ABI encoding of a \<^verbatim>\<open>uint256\<close>: 32 bytes, most significant first.\<close>

fun to_bytes :: "nat \<Rightarrow> int \<Rightarrow> bytes" where
  "to_bytes 0 v = []"
| "to_bytes (Suc k) v = to_bytes k (v div 256) @ [word_of_int v]"

lemma to_bytes_length [simp]: "length (to_bytes k v) = k"
  by (induction k arbitrary: v) simp_all

lemma SetBytes_to_bytes: "0 \<le> v \<Longrightarrow> v < 256 ^ k \<Longrightarrow> SetBytes (to_bytes k v) = v"
proof (induction k arbitrary: v)
  case 0
  then show ?case by (simp add: SetBytes_def)
next
  case (Suc k)
  then have "0 \<le> v div 256" "v div 256 < 256 ^ k" by (auto simp: div_less_iff_less_mult pos_imp_zdiv_nonneg_iff mult.commute)
  from Suc.IH [OF this] show ?case by (simp add: SetBytes_snoc uint_word_of_int)
qed

section \<open>Properties\<close>

lemma to_bytes_SetBytes: "to_bytes (length bs) (SetBytes bs) = bs"
proof (induction bs rule: rev_induct)
  case (snoc b bs)
  have "uint b < 256" using uint_range_size [of b] by (simp add: word_size)
  then have "SetBytes (bs @ [b]) div 256 = SetBytes bs" by (simp add: SetBytes_snoc)
  moreover have "word_of_int (SetBytes (bs @ [b])) = b"
    using \<open>uint b < 256\<close> by (intro word_uint_eqI) (simp only: SetBytes_snoc uint_word_of_int, simp)
  ultimately show ?case using snoc by simp
qed (simp add: SetBytes_def)

text \<open>
  C26. Decoding accepts exactly the logs that encode a transfer, and says why it refuses another. The log
  of a decoded transfer has three topics, of which the first is the hash of the Transfer signature and
  the others hold, in their last 20 bytes, sender and receiver; its data is the ABI encoding, 32 bytes
  with the most significant first, of the value, which is an unsigned 256-bit number and fits the 78
  decimal digits of the value column; token, log index and transaction are those of the log. A log
  with three topics of which the first is that hash is refused only for data that is not 32 bytes
  long; any other log is refused as no transfer.
\<close>
theorem DecodeERC20Transfer_cases:
  "case DecodeERC20Transfer eth log h of
     Inr t \<Rightarrow>
       (\<exists>sig sender receiver v. log_Topics log = [sig, sender, receiver] \<and> HexToHash eth sig = erc20TransferTopic eth \<and>
          0 \<le> v \<and> v < 2 ^ 256 \<and> v < 10 ^ 78 \<and> log_Data log = to_bytes 32 v \<and>
          t = \<lparr>tr_Token = log_Address log, tr_From = AddressHex eth (drop 12 (HexToHash eth sender)),
               tr_To = AddressHex eth (drop 12 (HexToHash eth receiver)), tr_Value = Some v,
               tr_TransactionHash = h, tr_LogIndex = log_Index log\<rparr>)
   | Inl e \<Rightarrow>
       if \<exists>sig sender receiver. log_Topics log = [sig, sender, receiver] \<and> HexToHash eth sig = erc20TransferTopic eth
       then length (log_Data log) \<noteq> 32 \<and> e = Sentinel ErrInvalidERC20TransferData
       else e = Sentinel ErrNotERC20Transfer"
proof -
  have is_log: "IsERC20TransferLog eth log \<longleftrightarrow>
      (\<exists>sig sender receiver. log_Topics log = [sig, sender, receiver] \<and> HexToHash eth sig = erc20TransferTopic eth)"
    by (auto simp: IsERC20TransferLog_def length_Suc_conv numeral_3_eq_3)
  show ?thesis
  proof (cases "IsERC20TransferLog eth log \<and> length (log_Data log) = 32")
    case True
    then obtain sig sender receiver where topics: "log_Topics log = [sig, sender, receiver]" "HexToHash eth sig = erc20TransferTopic eth"
      using is_log by blast
    have "(2 :: int) ^ 256 < 10 ^ 78" by simp
    moreover have "0 \<le> SetBytes (log_Data log)" "SetBytes (log_Data log) < 2 ^ 256"
      using SetBytes_range [of "log_Data log"] True by simp_all
    moreover have "log_Data log = to_bytes 32 (SetBytes (log_Data log))"
      using to_bytes_SetBytes [of "log_Data log"] True by simp
    ultimately show ?thesis
      using True topics by (simp add: DecodeERC20Transfer_def addressFromTopic_def numeral_2_eq_2 del: to_bytes.simps)
  next
    case False
    then show ?thesis unfolding is_log [symmetric] by (simp add: DecodeERC20Transfer_def)
  qed
qed

text \<open>
  C25. Decoding inverts the ABI encoding: the amount \<open>v\<close> encoded as 32 big-endian bytes is read
  back as \<open>v\<close>, and the addresses are those of the low 20 bytes of the topics.
\<close>
theorem DecodeERC20Transfer_roundtrip:
  assumes "0 \<le> v" and "v < 2 ^ 256" and "HexToHash eth topic = erc20TransferTopic eth"
    and "HexToHash eth fromTopic = replicate 12 0 @ from" and "HexToHash eth toTopic = replicate 12 0 @ receiver"
  shows "DecodeERC20Transfer eth
      \<lparr>log_Address = token, log_Topics = [topic, fromTopic, toTopic], log_Data = to_bytes 32 v, log_Index = i,
       log_TransactionHash = h, log_BlockNumber = n, log_Removed = removed\<rparr> h =
    Inr \<lparr>tr_Token = token, tr_From = AddressHex eth from, tr_To = AddressHex eth receiver, tr_Value = Some v,
         tr_TransactionHash = h, tr_LogIndex = i\<rparr>"
proof -
  have "SetBytes (to_bytes 32 v) = v" using assms(1,2) by (intro SetBytes_to_bytes) simp_all
  with assms(3-5) show ?thesis
    by (simp add: DecodeERC20Transfer_def IsERC20TransferLog_def addressFromTopic_def numeral_2_eq_2)
qed

definition sample_eth :: eth_common where
  "sample_eth = \<lparr>HexToHash = (\<lambda>t. if t = ''a'' then replicate 12 0 @ replicate 20 1 else replicate 32 7),
     AddressHex = (\<lambda>b. if b = replicate 20 1 then ''0x01'' else ''0x07''), erc20TransferTopic = replicate 32 7\<rparr>"

theorem DecodeERC20Transfer_roundtrip_witness:
  "DecodeERC20Transfer sample_eth
      \<lparr>log_Address = ''T'', log_Topics = [''t'', ''a'', ''a''], log_Data = to_bytes 32 1000, log_Index = 3,
       log_TransactionHash = ''x'', log_BlockNumber = 9, log_Removed = False\<rparr> ''x'' =
    Inr \<lparr>tr_Token = ''T'', tr_From = ''0x01'', tr_To = ''0x01'', tr_Value = Some 1000,
         tr_TransactionHash = ''x'', tr_LogIndex = 3\<rparr>"
  using DecodeERC20Transfer_roundtrip [of 1000 sample_eth "''t''" "''a''" "replicate 20 1" "''a''" "replicate 20 1"
      "''T''" 3 "''x''" 9 False]
  by (simp add: sample_eth_def)

end
