(* ===== verification/Ethereum_Client.thy ===== *)
theory Ethereum_Client
  imports Blockchain_Ledger Erc20_Transfer
begin

text \<open>
  \<^verbatim>\<open>EthereumClient\<close> of \<^verbatim>\<open>internal/ethereum\<close> (\<^verbatim>\<open>ethereum_client.go\<close>, \<^verbatim>\<open>ethereum_metadata.go\<close>): the
  translation of go-ethereum's headers, blocks, receipts and logs into the domain types, and the
  ERC-20 metadata calls. go-ethereum itself is a parameter: the remote procedures of
  \<^verbatim>\<open>ethclient.Client\<close> as operations on a world, the text of hashes and addresses, the ABI codec. Its
  data types are records of what the code reads of them.
\<close>

section \<open>What the code uses of go-ethereum\<close>

record eth_codec = eth_common +
  HashHex :: "bytes \<Rightarrow> string"
  HexToAddress :: "string \<Rightarrow> bytes"
  IsHexAddress :: "string \<Rightarrow> bool"

record eth_header =
  eh_Number :: int
  eh_Hash :: bytes
  eh_Time :: u64

record eth_transaction =
  et_Hash :: bytes
  et_To :: "bytes option"
  et_Value :: int
  et_Nonce :: u64
  et_Gas :: u64
  et_Type :: u8

record eth_block =
  eb_NumberU64 :: u64
  eb_Hash :: bytes
  eb_ParentHash :: bytes
  eb_Time :: u64
  eb_Transactions :: "eth_transaction list"

record eth_log =
  el_Address :: bytes
  el_Topics :: "bytes list"
  el_Data :: bytes
  el_Index :: u64
  el_TxHash :: bytes
  el_BlockNumber :: u64
  el_Removed :: bool

record eth_receipt =
  er_TxHash :: bytes
  er_Status :: u64
  er_GasUsed :: u64
  er_EffectiveGasPrice :: "int option"
  er_ContractAddress :: bytes
  er_Logs :: "eth_log list"

record FilterQuery =
  fq_BlockHash :: bytes
  fq_Topics :: "bytes list list"

record 'w ethclient =
  HeaderByNumber :: "int option \<Rightarrow> 'w \<Rightarrow> (go_error, eth_header, 'w) outcome"
  BlockByNumber :: "int option \<Rightarrow> 'w \<Rightarrow> (go_error, eth_block, 'w) outcome"
  TransactionReceipt :: "bytes \<Rightarrow> 'w \<Rightarrow> (go_error, eth_receipt, 'w) outcome"
  FilterLogs :: "FilterQuery \<Rightarrow> 'w \<Rightarrow> (go_error, eth_log list, 'w) outcome"
  TransactionSender :: "eth_transaction \<Rightarrow> bytes \<Rightarrow> nat \<Rightarrow> 'w \<Rightarrow> (go_error, bytes, 'w) outcome"
  CallContract :: "bytes \<Rightarrow> bytes \<Rightarrow> 'w \<Rightarrow> (go_error, bytes, 'w) outcome"

section \<open>Connection and blocks\<close>

record 'w EthereumClient =
  eth_codec_of :: eth_codec
  eth_client :: "'w ethclient"

definition NewEthereumClient :: "eth_codec \<Rightarrow> (string \<Rightarrow> 'w \<Rightarrow> (go_error, 'w ethclient, 'w) outcome) \<Rightarrow> string \<Rightarrow> 'w \<Rightarrow>
    (go_error, 'w EthereumClient, 'w) outcome" where
  "NewEthereumClient codec DialContext rpcURL w =
     (case DialContext rpcURL w of
        (Inl err, w1) \<Rightarrow> (Inl (NewDomainError (Some (Sentinel ErrRPC)) ''connect to Ethereum RPC'' (Some err)), w1)
      | (Inr client, w1) \<Rightarrow> (Inr \<lparr>eth_codec_of = codec, eth_client = client\<rparr>, w1))"

text \<open>A method that defers \<^verbatim>\<open>ClassifyError\<close> with the RPC category.\<close>

definition rpc_classified :: "string \<Rightarrow> (go_error, 'a, 'w) outcome \<Rightarrow> (go_error, 'a, 'w) outcome" where
  "rpc_classified operation out = (case out of (r, w) \<Rightarrow> (classified ErrRPC operation r, w))"

definition eth_GetLatestBlock :: "'w EthereumClient \<Rightarrow> 'w \<Rightarrow> (go_error, Block, 'w) outcome" where
  "eth_GetLatestBlock e w =
     rpc_classified ''fetch latest Ethereum block''
       (case HeaderByNumber (eth_client e) None w of
          (Inl err, w1) \<Rightarrow> (Inl (Wrapf ''failed to fetch latest ethereum header'' err), w1)
        | (Inr header, w1) \<Rightarrow>
            (Inr \<lparr>blk_Number = uint64_of (eh_Number header), blk_Hash = HashHex (eth_codec_of e) (eh_Hash header),
                  blk_Transactions = [], blk_Timestamp = eh_Time header\<rparr>, w1))"

text \<open>The loop over the block's transactions: \<open>index\<close> is the position of the next one.\<close>

fun observed_transactions :: "'w EthereumClient \<Rightarrow> eth_block \<Rightarrow> nat \<Rightarrow> eth_transaction list \<Rightarrow>
    ObservedTransaction list \<Rightarrow> 'w \<Rightarrow> (go_error, ObservedTransaction list, 'w) outcome" where
  "observed_transactions e block index [] transactions w = (Inr transactions, w)"
| "observed_transactions e block index (tx # txs) transactions w =
     (case TransactionSender (eth_client e) tx (eb_Hash block) index w of
        (Inl err, w1) \<Rightarrow>
          (Inl (Wrapf (''failed to recover sender for transaction '' @ HashHex (eth_codec_of e) (et_Hash tx)) err), w1)
      | (Inr sender, w1) \<Rightarrow>
          observed_transactions e block (index + 1) txs
            (transactions @
              [\<lparr>otx_Hash = HashHex (eth_codec_of e) (et_Hash tx), otx_From = AddressHex (eth_codec_of e) sender,
                otx_To = map_option (AddressHex (eth_codec_of e)) (et_To tx), otx_ValueWei = Some (et_Value tx),
                otx_Nonce = et_Nonce tx, otx_GasLimit = et_Gas tx, otx_Type = et_Type tx\<rparr>]) w1)"

definition observedBlockFromEthereumBlock :: "'w EthereumClient \<Rightarrow> eth_block \<Rightarrow> 'w \<Rightarrow> (go_error, ObservedBlock, 'w) outcome" where
  "observedBlockFromEthereumBlock e block w =
     (case observed_transactions e block 0 (eb_Transactions block) [] w of
        (Inl err, w1) \<Rightarrow> (Inl err, w1)
      | (Inr transactions, w1) \<Rightarrow>
          (Inr \<lparr>ob_Number = eb_NumberU64 block, ob_Hash = HashHex (eth_codec_of e) (eb_Hash block),
                ob_ParentHash = HashHex (eth_codec_of e) (eb_ParentHash block), ob_Timestamp = eb_Time block,
                ob_Transactions = transactions\<rparr>, w1))"

definition eth_GetLatestObservedBlock :: "'w EthereumClient \<Rightarrow> 'w \<Rightarrow> (go_error, ObservedBlock, 'w) outcome" where
  "eth_GetLatestObservedBlock e w =
     rpc_classified ''fetch latest observed Ethereum block''
       (case BlockByNumber (eth_client e) None w of
          (Inl err, w1) \<Rightarrow> (Inl (Wrapf ''failed to fetch latest ethereum block'' err), w1)
        | (Inr block, w1) \<Rightarrow> observedBlockFromEthereumBlock e block w1)"

definition eth_GetObservedBlockByNumber :: "'w EthereumClient \<Rightarrow> u64 \<Rightarrow> 'w \<Rightarrow> (go_error, ObservedBlock, 'w) outcome" where
  "eth_GetObservedBlockByNumber e blockNumber w =
     rpc_classified ''fetch Ethereum block by number''
       (case BlockByNumber (eth_client e) (Some (uint blockNumber)) w of
          (Inl err, w1) \<Rightarrow> (Inl (Wrapf (''failed to fetch ethereum block '' @ show_u64 blockNumber) err), w1)
        | (Inr block, w1) \<Rightarrow> observedBlockFromEthereumBlock e block w1)"

section \<open>Logs and receipts\<close>

definition observedLogFromEthereumLog :: "eth_codec \<Rightarrow> eth_log \<Rightarrow> ObservedLog" where
  "observedLogFromEthereumLog c log =
     \<lparr>log_Address = AddressHex c (el_Address log), log_Topics = map (HashHex c) (el_Topics log), log_Data = el_Data log,
      log_Index = el_Index log, log_TransactionHash = HashHex c (el_TxHash log), log_BlockNumber = el_BlockNumber log,
      log_Removed = el_Removed log\<rparr>"

definition eth_GetTransactionReceipt :: "'w EthereumClient \<Rightarrow> TransactionHash \<Rightarrow> 'w \<Rightarrow> (go_error, ObservedReceipt, 'w) outcome" where
  "eth_GetTransactionReceipt e hash w =
     rpc_classified ''fetch Ethereum transaction receipt''
       (case TransactionReceipt (eth_client e) (HexToHash (eth_codec_of e) hash) w of
          (Inl err, w1) \<Rightarrow> (Inl (Wrapf (''failed to fetch receipt for transaction '' @ hash) err), w1)
        | (Inr receipt, w1) \<Rightarrow>
            (Inr \<lparr>rc_TransactionHash = HashHex (eth_codec_of e) (er_TxHash receipt), rc_Status = er_Status receipt,
                  rc_GasUsed = er_GasUsed receipt, rc_EffectiveGasPrice = er_EffectiveGasPrice receipt,
                  rc_ContractAddress =
                    (if er_ContractAddress receipt \<noteq> replicate 20 0
                     then Some (AddressHex (eth_codec_of e) (er_ContractAddress receipt)) else None),
                  rc_Logs = map (observedLogFromEthereumLog (eth_codec_of e)) (er_Logs receipt)\<rparr>, w1))"

text \<open>The loop over the logs of the block.\<close>

fun decode_logs :: "eth_codec \<Rightarrow> eth_log list \<Rightarrow> ERC20Transfer list \<Rightarrow> go_error + ERC20Transfer list" where
  "decode_logs c [] transfers = Inr transfers"
| "decode_logs c (ethereumLog # logs) transfers =
     (let log = observedLogFromEthereumLog c ethereumLog in
      if \<not> IsERC20TransferLog (eth_common.truncate c) log then decode_logs c logs transfers
      else
        (case DecodeERC20Transfer (eth_common.truncate c) log (log_TransactionHash log) of
           Inl err \<Rightarrow> Inl (Wrapf (''failed to decode ERC20 transfer log '' @ show_u64 (log_Index log)) err)
         | Inr transfer \<Rightarrow> decode_logs c logs (transfers @ [transfer])))"

definition eth_GetERC20TransfersByBlock :: "'w EthereumClient \<Rightarrow> ObservedBlock \<Rightarrow> 'w \<Rightarrow>
    (go_error, BlockTransferIndex, 'w) outcome" where
  "eth_GetERC20TransfersByBlock e block w =
     rpc_classified ''fetch ERC20 transfer logs''
       (case FilterLogs (eth_client e)
               \<lparr>fq_BlockHash = HexToHash (eth_codec_of e) (ob_Hash block),
                fq_Topics = [[ERC20TransferTopic (eth_common.truncate (eth_codec_of e))]]\<rparr> w of
          (Inl err, w1) \<Rightarrow> (Inl (Wrapf (''failed to fetch ERC20 transfer logs for block '' @ ob_Hash block) err), w1)
        | (Inr logs, w1) \<Rightarrow>
            (case decode_logs (eth_codec_of e) logs [] of
               Inl err \<Rightarrow> (Inl err, w1)
             | Inr transfers \<Rightarrow>
                 (Inr \<lparr>ix_BlockNumber = ob_Number block, ix_BlockHash = ob_Hash block,
                       ix_ParentHash = ob_ParentHash block, ix_Transfers = transfers\<rparr>, w1)))"

section \<open>Token metadata calls\<close>

text \<open>The text of \<^verbatim>\<open>erc20MetadataABIJSON\<close>: an empty line, then the lines with their indentation in tabs.\<close>

definition abi_line :: "nat \<Rightarrow> string \<Rightarrow> string" where
  "abi_line tabs content = replicate tabs (CHR 0x09) @ content @ [CHR 0x0A]"

definition erc20MetadataABIJSON :: string where
  \<open>erc20MetadataABIJSON = [CHR 0x0A] @ concat
     [abi_line 0 ''['',
      abi_line 1 ''{'',
      abi_line 2 ''"inputs": [],'',
      abi_line 2 ''"name": "name",'',
      abi_line 2 ''"outputs": ['',
      abi_line 3 ''{'',
      abi_line 4 ''"internalType": "string",'',
      abi_line 4 ''"name": "",'',
      abi_line 4 ''"type": "string"'',
      abi_line 3 ''}'',
      abi_line 2 ''],'',
      abi_line 2 ''"stateMutability": "view",'',
      abi_line 2 ''"type": "function"'',
      abi_line 1 ''},'',
      abi_line 1 ''{'',
      abi_line 2 ''"inputs": [],'',
      abi_line 2 ''"name": "symbol",'',
      abi_line 2 ''"outputs": ['',
      abi_line 3 ''{'',
      abi_line 4 ''"internalType": "string",'',
      abi_line 4 ''"name": "",'',
      abi_line 4 ''"type": "string"'',
      abi_line 3 ''}'',
      abi_line 2 ''],'',
      abi_line 2 ''"stateMutability": "view",'',
      abi_line 2 ''"type": "function"'',
      abi_line 1 ''},'',
      abi_line 1 ''{'',
      abi_line 2 ''"inputs": [],'',
      abi_line 2 ''"name": "decimals",'',
      abi_line 2 ''"outputs": ['',
      abi_line 3 ''{'',
      abi_line 4 ''"internalType": "uint8",'',
      abi_line 4 ''"name": "",'',
      abi_line 4 ''"type": "uint8"'',
      abi_line 3 ''}'',
      abi_line 2 ''],'',
      abi_line 2 ''"stateMutability": "view",'',
      abi_line 2 ''"type": "function"'',
      abi_line 1 ''}'',
      abi_line 0 '']'']\<close>

text \<open>What the ABI package gives: the parsed ABI packs a call and unpacks its results, which are Go
  values of any type.\<close>

datatype abi_value = AbiString string | AbiUint8 u8 | AbiOther

record contract_abi =
  abi_Pack :: "string \<Rightarrow> go_error + bytes"
  abi_Unpack :: "string \<Rightarrow> bytes \<Rightarrow> go_error + abi_value list"

text \<open>Package initialisation; a panic is the text it panics with.\<close>

definition mustParseERC20MetadataABI :: "(string \<Rightarrow> go_error + contract_abi) \<Rightarrow> string + contract_abi" where
  "mustParseERC20MetadataABI abi_JSON =
     (case abi_JSON erc20MetadataABIJSON of
        Inl err \<Rightarrow> Inl (''failed to parse ERC20 metadata ABI: '' @ error_text err)
      | Inr parsed \<Rightarrow> Inr parsed)"

definition callERC20StringMethod :: "contract_abi \<Rightarrow> 'w EthereumClient \<Rightarrow> bytes \<Rightarrow> string \<Rightarrow> 'w \<Rightarrow> (go_error, string, 'w) outcome" where
  "callERC20StringMethod abi e address method w =
     (case abi_Pack abi method of
        Inl err \<Rightarrow> (Inl (Wrapf (''failed to encode '' @ method @ '' call'') err), w)
      | Inr data \<Rightarrow>
          (case CallContract (eth_client e) address data w of
             (Inl err, w1) \<Rightarrow> (Inl (Wrapf (method @ '' eth_call failed'') err), w1)
           | (Inr result, w1) \<Rightarrow>
               (case abi_Unpack abi method result of
                  Inl err \<Rightarrow> (Inl (Wrapf (''failed to decode '' @ method @ '' result'') err), w1)
                | Inr values \<Rightarrow>
                    if length values \<noteq> 1 then
                      (Inl (Anonymous (''expected one '' @ method @ '' result, got '' @ show_nat (length values))), w1)
                    else
                      (case values ! 0 of
                         AbiString value \<Rightarrow> (Inr value, w1)
                       | _ \<Rightarrow> (Inl (Anonymous (''unexpected '' @ method @ '' result type'')), w1)))))"

definition callERC20Decimals :: "contract_abi \<Rightarrow> 'w EthereumClient \<Rightarrow> bytes \<Rightarrow> 'w \<Rightarrow> (go_error, u8, 'w) outcome" where
  "callERC20Decimals abi e address w =
     (case abi_Pack abi ''decimals'' of
        Inl err \<Rightarrow> (Inl (Wrapf ''failed to encode decimals call'' err), w)
      | Inr data \<Rightarrow>
          (case CallContract (eth_client e) address data w of
             (Inl err, w1) \<Rightarrow> (Inl (Wrapf ''decimals eth_call failed'' err), w1)
           | (Inr result, w1) \<Rightarrow>
               (case abi_Unpack abi ''decimals'' result of
                  Inl err \<Rightarrow> (Inl (Wrapf ''failed to decode decimals result'' err), w1)
                | Inr values \<Rightarrow>
                    if length values \<noteq> 1 then
                      (Inl (Anonymous (''expected one decimals result, got '' @ show_nat (length values))), w1)
                    else
                      (case values ! 0 of
                         AbiUint8 decimals \<Rightarrow> (Inr decimals, w1)
                       | _ \<Rightarrow> (Inl (Anonymous ''unexpected decimals result type''), w1)))))"

definition eth_FetchTokenMetadata :: "contract_abi \<Rightarrow> 'w EthereumClient \<Rightarrow> Address \<Rightarrow> 'w \<Rightarrow> (go_error, TokenMetadata, 'w) outcome" where
  "eth_FetchTokenMetadata abi e address w =
     (if \<not> IsHexAddress (eth_codec_of e) address then (Inl (Sentinel ErrInvalidTokenAddress), w)
      else
        rpc_classified ''fetch ERC20 token metadata''
          (let tokenAddress = HexToAddress (eth_codec_of e) address in
           case callERC20StringMethod abi e tokenAddress ''name'' w of
             (Inl err, w1) \<Rightarrow> (Inl (Wrapf ''failed to fetch token name'' err), w1)
           | (Inr name, w1) \<Rightarrow>
               (case callERC20StringMethod abi e tokenAddress ''symbol'' w1 of
                  (Inl err, w2) \<Rightarrow> (Inl (Wrapf ''failed to fetch token symbol'' err), w2)
                | (Inr symbol, w2) \<Rightarrow>
                    (case callERC20Decimals abi e tokenAddress w2 of
                       (Inl err, w3) \<Rightarrow> (Inl (Wrapf ''failed to fetch token decimals'' err), w3)
                     | (Inr decimals, w3) \<Rightarrow>
                         (Inr \<lparr>md_Address = AddressHex (eth_codec_of e) tokenAddress, md_Name = name,
                               md_Symbol = symbol, md_Decimals = decimals\<rparr>, w3)))))"

section \<open>Properties\<close>

lemma rpc_classified_Inr: "rpc_classified operation out = (Inr x, w) \<longleftrightarrow> out = (Inr x, w)"
  by (cases out) (auto simp: rpc_classified_def)

lemma rpc_classified_Inl: "rpc_classified operation out = (Inl err, w) \<Longrightarrow> errors_is err ErrRPC"
  by (cases out) (auto simp: rpc_classified_def dest: classified_category)

lemma rpc_classified_keeps:
  "rpc_classified operation (Inl err, w) = (Inl err', w') \<Longrightarrow> errors_is err t \<Longrightarrow> errors_is err' t"
  by (auto simp: rpc_classified_def dest: classified_keeps)

text \<open>The translation of one transaction, given its sender.\<close>

definition observed_transaction :: "eth_codec \<Rightarrow> eth_transaction \<Rightarrow> bytes \<Rightarrow> ObservedTransaction" where
  "observed_transaction c tx sender =
     \<lparr>otx_Hash = HashHex c (et_Hash tx), otx_From = AddressHex c sender, otx_To = map_option (AddressHex c) (et_To tx),
      otx_ValueWei = Some (et_Value tx), otx_Nonce = et_Nonce tx, otx_GasLimit = et_Gas tx, otx_Type = et_Type tx\<rparr>"

lemma observed_transactions_ok:
  "observed_transactions e block i txs acc w = (Inr out, w') \<Longrightarrow>
     \<exists>senders. length senders = length txs \<and> out = acc @ map2 (observed_transaction (eth_codec_of e)) txs senders"
proof (induction txs arbitrary: i acc w)
  case (Cons tx txs)
  from Cons.prems obtain sender w1 where
    rest: "observed_transactions e block (i + 1) txs (acc @ [observed_transaction (eth_codec_of e) tx sender]) w1 = (Inr out, w')"
    by (auto simp: observed_transaction_def split: prod.splits sum.splits)
  from Cons.IH [OF rest] obtain senders where "length senders = length txs"
    "out = (acc @ [observed_transaction (eth_codec_of e) tx sender]) @ map2 (observed_transaction (eth_codec_of e)) txs senders" by blast
  then show ?case by (intro exI [of _ "sender # senders"]) simp
qed simp

lemma observedBlock_ok:
  assumes "observedBlockFromEthereumBlock e block w = (Inr b, w')"
  shows "ob_Number b = eb_NumberU64 block \<and> ob_Hash b = HashHex (eth_codec_of e) (eb_Hash block) \<and>
    ob_ParentHash b = HashHex (eth_codec_of e) (eb_ParentHash block) \<and>
    (\<exists>senders. length senders = length (eb_Transactions block) \<and>
       ob_Transactions b = map2 (observed_transaction (eth_codec_of e)) (eb_Transactions block) senders)"
  using assms
  by (auto simp: observedBlockFromEthereumBlock_def split: prod.splits sum.splits dest!: observed_transactions_ok)


text \<open>The transfer a log of the node stands for.\<close>

definition decoded_log :: "eth_codec \<Rightarrow> eth_log \<Rightarrow> go_error + ERC20Transfer" where
  "decoded_log c log =
     DecodeERC20Transfer (eth_common.truncate c) (observedLogFromEthereumLog c log) (HashHex c (el_TxHash log))"

definition transfer_log :: "eth_codec \<Rightarrow> eth_log \<Rightarrow> bool" where
  "transfer_log c log \<longleftrightarrow> IsERC20TransferLog (eth_common.truncate c) (observedLogFromEthereumLog c log)"

lemma observedLog_simps [simp]:
  "log_Index (observedLogFromEthereumLog c l) = el_Index l"
  "log_TransactionHash (observedLogFromEthereumLog c l) = HashHex c (el_TxHash l)"
  by (simp_all add: observedLogFromEthereumLog_def)

lemma decode_logs_turn:
  "decode_logs c (l # ls) acc =
     (if \<not> transfer_log c l then decode_logs c ls acc
      else (case decoded_log c l of
          Inl err \<Rightarrow> Inl (Wrapf (''failed to decode ERC20 transfer log '' @ show_u64 (el_Index l)) err)
        | Inr t \<Rightarrow> decode_logs c ls (acc @ [t])))"
  by (simp add: transfer_log_def decoded_log_def Let_def cong: sum.case_cong)

lemma decode_logs_Inr:
  "decode_logs c logs acc = Inr out \<longleftrightarrow>
     (\<exists>ts. out = acc @ ts \<and> map Inr ts = map (decoded_log c) (filter (transfer_log c) logs))"
proof (induction logs arbitrary: acc)
  case (Cons l ls)
  show ?case
  proof (cases "transfer_log c l")
    case True
    show ?thesis
    proof (cases "decoded_log c l")
      case (Inr t)
      have "(\<exists>ts. out = (acc @ [t]) @ ts \<and> map Inr ts = map (decoded_log c) (filter (transfer_log c) ls)) \<longleftrightarrow>
          (\<exists>ts. out = acc @ ts \<and> map Inr ts = Inr t # map (decoded_log c) (filter (transfer_log c) ls))"
        by (auto simp: map_eq_Cons_conv)
      with True Inr Cons.IH [of "acc @ [t]"] show ?thesis by (simp only: decode_logs_turn) simp
    qed (use True in \<open>simp add: decode_logs_turn map_eq_Cons_conv del: decode_logs.simps(2)\<close>)
  qed (use Cons.IH in \<open>simp add: decode_logs_turn del: decode_logs.simps(2)\<close>)
qed auto

text \<open>
  C37. Indexing a block asks the node for the transfer logs of that block's hash and for nothing
  else. A success carries the block's number, hash and parent hash, and its transfers are, in the
  node's order, the decodings of exactly the logs that are three-topic transfers, every one of which
  decoded; no transfer is invented, dropped or reordered. An error is classified as an RPC error.
\<close>
theorem eth_GetERC20TransfersByBlock_exact:
  assumes "eth_GetERC20TransfersByBlock e block w = (r, w')"
  shows "case r of
      Inl err \<Rightarrow> errors_is err ErrRPC
    | Inr ix \<Rightarrow> ix_BlockNumber ix = ob_Number block \<and> ix_BlockHash ix = ob_Hash block \<and> ix_ParentHash ix = ob_ParentHash block \<and>
        (\<exists>logs. FilterLogs (eth_client e) \<lparr>fq_BlockHash = HexToHash (eth_codec_of e) (ob_Hash block),
             fq_Topics = [[erc20TransferTopic (eth_codec_of e)]]\<rparr> w = (Inr logs, w') \<and>
           map Inr (ix_Transfers ix) = map (decoded_log (eth_codec_of e)) (filter (transfer_log (eth_codec_of e)) logs))"
proof (cases r)
  case (Inl err)
  with assms show ?thesis by (auto simp: eth_GetERC20TransfersByBlock_def dest: rpc_classified_Inl)
next
  case (Inr ix)
  have topic: "ERC20TransferTopic (eth_common.truncate (eth_codec_of e)) = erc20TransferTopic (eth_codec_of e)"
    by (simp add: ERC20TransferTopic_def eth_common.truncate_def)
  from assms Inr show ?thesis
    by (auto simp: eth_GetERC20TransfersByBlock_def rpc_classified_Inr topic decode_logs_Inr split: prod.splits sum.splits)
qed

text \<open>
  C38. Fetching token metadata rejects a string that is not a hexadecimal address before any call
  to the node, with the invalid-address error itself; every other failure is an RPC error; and a
  success reports the canonical text of the requested address.
\<close>
theorem eth_FetchTokenMetadata_outcome:
  assumes "eth_FetchTokenMetadata abi e address w = (r, w')"
  shows "case r of
      Inl err \<Rightarrow> if IsHexAddress (eth_codec_of e) address then errors_is err ErrRPC
                 else err = Sentinel ErrInvalidTokenAddress \<and> w' = w
    | Inr m \<Rightarrow> IsHexAddress (eth_codec_of e) address \<and>
        md_Address m = AddressHex (eth_codec_of e) (HexToAddress (eth_codec_of e) address)"
proof (cases "IsHexAddress (eth_codec_of e) address")
  case True
  show ?thesis
  proof (cases r)
    case (Inl err)
    with assms True show ?thesis by (auto simp: eth_FetchTokenMetadata_def dest: rpc_classified_Inl)
  next
    case (Inr m)
    with assms True show ?thesis
      by (auto simp: eth_FetchTokenMetadata_def Let_def rpc_classified_Inr split: prod.splits sum.splits)
  qed
qed (use assms in \<open>auto simp: eth_FetchTokenMetadata_def\<close>)

section \<open>A sample node\<close>

definition sample_codec :: eth_codec where
  "sample_codec = \<lparr>HexToHash = (\<lambda>t. if t = ''a'' then replicate 12 0 @ replicate 20 1 else replicate 32 7),
     AddressHex = (\<lambda>b. if b = replicate 20 1 then ''0x01'' else ''0x07''), erc20TransferTopic = replicate 32 7,
     HashHex = (\<lambda>b. if b = replicate 32 7 then ''t'' else ''a''), HexToAddress = (\<lambda>s. replicate 20 1),
     IsHexAddress = (\<lambda>s. s = ''0x01'')\<rparr>"

definition sample_log :: eth_log where
  "sample_log = \<lparr>el_Address = replicate 20 1, el_Topics = [replicate 32 7, [], []], el_Data = to_bytes 32 1000, el_Index = 3,
     el_TxHash = [], el_BlockNumber = 9, el_Removed = False\<rparr>"

definition sample_node :: "unit ethclient" where
  "sample_node = \<lparr>HeaderByNumber = \<lambda>n w. (Inl (Sentinel EthereumNotFound), w),
     BlockByNumber = \<lambda>n w. (case n of None \<Rightarrow> (Inl (Sentinel EthereumNotFound), w)
       | Some k \<Rightarrow> (Inr \<lparr>eb_NumberU64 = word_of_int k, eb_Hash = [], eb_ParentHash = [], eb_Time = 0, eb_Transactions = []\<rparr>, w)),
     TransactionReceipt = \<lambda>h w. (Inl (Sentinel EthereumNotFound), w),
     FilterLogs = \<lambda>q w. (Inr [sample_log, sample_log\<lparr>el_Topics := []\<rparr>], w),
     TransactionSender = \<lambda>tx h i w. (Inr [], w),
     CallContract = \<lambda>a d w. (Inr d, w)\<rparr>"

definition sample_eth_client :: "unit EthereumClient" where
  "sample_eth_client = \<lparr>eth_codec_of = sample_codec, eth_client = sample_node\<rparr>"

definition sample_observed :: ObservedBlock where
  "sample_observed = \<lparr>ob_Number = 9, ob_Hash = ''a'', ob_ParentHash = ''a'', ob_Timestamp = 0, ob_Transactions = []\<rparr>"

definition sample_abi :: contract_abi where
  "sample_abi = \<lparr>abi_Pack = \<lambda>m. Inr (if m = ''decimals'' then [18] else [0]),
     abi_Unpack = \<lambda>m r. Inr [if r = [18] then AbiUint8 18 else AbiString ''TKN'']\<rparr>"

theorem eth_GetERC20TransfersByBlock_exact_witness:
  "\<exists>ix. fst (eth_GetERC20TransfersByBlock sample_eth_client sample_observed ()) = Inr ix \<and> ix_BlockNumber ix = 9 \<and>
     map Inr (ix_Transfers ix) = [decoded_log sample_codec sample_log]"
proof -
  have logs: "transfer_log sample_codec sample_log" "\<not> transfer_log sample_codec (sample_log\<lparr>el_Topics := []\<rparr>)"
    by (simp_all add: transfer_log_def IsERC20TransferLog_def observedLogFromEthereumLog_def sample_log_def sample_codec_def
        eth_common.truncate_def)
  have "\<exists>ix. eth_GetERC20TransfersByBlock sample_eth_client sample_observed () = (Inr ix, ())"
    by (simp add: eth_GetERC20TransfersByBlock_def sample_eth_client_def sample_node_def sample_codec_def sample_log_def
        observedLogFromEthereumLog_def IsERC20TransferLog_def DecodeERC20Transfer_def eth_common.truncate_def rpc_classified_def
        del: to_bytes.simps)
  then obtain ix where run: "eth_GetERC20TransfersByBlock sample_eth_client sample_observed () = (Inr ix, ())" by blast
  from eth_GetERC20TransfersByBlock_exact [OF run] run show ?thesis
    by (auto simp: sample_eth_client_def sample_node_def sample_observed_def logs)
qed

theorem eth_FetchTokenMetadata_outcome_witness:
  "\<exists>m. fst (eth_FetchTokenMetadata sample_abi sample_eth_client ''0x01'' ()) = Inr m \<and> md_Address m = ''0x01'' \<and> md_Decimals m = 18"
proof -
  have "eth_FetchTokenMetadata sample_abi sample_eth_client ''0x01'' () =
      (Inr \<lparr>md_Address = ''0x01'', md_Name = ''TKN'', md_Symbol = ''TKN'', md_Decimals = 18\<rparr>, ())"
    by (simp add: eth_FetchTokenMetadata_def callERC20StringMethod_def callERC20Decimals_def sample_abi_def
        sample_eth_client_def sample_node_def sample_codec_def rpc_classified_def)
  from eth_FetchTokenMetadata_outcome [OF this] this show ?thesis by simp
qed


end
