(* ===== verification/Go_Text.thy ===== *)
theory Go_Text
  imports Go_Errors Go_Float
begin

text \<open>
  The parsers of Go's standard library the program calls: \<^verbatim>\<open>strconv.Atoi\<close> and \<^verbatim>\<open>strconv.ParseUint\<close>,
  \<^verbatim>\<open>time.ParseDuration\<close>, \<^verbatim>\<open>net.SplitHostPort\<close>, \<^verbatim>\<open>net.ParseIP\<close> with \<^verbatim>\<open>IP.IsLoopback\<close>. Strings are byte
  strings. An error is its text.
\<close>

section \<open>Integers\<close>

definition num_error :: "string \<Rightarrow> string \<Rightarrow> string \<Rightarrow> go_error" where
  "num_error f text why = Anonymous (''strconv.'' @ f @ '': parsing '' @ quoted text @ '': '' @ why)"

definition strconv_Atoi :: "string \<Rightarrow> go_error + int" where
  "strconv_Atoi s =
     (case read_int s of
        None \<Rightarrow> Inl (num_error ''Atoi'' s ''invalid syntax'')
      | Some i \<Rightarrow>
          if - (2 ^ 63) \<le> i \<and> i < 2 ^ 63 then Inr i
          else Inl (num_error ''Atoi'' s ''value out of range''))"

definition strconv_ParseUint64 :: "string \<Rightarrow> go_error + u64" where
  "strconv_ParseUint64 s =
     (case read_nat s of
        None \<Rightarrow> Inl (num_error ''ParseUint'' s ''invalid syntax'')
      | Some n \<Rightarrow>
          if n < 2 ^ 64 then Inr (of_nat n)
          else Inl (num_error ''ParseUint'' s ''value out of range''))"

lemma strconv_Atoi_range: "strconv_Atoi s = Inr i \<Longrightarrow> - (2 ^ 63) \<le> i \<and> i < 2 ^ 63"
  by (auto simp: strconv_Atoi_def split: option.splits if_splits)

lemma strconv_Atoi_show: "- (2 ^ 63) \<le> i \<Longrightarrow> i < 2 ^ 63 \<Longrightarrow> strconv_Atoi (show_int i) = Inr i"
  by (simp add: strconv_Atoi_def)

lemma strconv_ParseUint64_show [simp]: "strconv_ParseUint64 (show_u64 n) = Inr n"
  using unat_bound_u64 [of n] by (simp add: strconv_ParseUint64_def show_u64_def)

section \<open>Durations\<close>

text \<open>\<^verbatim>\<open>leadingInt\<close>: the digits at the start and the rest; \<^term>\<open>None\<close> when they exceed \<open>2^63\<close>.\<close>

fun leadingInt :: "nat \<Rightarrow> string \<Rightarrow> (nat \<times> string) option" where
  "leadingInt x [] = Some (x, [])"
| "leadingInt x (c # s) =
     (case digit_val c of
        None \<Rightarrow> Some (x, c # s)
      | Some d \<Rightarrow>
          if 2 ^ 63 div 10 < x then None
          else let y = x * 10 + d in if 2 ^ 63 < y then None else leadingInt y s)"

text \<open>\<^verbatim>\<open>leadingFraction\<close>: digits after the point, the scale as \<^verbatim>\<open>float64\<close>, the rest; digits that would
  overflow are dropped.\<close>

fun leadingFraction :: "nat \<Rightarrow> float64 \<Rightarrow> bool \<Rightarrow> string \<Rightarrow> nat \<times> float64 \<times> string" where
  "leadingFraction x scale overflow [] = (x, scale, [])"
| "leadingFraction x scale overflow (c # s) =
     (case digit_val c of
        None \<Rightarrow> (x, scale, c # s)
      | Some d \<Rightarrow>
          if overflow then leadingFraction x scale True s
          else if (2 ^ 63 - 1) div 10 < x then leadingFraction x scale True s
          else let y = x * 10 + d in
            if 2 ^ 63 < y then leadingFraction x scale True s
            else leadingFraction y (f_mul scale (Finite 10)) False s)"

definition unitMap :: "string \<Rightarrow> nat option" where
  "unitMap u =
     (if u = ''ns'' then Some 1
      else if u = ''us'' \<or> u = [CHR 0xC2, CHR 0xB5, CHR ''s''] \<or> u = [CHR 0xCE, CHR 0xBC, CHR ''s''] then Some 1000
      else if u = ''ms'' then Some 1000000
      else if u = ''s'' then Some 1000000000
      else if u = ''m'' then Some 60000000000
      else if u = ''h'' then Some 3600000000000
      else None)"

definition unit_char :: "char \<Rightarrow> bool" where
  "unit_char c \<longleftrightarrow> c \<noteq> CHR ''.'' \<and> \<not> is_digit c"

definition invalid_duration :: "string \<Rightarrow> go_error" where
  "invalid_duration orig = Anonymous (''time: invalid duration '' @ quoted orig)"

text \<open>One number with its unit: the nanoseconds and the rest. A fraction is scaled in \<^verbatim>\<open>float64\<close>; its value
  is below an hour, so the conversion to \<^verbatim>\<open>uint64\<close> is a truncation.\<close>

definition duration_term :: "string \<Rightarrow> string \<Rightarrow> go_error + nat \<times> string" where
  "duration_term orig s =
     (if \<not> (s \<noteq> [] \<and> (hd s = CHR ''.'' \<or> is_digit (hd s))) then Inl (invalid_duration orig)
      else
        (case leadingInt 0 s of
           None \<Rightarrow> Inl (invalid_duration orig)
         | Some (v, s1) \<Rightarrow>
             let pre = length s1 \<noteq> length s;
                 (f, scale, s2, post) =
                   (if s1 \<noteq> [] \<and> hd s1 = CHR ''.'' then
                      (case leadingFraction 0 (Finite 1) False (tl s1) of
                         (f, scale, s2) \<Rightarrow> (f, scale, s2, length s2 \<noteq> length (tl s1)))
                    else (0, Finite 1, s1, False));
                 u = takeWhile unit_char s2
             in if \<not> pre \<and> \<not> post then Inl (invalid_duration orig)
                else if u = [] then Inl (Anonymous (''time: missing unit in duration '' @ quoted orig))
                else
                  (case unitMap u of
                     None \<Rightarrow> Inl (Anonymous (''time: unknown unit '' @ quoted u @ '' in duration '' @ quoted orig))
                   | Some unit \<Rightarrow>
                       if 2 ^ 63 div unit < v then Inl (invalid_duration orig)
                       else
                         let v1 = v * unit;
                             v2 = (if 0 < f then
                                     v1 + nat (int64_of_float (\<lambda>_. 0)
                                       (f_mul (float_of_int (int f)) (f_div (float_of_int (int unit)) scale)))
                                   else v1)
                         in if 2 ^ 63 < v2 then Inl (invalid_duration orig)
                            else Inr (v2, dropWhile unit_char s2))))"

lemma leadingInt_length: "leadingInt x s = Some (v, s') \<Longrightarrow> length s' \<le> length s"
  by (induction s arbitrary: x) (auto simp: Let_def intro: le_SucI split: option.splits if_splits)

lemma leadingFraction_length: "leadingFraction x scale ov s = (f, sc, s') \<Longrightarrow> length s' \<le> length s"
  by (induction s arbitrary: x scale ov) (auto simp: Let_def intro: le_SucI split: option.splits if_splits)

lemma dropWhile_shorter: "takeWhile P s \<noteq> [] \<Longrightarrow> length (dropWhile P s) < length s"
  using takeWhile_dropWhile_id [of P s] by (metis length_append length_greater_0_conv less_add_same_cancel2)

lemma duration_term_shorter: "duration_term orig s = Inr (v, s') \<Longrightarrow> length s' < length s"
proof -
  assume step: "duration_term orig s = Inr (v, s')"
  from step obtain v0 s1 where int: "leadingInt 0 s = Some (v0, s1)"
    by (auto simp: duration_term_def split: if_splits option.splits)
  obtain f scale s2 where frac: "leadingFraction 0 (Finite 1) False (tl s1) = (f, scale, s2)" by (rule prod_cases3)
  define rest where "rest = (if s1 \<noteq> [] \<and> hd s1 = CHR ''.'' then s2 else s1)"
  have "length rest \<le> length s1"
    using leadingFraction_length [OF frac] by (auto simp: rest_def)
  moreover have "takeWhile unit_char rest \<noteq> [] \<and> s' = dropWhile unit_char rest"
    using step int frac by (auto simp: duration_term_def rest_def Let_def split: if_splits option.splits)
  ultimately show ?thesis
    using dropWhile_shorter [of unit_char rest] leadingInt_length [OF int] by simp
qed

function duration_terms :: "string \<Rightarrow> nat \<Rightarrow> string \<Rightarrow> go_error + nat" where
  "duration_terms orig d s =
     (if s = [] then Inr d
      else
        (case duration_term orig s of
           Inl err \<Rightarrow> Inl err
         | Inr (v, s') \<Rightarrow>
             if 2 ^ 63 < d + v then Inl (invalid_duration orig) else duration_terms orig (d + v) s'))"
  by pat_completeness auto
termination
  by (relation "measure (\<lambda>(orig, d, s). length s)") (auto dest: duration_term_shorter)

declare duration_terms.simps [simp del]

definition time_ParseDuration :: "string \<Rightarrow> go_error + int" where
  "time_ParseDuration orig =
     (let neg = (orig \<noteq> [] \<and> hd orig = CHR ''-'');
          s = (if orig \<noteq> [] \<and> (hd orig = CHR ''-'' \<or> hd orig = CHR ''+'') then tl orig else orig)
      in if s = ''0'' then Inr 0
         else if s = [] then Inl (invalid_duration orig)
         else
           (case duration_terms orig 0 s of
              Inl err \<Rightarrow> Inl err
            | Inr d \<Rightarrow>
                if neg then Inr (- int d)
                else if 2 ^ 63 - 1 < d then Inl (invalid_duration orig)
                else Inr (int d)))"

lemma duration_terms_bound: "duration_terms orig d s = Inr n \<Longrightarrow> d \<le> 2 ^ 63 \<Longrightarrow> n \<le> 2 ^ 63"
proof (induction orig d s rule: duration_terms.induct)
  case (1 orig d s)
  show ?case
  proof (cases "s = []")
    case True
    with "1.prems" show ?thesis by (simp add: duration_terms.simps [of orig d "[]"])
  next
    case False
    with "1.prems"(1) obtain v s' where "duration_term orig s = Inr (v, s')" "\<not> 2 ^ 63 < d + v"
      "duration_terms orig (d + v) s' = Inr n"
      by (auto simp: duration_terms.simps [of orig d s] split: sum.splits prod.splits if_splits)
    with "1.IH" [OF False _ refl] show ?thesis by auto
  qed
qed

lemma time_ParseDuration_range: "time_ParseDuration s = Inr d \<Longrightarrow> - (2 ^ 63) \<le> d \<and> d < 2 ^ 63"
  by (auto simp: time_ParseDuration_def Let_def split: if_splits sum.splits dest!: duration_terms_bound)

section \<open>Network addresses\<close>

definition addr_error :: "string \<Rightarrow> string \<Rightarrow> go_error" where
  "addr_error addr why = Anonymous (''address '' @ addr @ '': '' @ why)"

text \<open>Position of the first and of the last occurrence of a byte.\<close>

fun index_byte :: "char \<Rightarrow> string \<Rightarrow> nat option" where
  "index_byte b [] = None"
| "index_byte b (c # s) = (if c = b then Some 0 else map_option Suc (index_byte b s))"

definition last_index_byte :: "char \<Rightarrow> string \<Rightarrow> nat option" where
  "last_index_byte b s = map_option (\<lambda>i. length s - 1 - i) (index_byte b (rev s))"

definition net_SplitHostPort :: "string \<Rightarrow> go_error + string \<times> string" where
  "net_SplitHostPort hostport =
     (case last_index_byte CHR '':'' hostport of
        None \<Rightarrow> Inl (addr_error hostport ''missing port in address'')
      | Some i \<Rightarrow>
          let bracketed =
            (if hostport ! 0 = CHR ''['' then
               (case index_byte CHR '']'' hostport of
                  None \<Rightarrow> Inl (addr_error hostport ''missing ']' in address'')
                | Some e \<Rightarrow>
                    if e + 1 = length hostport then Inl (addr_error hostport ''missing port in address'')
                    else if e + 1 = i then Inr (drop 1 (take e hostport), 1, e + 1)
                    else if hostport ! (e + 1) = CHR '':'' then Inl (addr_error hostport ''too many colons in address'')
                    else Inl (addr_error hostport ''missing port in address''))
             else if CHR '':'' \<in> set (take i hostport) then Inl (addr_error hostport ''too many colons in address'')
             else Inr (take i hostport, 0, 0))
          in (case bracketed of
                Inl err \<Rightarrow> Inl err
              | Inr (host, j, k) \<Rightarrow>
                  if CHR ''['' \<in> set (drop j hostport) then Inl (addr_error hostport ''unexpected '[' in address'')
                  else if CHR '']'' \<in> set (drop k hostport) then Inl (addr_error hostport ''unexpected ']' in address'')
                  else Inr (host, drop (i + 1) hostport)))"

text \<open>The text formats of \<^verbatim>\<open>net.ParseIP\<close>. A dotted quad has four decimal fields below 256 without
  leading zeros.\<close>

fun split_on :: "char \<Rightarrow> string \<Rightarrow> string list" where
  "split_on b [] = [[]]"
| "split_on b (c # s) = (if c = b then [] # split_on b s
     else (case split_on b s of [] \<Rightarrow> [[c]] | f # fs \<Rightarrow> (c # f) # fs))"

definition ipv4_field :: "string \<Rightarrow> nat option" where
  "ipv4_field f =
     (case read_nat f of
        None \<Rightarrow> None
      | Some n \<Rightarrow> if n < 256 \<and> (length f = 1 \<or> hd f \<noteq> CHR ''0'') then Some n else None)"

fun sequence :: "'a option list \<Rightarrow> 'a list option" where
  "sequence [] = Some []"
| "sequence (x # xs) =
     (case x of None \<Rightarrow> None | Some y \<Rightarrow> map_option (Cons y) (sequence xs))"

definition parse_ipv4 :: "string \<Rightarrow> nat list option" where
  "parse_ipv4 s =
     (let fields = split_on CHR ''.'' s in if length fields = 4 then sequence (map ipv4_field fields) else None)"

definition hex_val :: "char \<Rightarrow> nat option" where
  "hex_val c =
     (let k = (of_char c :: nat) in
      if 48 \<le> k \<and> k \<le> 57 then Some (k - 48) else if 97 \<le> k \<and> k \<le> 102 then Some (k - 87)
      else if 65 \<le> k \<and> k \<le> 70 then Some (k - 55) else None)"

text \<open>A group of one to four hexadecimal digits is two bytes; the last group may be a dotted quad.\<close>

definition ipv6_group :: "string \<Rightarrow> nat list option" where
  "ipv6_group g =
     (if g = [] \<or> 4 < length g then None
      else map_option (\<lambda>ds. let n = foldl (\<lambda>acc d. acc * 16 + d) 0 ds in [n div 256, n mod 256])
             (sequence (map hex_val g)))"

definition ipv6_groups :: "bool \<Rightarrow> string \<Rightarrow> nat list option" where
  "ipv6_groups quad s =
     (if s = [] then Some []
      else let gs = split_on CHR '':'' s in
        map_option concat
          (sequence (map ipv6_group (butlast gs) @
             [if quad \<and> CHR ''.'' \<in> set (last gs) then parse_ipv4 (last gs) else ipv6_group (last gs)])))"

text \<open>The address split at its first \<^verbatim>\<open>::\<close>, if it has one.\<close>

fun split_ellipsis :: "string \<Rightarrow> (string \<times> string) option" where
  "split_ellipsis (a # b # s) =
     (if a = CHR '':'' \<and> b = CHR '':'' then Some ([], s)
      else map_option (\<lambda>(l, r). (a # l, r)) (split_ellipsis (b # s)))"
| "split_ellipsis _ = None"

definition parse_ipv6 :: "string \<Rightarrow> nat list option" where
  "parse_ipv6 s =
     (case split_ellipsis s of
        None \<Rightarrow> (case ipv6_groups True s of Some bs \<Rightarrow> if length bs = 16 then Some bs else None | None \<Rightarrow> None)
      | Some (l, r) \<Rightarrow>
          (case (ipv6_groups False l, ipv6_groups True r) of
             (Some bl, Some br) \<Rightarrow>
               if length bl + length br < 16 then Some (bl @ replicate (16 - (length bl + length br)) 0 @ br) else None
           | _ \<Rightarrow> None))"

text \<open>\<^verbatim>\<open>net.ParseIP\<close>: an IPv4 address is held as the sixteen bytes of its IPv4-mapped form. The first
  separator decides the format; an address with a zone is not accepted.\<close>

definition net_ParseIP :: "string \<Rightarrow> nat list option" where
  "net_ParseIP s =
     (case filter (\<lambda>c. c = CHR ''.'' \<or> c = CHR '':'' \<or> c = CHR ''%'') s of
        [] \<Rightarrow> None
      | c # _ \<Rightarrow>
          if c = CHR ''.'' then map_option (\<lambda>q. replicate 10 0 @ [255, 255] @ q) (parse_ipv4 s)
          else if c = CHR '':'' then (if CHR ''%'' \<in> set s then None else parse_ipv6 s)
          else None)"

definition IsLoopback :: "nat list \<Rightarrow> bool" where
  "IsLoopback ip \<longleftrightarrow>
     (if take 12 ip = replicate 10 0 @ [255, 255] then ip ! 12 = 127
      else ip = replicate 15 0 @ [1])"

text \<open>\<^verbatim>\<open>strings.EqualFold(s, "localhost")\<close>: besides the ASCII letters, the long s (U+017F, two bytes) folds
  to s.\<close>

fun fold_long_s :: "string \<Rightarrow> string" where
  "fold_long_s (a # b # s) = (if a = CHR 0xC5 \<and> b = CHR 0xBF then CHR ''s'' # fold_long_s s else a # fold_long_s (b # s))"
| "fold_long_s s = s"

definition EqualFold_localhost :: "string \<Rightarrow> bool" where
  "EqualFold_localhost s \<longleftrightarrow> ToLower (fold_long_s s) = ''localhost''"


end
