(* ===== verification/Transfer_Cursors.thy ===== *)
theory Transfer_Cursors
  imports Domain_Types Go_Text
begin

text \<open>
  \<^verbatim>\<open>internal/api/transfer_cursor.go\<close>: a pagination cursor as unpadded URL-safe base64 of a JSON object,
  with what the code uses of \<^verbatim>\<open>encoding/base64\<close> and \<^verbatim>\<open>encoding/json\<close>: the encoder of the payload, the
  decoder with its tolerance (line breaks are skipped, the unused low bits of the last character are not
  checked), a JSON parser, and the decoding of an object into a struct of unsigned integers.
\<close>

section \<open>Base64\<close>

text \<open>The URL-safe alphabet: capital letters, small letters, digits, minus, underscore.\<close>

definition b64_char :: "nat \<Rightarrow> char" where
  "b64_char k =
     (if k < 26 then char_of (k + 65) else if k < 52 then char_of (k + 71) else if k < 62 then char_of (k - 4)
      else if k = 62 then CHR ''-'' else CHR ''_'')"

definition b64_val :: "char \<Rightarrow> nat option" where
  "b64_val c =
     (let k = (of_char c :: nat) in
      if 65 \<le> k \<and> k \<le> 90 then Some (k - 65) else if 97 \<le> k \<and> k \<le> 122 then Some (k - 71)
      else if 48 \<le> k \<and> k \<le> 57 then Some (k + 4) else if k = 45 then Some 62 else if k = 95 then Some 63 else None)"

abbreviation byte_of :: "char \<Rightarrow> nat" where "byte_of c \<equiv> of_char c"

fun RawURLEncode :: "string \<Rightarrow> string" where
  "RawURLEncode (a # b # c # s) =
     b64_char (byte_of a div 4) # b64_char (byte_of a mod 4 * 16 + byte_of b div 16) #
     b64_char (byte_of b mod 16 * 4 + byte_of c div 64) # b64_char (byte_of c mod 64) # RawURLEncode s"
| "RawURLEncode [a, b] =
     [b64_char (byte_of a div 4), b64_char (byte_of a mod 4 * 16 + byte_of b div 16), b64_char (byte_of b mod 16 * 4)]"
| "RawURLEncode [a] = [b64_char (byte_of a div 4), b64_char (byte_of a mod 4 * 16)]"
| "RawURLEncode [] = []"

fun b64_quanta :: "nat list \<Rightarrow> string option" where
  "b64_quanta (a # b # c # d # s) =
     map_option (\<lambda>r. char_of (a * 4 + b div 16) # char_of (b mod 16 * 16 + c div 4) # char_of (c mod 4 * 64 + d) # r)
       (b64_quanta s)"
| "b64_quanta [a, b, c] = Some [char_of (a * 4 + b div 16), char_of (b mod 16 * 16 + c div 4)]"
| "b64_quanta [a, b] = Some [char_of (a * 4 + b div 16)]"
| "b64_quanta [a] = None"
| "b64_quanta [] = Some []"

definition line_break :: "char \<Rightarrow> bool" where
  "line_break c \<longleftrightarrow> c = CHR 0x0A \<or> c = CHR 0x0D"

definition RawURLDecode :: "string \<Rightarrow> string option" where
  "RawURLDecode s =
     (case sequence (map b64_val (filter (\<lambda>c. \<not> line_break c) s)) of
        None \<Rightarrow> None
      | Some vs \<Rightarrow> b64_quanta vs)"

section \<open>JSON\<close>

datatype json = JNull | JBool bool | JNumber string | JString string | JArray "json list" | JObject "(string \<times> json) list"

definition json_space :: "char \<Rightarrow> bool" where
  "json_space c \<longleftrightarrow> (let k = byte_of c in k = 32 \<or> k = 9 \<or> k = 10 \<or> k = 13)"

abbreviation skip_space :: "string \<Rightarrow> string" where
  "skip_space s \<equiv> dropWhile json_space s"

text \<open>A string after its opening quote: the decoded text and the rest. A unicode escape beyond ASCII stands for
  a character no field name has, so it is kept as one byte that no name contains; the Kelvin sign
  matches k in a case-insensitive comparison and is kept as K.\<close>

fun json_escape :: "char \<Rightarrow> char option" where
  "json_escape c =
     (if c = CHR 0x22 \<or> c = CHR 0x5C \<or> c = CHR ''/'' then Some c
      else if c = CHR ''b'' then Some (CHR 0x08) else if c = CHR ''f'' then Some (CHR 0x0C)
      else if c = CHR ''n'' then Some (CHR 0x0A) else if c = CHR ''r'' then Some (CHR 0x0D)
      else if c = CHR ''t'' then Some (CHR 0x09) else None)"

definition code_point :: "nat \<Rightarrow> char" where
  "code_point n = (if n < 128 then char_of n else if n = 0x212A then CHR ''K'' else CHR 0xFF)"

fun json_string :: "string \<Rightarrow> (string \<times> string) option" where
  "json_string [] = None"
| "json_string (c # s) =
     (if c = CHR 0x22 then Some ([], s)
      else if c = CHR 0x5C then
        (case s of
           [] \<Rightarrow> None
         | e # s1 \<Rightarrow>
             if e = CHR ''u'' then
               (case s1 of
                  h1 # h2 # h3 # h4 # s2 \<Rightarrow>
                    (case sequence (map hex_val [h1, h2, h3, h4]) of
                       None \<Rightarrow> None
                     | Some ds \<Rightarrow> map_option (\<lambda>(t, r). (code_point (foldl (\<lambda>acc d. acc * 16 + d) 0 ds) # t, r)) (json_string s2))
                | _ \<Rightarrow> None)
             else
               (case json_escape e of
                  None \<Rightarrow> None
                | Some x \<Rightarrow> map_option (\<lambda>(t, r). (x # t, r)) (json_string s1)))
      else if byte_of c < 32 then None
      else map_option (\<lambda>(t, r). (c # t, r)) (json_string s))"

text \<open>A number: the literal and the rest.\<close>

definition digits_of :: "string \<Rightarrow> string" where
  "digits_of s = takeWhile is_digit s"

definition json_number :: "string \<Rightarrow> (string \<times> string) option" where
  "json_number s =
     (let sign = (if s \<noteq> [] \<and> hd s = CHR ''-'' then ''-'' else []);
          s1 = drop (length sign) s;
          int_part = (if s1 \<noteq> [] \<and> hd s1 = CHR ''0'' then ''0'' else digits_of s1);
          s2 = drop (length int_part) s1;
          frac = (if s2 \<noteq> [] \<and> hd s2 = CHR ''.'' then CHR ''.'' # digits_of (tl s2) else []);
          s3 = drop (length frac) s2;
          mark = (if s3 \<noteq> [] \<and> (hd s3 = CHR ''e'' \<or> hd s3 = CHR ''E'') then
                    hd s3 # (if tl s3 \<noteq> [] \<and> (hd (tl s3) = CHR ''+'' \<or> hd (tl s3) = CHR ''-'') then [hd (tl s3)] else [])
                  else []);
          exponent = (if mark \<noteq> [] then digits_of (drop (length mark) s3) else [])
      in if int_part = [] \<or> frac = ''.'' \<or> (mark \<noteq> [] \<and> exponent = []) then None
         else Some (sign @ int_part @ frac @ mark @ exponent, drop (length (mark @ exponent)) s3))"

definition strip_prefix :: "string \<Rightarrow> string \<Rightarrow> string option" where
  "strip_prefix p s = (if take (length p) s = p then Some (drop (length p) s) else None)"

text \<open>Values, array elements and object members. \<open>n\<close> bounds the number of nested calls; every value and every
  separator takes at least one byte, so twice the length of the input is enough (\<open>json_parse_fuel\<close>). \<open>d\<close> is the nesting
  Go still allows.\<close>

fun json_value :: "nat \<Rightarrow> nat \<Rightarrow> string \<Rightarrow> (json \<times> string) option"
  and json_elements :: "nat \<Rightarrow> nat \<Rightarrow> string \<Rightarrow> (json list \<times> string) option"
  and json_members :: "nat \<Rightarrow> nat \<Rightarrow> string \<Rightarrow> ((string \<times> json) list \<times> string) option"
where
  "json_value 0 d s = None"
| "json_value (Suc n) d s =
     (case skip_space s of
        [] \<Rightarrow> None
      | c # s1 \<Rightarrow>
          if c = CHR ''{'' then
            (if d = 0 then None
             else case skip_space s1 of
               [] \<Rightarrow> None
             | c2 # s2 \<Rightarrow>
                 if c2 = CHR ''}'' then Some (JObject [], s2)
                 else map_option (\<lambda>(ms, r). (JObject ms, r)) (json_members n (d - 1) (c2 # s2)))
          else if c = CHR ''['' then
            (if d = 0 then None
             else case skip_space s1 of
               [] \<Rightarrow> None
             | c2 # s2 \<Rightarrow>
                 if c2 = CHR '']'' then Some (JArray [], s2)
                 else map_option (\<lambda>(vs, r). (JArray vs, r)) (json_elements n (d - 1) (c2 # s2)))
          else if c = CHR 0x22 then map_option (\<lambda>(t, r). (JString t, r)) (json_string s1)
          else if c = CHR ''n'' then map_option (\<lambda>r. (JNull, r)) (strip_prefix ''ull'' s1)
          else if c = CHR ''t'' then map_option (\<lambda>r. (JBool True, r)) (strip_prefix ''rue'' s1)
          else if c = CHR ''f'' then map_option (\<lambda>r. (JBool False, r)) (strip_prefix ''alse'' s1)
          else map_option (\<lambda>(t, r). (JNumber t, r)) (json_number (c # s1)))"
| "json_elements 0 d s = None"
| "json_elements (Suc n) d s =
     (case json_value n d s of
        None \<Rightarrow> None
      | Some (v, s1) \<Rightarrow>
          (case skip_space s1 of
             [] \<Rightarrow> None
           | c # s2 \<Rightarrow>
               if c = CHR '']'' then Some ([v], s2)
               else if c = CHR '','' then map_option (\<lambda>(vs, r). (v # vs, r)) (json_elements n d s2)
               else None))"
| "json_members 0 d s = None"
| "json_members (Suc n) d s =
     (case skip_space s of
        [] \<Rightarrow> None
      | q # s1 \<Rightarrow>
          if q \<noteq> CHR 0x22 then None
          else
            (case json_string s1 of
               None \<Rightarrow> None
             | Some (k, s2) \<Rightarrow>
                 (case skip_space s2 of
                    [] \<Rightarrow> None
                  | colon # s3 \<Rightarrow>
                      if colon \<noteq> CHR '':'' then None
                      else
                        (case json_value n d s3 of
                           None \<Rightarrow> None
                         | Some (v, s4) \<Rightarrow>
                             (case skip_space s4 of
                                [] \<Rightarrow> None
                              | c # s5 \<Rightarrow>
                                  if c = CHR ''}'' then Some ([(k, v)], s5)
                                  else if c = CHR '','' then map_option (\<lambda>(ms, r). ((k, v) # ms, r)) (json_members n d s5)
                                  else None)))))"

definition json_parse :: "string \<Rightarrow> json option" where
  "json_parse s =
     (case json_value (2 * length s) 10000 s of
        Some (v, r) \<Rightarrow> if skip_space r = [] then Some v else None
      | None \<Rightarrow> None)"

section \<open>Cursors\<close>

text \<open>\<^verbatim>\<open>json.Marshal\<close> of the payload struct, and \<^verbatim>\<open>json.Unmarshal\<close> into it: names match exactly or else up to case
  (no name here has both), an unknown name is ignored, \<^verbatim>\<open>null\<close> leaves the field as it is, anything but an
  unsigned 64-bit literal is an error.\<close>

definition dquote :: string where
  "dquote = [CHR 0x22]"

definition marshal_payload :: "u64 \<Rightarrow> u64 \<Rightarrow> string" where
  "marshal_payload blockNumber logIndex =
     ''{'' @ dquote @ ''blockNumber'' @ dquote @ '':'' @ show_u64 blockNumber @ '','' @
     dquote @ ''logIndex'' @ dquote @ '':'' @ show_u64 logIndex @ ''}''"

fun kelvin_fold :: "string \<Rightarrow> string" where
  "kelvin_fold (a # b # c # s) =
     (if a = CHR 0xE2 \<and> b = CHR 0x84 \<and> c = CHR 0xAA then CHR ''k'' # kelvin_fold s else a # kelvin_fold (b # c # s))"
| "kelvin_fold s = s"

definition names_field :: "string \<Rightarrow> string \<Rightarrow> bool" where
  "names_field field k \<longleftrightarrow> ToLower (kelvin_fold k) = ToLower field"

definition assign_uint :: "json \<Rightarrow> u64 \<Rightarrow> u64 option" where
  "assign_uint v old =
     (case v of
        JNull \<Rightarrow> Some old
      | JNumber text \<Rightarrow> (case strconv_ParseUint64 text of Inl _ \<Rightarrow> None | Inr n \<Rightarrow> Some n)
      | _ \<Rightarrow> None)"

fun unmarshal_members :: "(string \<times> json) list \<Rightarrow> u64 \<times> u64 \<Rightarrow> (u64 \<times> u64) option" where
  "unmarshal_members [] p = Some p"
| "unmarshal_members ((k, v) # ms) (blockNumber, logIndex) =
     (if names_field ''blockNumber'' k then
        (case assign_uint v blockNumber of None \<Rightarrow> None | Some n \<Rightarrow> unmarshal_members ms (n, logIndex))
      else if names_field ''logIndex'' k then
        (case assign_uint v logIndex of None \<Rightarrow> None | Some n \<Rightarrow> unmarshal_members ms (blockNumber, n))
      else unmarshal_members ms (blockNumber, logIndex))"

definition unmarshal_payload :: "string \<Rightarrow> (u64 \<times> u64) option" where
  "unmarshal_payload data =
     (case json_parse data of
        Some JNull \<Rightarrow> Some (0, 0)
      | Some (JObject ms) \<Rightarrow> unmarshal_members ms (0, 0)
      | _ \<Rightarrow> None)"

definition EncodeTransferCursor :: "TransferCursor \<Rightarrow> go_error + string" where
  "EncodeTransferCursor cursor = Inr (RawURLEncode (marshal_payload (cur_BlockNumber cursor) (cur_LogIndex cursor)))"

definition DecodeTransferCursor :: "string \<Rightarrow> go_error + TransferCursor" where
  "DecodeTransferCursor value =
     (if value = [] then Inl (Sentinel ErrInvalidTransferCursor)
      else
        (case RawURLDecode value of
           None \<Rightarrow> Inl (Sentinel ErrInvalidTransferCursor)
         | Some data \<Rightarrow>
             (case unmarshal_payload data of
                None \<Rightarrow> Inl (Sentinel ErrInvalidTransferCursor)
              | Some (blockNumber, logIndex) \<Rightarrow> Inr (TransferCursor blockNumber logIndex))))"

section \<open>The parser's fuel is enough\<close>

lemma skip_space_less: "skip_space s = c # r \<Longrightarrow> length r < length s"
  using length_dropWhile_le [of json_space s] by simp

lemma json_string_less: "json_string s = Some (t, r) \<Longrightarrow> length r < length s"
proof (induction s arbitrary: t r rule: json_string.induct)
  case (2 c s)
  then show ?case
    by (auto split: if_splits list.splits option.splits) fastforce+
qed simp

lemma strip_prefix_le: "strip_prefix p s = Some r \<Longrightarrow> length r \<le> length s"
  by (auto simp: strip_prefix_def split: if_splits)

lemma json_number_less:
  assumes "json_number s = Some (t, r)"
  shows "length r < length s"
proof -
  define sign where "sign = (if s \<noteq> [] \<and> hd s = CHR ''-'' then ''-'' else [])"
  define s1 where "s1 = drop (length sign) s"
  define i where "i = (if s1 \<noteq> [] \<and> hd s1 = CHR ''0'' then ''0'' else digits_of s1)"
  define s2 where "s2 = drop (length i) s1"
  define frac where "frac = (if s2 \<noteq> [] \<and> hd s2 = CHR ''.'' then CHR ''.'' # digits_of (tl s2) else [])"
  define s3 where "s3 = drop (length frac) s2"
  define mark where "mark = (if s3 \<noteq> [] \<and> (hd s3 = CHR ''e'' \<or> hd s3 = CHR ''E'') then
      hd s3 # (if tl s3 \<noteq> [] \<and> (hd (tl s3) = CHR ''+'' \<or> hd (tl s3) = CHR ''-'') then [hd (tl s3)] else []) else [])"
  define ex where "ex = (if mark \<noteq> [] then digits_of (drop (length mark) s3) else [])"
  have "json_number s = (if i = [] \<or> frac = ''.'' \<or> (mark \<noteq> [] \<and> ex = []) then None
      else Some (sign @ i @ frac @ mark @ ex, drop (length (mark @ ex)) s3))"
    unfolding ex_def mark_def s3_def frac_def s2_def i_def s1_def sign_def json_number_def Let_def by (rule refl)
  with assms have i: "i \<noteq> []" and r: "r = drop (length (mark @ ex)) s3" by (auto split: if_splits)
  from i have "s1 \<noteq> []" by (auto simp: i_def digits_of_def split: if_splits)
  with i have "length s2 < length s1" by (simp add: s2_def)
  moreover have "length r \<le> length s2" "length s1 \<le> length s" by (simp_all add: r s3_def s1_def)
  ultimately show ?thesis by simp
qed

lemma json_rest:
  "json_value n d s = Some (v, r) \<Longrightarrow> length r < length s"
  "json_elements n d s = Some (vs, r) \<Longrightarrow> length r < length s"
  "json_members n d s = Some (ms, r) \<Longrightarrow> length r < length s"
proof (induction n d s and n d s and n d s arbitrary: v r and vs r and ms r rule: json_value_json_elements_json_members.induct)
  case (2 n d s)
  obtain c s1 where s: "skip_space s = c # s1" using 2(3) by (cases "skip_space s") auto
  note short = skip_space_less [OF s]
  consider (object) "c = CHR ''{''" | (array) "c = CHR ''[''" "c \<noteq> CHR ''{''" | (other) "c \<noteq> CHR ''{''" "c \<noteq> CHR ''[''" by blast
  then show ?case
  proof cases
    case object
    with 2(3) s obtain c2 s2 where d: "d \<noteq> 0" and s2: "skip_space s1 = c2 # s2" by (auto split: if_splits list.splits)
    from 2(3) s object d s2 2(1) [OF s object d s2] short skip_space_less [OF s2] show ?thesis
      by (cases "c2 = CHR ''}''") (auto dest: less_trans)
  next
    case array
    with 2(3) s obtain c2 s2 where d: "d \<noteq> 0" and s2: "skip_space s1 = c2 # s2" by (auto split: if_splits list.splits)
    from 2(3) s array d s2 2(2) [OF s array(2,1) d s2] short skip_space_less [OF s2] show ?thesis
      by (cases "c2 = CHR '']''") (auto dest: less_trans)
  next
    case other
    then have scalar: "json_value (Suc n) d s =
        (if c = CHR 0x22 then map_option (\<lambda>(t, r). (JString t, r)) (json_string s1)
         else if c = CHR ''n'' then map_option (\<lambda>r. (JNull, r)) (strip_prefix ''ull'' s1)
         else if c = CHR ''t'' then map_option (\<lambda>r. (JBool True, r)) (strip_prefix ''rue'' s1)
         else if c = CHR ''f'' then map_option (\<lambda>r. (JBool False, r)) (strip_prefix ''alse'' s1)
         else map_option (\<lambda>(t, r). (JNumber t, r)) (json_number (c # s1)))" using s by simp
    consider t where "json_string s1 = Some (t, r)" | p where "strip_prefix p s1 = Some r" | t where "json_number (c # s1) = Some (t, r)"
      using 2(3) unfolding scalar by (auto split: if_split_asm)
    moreover have "length (c # s1) \<le> length s" using short by simp
    ultimately show ?thesis
      by cases (auto dest!: json_string_less strip_prefix_le json_number_less)
  qed
next
  case (4 n d s)
  from 4(3) obtain v s1 where v: "json_value n d s = Some (v, s1)" by (auto split: option.splits)
  with 4(3) obtain c s2 where s2: "skip_space s1 = c # s2" by (auto split: list.splits)
  note short = 4(1) [OF v] skip_space_less [OF s2]
  show ?case
  proof (cases "c = CHR '']''")
    case False
    with 4(3) v s2 obtain ws where c: "c = CHR '',''" and ws: "json_elements n d s2 = Some (ws, r)" by (auto split: if_splits)
    from 4(2) [OF v refl s2 False c ws] short show ?thesis by simp
  qed (use 4(3) v s2 short in simp)
next
  case (6 n d s)
  from 6(3) obtain s1 where s1: "skip_space s = CHR 0x22 # s1" by (auto split: list.splits if_splits)
  with 6(3) obtain k s2 where s2: "json_string s1 = Some (k, s2)" by (auto split: option.splits)
  with 6(3) s1 obtain s3 where s3: "skip_space s2 = CHR '':'' # s3" by (auto split: list.splits if_splits)
  with 6(3) s1 s2 obtain v s4 where v: "json_value n d s3 = Some (v, s4)" by (auto split: option.splits)
  with 6(3) s1 s2 s3 obtain c s5 where s5: "skip_space s4 = c # s5" by (auto split: list.splits)
  note short = skip_space_less [OF s1] json_string_less [OF s2] skip_space_less [OF s3] skip_space_less [OF s5]
  have v4: "length s4 < length s3" by (rule 6(1) [OF s1 _ s2 refl s3 _ v]) simp_all
  show ?case
  proof (cases "c = CHR ''}''")
    case False
    with 6(3) s1 s2 s3 v s5 obtain ws where c: "c = CHR '',''" and ws: "json_members n d s5 = Some (ws, r)" by (auto split: if_splits)
    have "length r < length s5" by (rule 6(2) [OF s1 _ s2 refl s3 _ v refl s5 False c ws]) simp_all
    with short v4 show ?thesis by simp
  qed (use 6(3) s1 s2 s3 v s5 short v4 in simp)
qed simp_all

text \<open>More fuel than twice the length changes nothing.\<close>

lemma json_fuel:
  "2 * length s \<le> n \<Longrightarrow> 2 * length s \<le> m \<Longrightarrow> json_value n d s = json_value m d s"
  "2 * length s < n \<Longrightarrow> 2 * length s < m \<Longrightarrow> json_elements n d s = json_elements m d s"
  "2 * length s \<le> n \<Longrightarrow> 2 * length s \<le> m \<Longrightarrow> json_members n d s = json_members m d s"
proof (induction n d s and n d s and n d s arbitrary: m and m and m rule: json_value_json_elements_json_members.induct)
  case (1 d s)
  then show ?case by (cases m) auto
next
  case (2 n d s)
  show ?case
  proof (cases "skip_space s")
    case (Cons c s1)
    note short = skip_space_less [OF Cons]
    from short 2(4) obtain m' where m: "m = Suc m'" by (cases m) auto
    have "json_members n (d - 1) (c2 # s2) = json_members m' (d - 1) (c2 # s2)"
      if "c = CHR ''{''" "d \<noteq> 0" "skip_space s1 = c2 # s2" "c2 \<noteq> CHR ''}''" for c2 s2
      using skip_space_less [OF that(3)] short 2(3,4) m by (intro 2(1) [OF Cons that]) simp_all
    moreover have "json_elements n (d - 1) (c2 # s2) = json_elements m' (d - 1) (c2 # s2)"
      if "c \<noteq> CHR ''{''" "c = CHR ''[''" "d \<noteq> 0" "skip_space s1 = c2 # s2" "c2 \<noteq> CHR '']''" for c2 s2
      using skip_space_less [OF that(4)] short 2(3,4) m by (intro 2(2) [OF Cons that]) simp_all
    ultimately show ?thesis using Cons m by (cases "skip_space s1") (auto simp del: dropWhile_eq_Nil_conv)
  next
    case Nil
    then show ?thesis by (cases m) (simp_all del: dropWhile_eq_Nil_conv)
  qed
next
  case (4 n d s)
  from 4(4) obtain m' where m: "m = Suc m'" by (cases m) auto
  have first: "json_value n d s = json_value m' d s" using 4(3,4) m by (intro 4(1)) simp_all
  have "json_elements n d s2 = json_elements m' d s2"
    if "json_value n d s = Some (v, s1)" "skip_space s1 = c # s2" "c \<noteq> CHR '']''" "c = CHR '',''" for v s1 c s2
    using json_rest(1) [OF that(1)] skip_space_less [OF that(2)] 4(3,4) m by (intro 4(2) [OF that(1) refl that(2-4)]) simp_all
  with first m show ?case by (simp split: option.split list.split del: dropWhile_eq_Nil_conv)
next
  case (5 d s)
  then show ?case by (cases m) auto
next
  case (6 n d s)
  show ?case
  proof (cases "skip_space s")
    case (Cons q s1)
    note short = skip_space_less [OF Cons]
    from short 6(4) obtain m' where m: "m = Suc m'" by (cases m) auto
    have "json_value n d s3 = json_value m' d s3"
      if "q = CHR 0x22" "json_string s1 = Some (k, s2)" "skip_space s2 = CHR '':'' # s3" for k s2 s3
      using json_string_less [OF that(2)] skip_space_less [OF that(3)] short 6(3,4) m that
      by (intro 6(1) [OF Cons _ that(2) refl that(3)]) simp_all
    moreover have "json_members n d s5 = json_members m' d s5"
      if "q = CHR 0x22" "json_string s1 = Some (k, s2)" "skip_space s2 = CHR '':'' # s3" "json_value n d s3 = Some (v, s4)"
        "skip_space s4 = c # s5" "c \<noteq> CHR ''}''" "c = CHR '',''" for k s2 s3 v s4 c s5
      using json_string_less [OF that(2)] skip_space_less [OF that(3)] json_rest(1) [OF that(4)] skip_space_less [OF that(5)]
        short 6(3,4) m that(1)
      by (intro 6(2) [OF Cons _ that(2) refl that(3) _ that(4) refl that(5-7)]) simp_all
    ultimately show ?thesis using Cons m by (simp split: option.split list.split del: dropWhile_eq_Nil_conv)
  next
    case Nil
    then show ?thesis by (cases m) (simp_all del: dropWhile_eq_Nil_conv)
  qed
qed simp_all

lemma json_parse_fuel: "2 * length s \<le> n \<Longrightarrow> json_value n 10000 s = json_value (2 * length s) 10000 s"
  by (rule json_fuel(1)) simp_all

section \<open>Base64 round trip\<close>

lemma b64_char_simps [simp]:
  "k < 64 \<Longrightarrow> b64_val (b64_char k) = Some k" "k < 64 \<Longrightarrow> \<not> line_break (b64_char k)"
proof -
  have chars: "byte_of CHR ''-'' = 45" "byte_of CHR ''_'' = 95" "byte_of CHR 0x0A = 10" "byte_of CHR 0x0D = 13" by simp_all
  assume "k < 64"
  then have code: "byte_of (b64_char k) = (if k < 26 then k + 65 else if k < 52 then k + 71 else if k < 62 then k - 4
      else if k = 62 then 45 else 95)"
    by (auto simp: b64_char_def)
  show "b64_val (b64_char k) = Some k"
    using \<open>k < 64\<close> by (auto simp: b64_val_def Let_def code)
  have "byte_of (b64_char k) \<noteq> 10" "byte_of (b64_char k) \<noteq> 13" by (auto simp: code)
  then show "\<not> line_break (b64_char k)" using chars(3,4) by (auto simp: line_break_def)
qed

lemma byte_div: "byte_of a div 4 < 64" "byte_of b div 16 < 16" "byte_of c div 64 < 4"
  using nat_of_char_less_256 [of a] nat_of_char_less_256 [of b] nat_of_char_less_256 [of c]
  by (simp_all add: less_mult_imp_div_less)

lemma byte_mod: "byte_of a mod 4 \<le> 3" "byte_of b mod 16 \<le> 15"
  using mod_less_divisor [of 4 "byte_of a"] mod_less_divisor [of 16 "byte_of b"] by linarith+

lemma sextets [simp]:
  "byte_of a div 4 < 64" "byte_of a mod 4 * 16 + byte_of b div 16 < 64" "byte_of b mod 16 * 4 + byte_of c div 64 < 64"
  "byte_of c mod 64 < 64" "byte_of b mod 16 * 4 < 64" "byte_of a mod 4 * 16 < 64"
  using byte_div(1) [of a] byte_div(2) [of b] byte_div(3) [of c] byte_mod(1) [of a] byte_mod(2) [of b] by simp_all

lemma octets:
  "byte_of b div 16 div 16 = 0" "byte_of b div 16 mod 16 * 16 + byte_of b mod 16 = byte_of b" "byte_of c div 64 div 4 = 0"
  "byte_of c div 64 mod 4 * 64 + byte_of c mod 64 = byte_of c"
  using byte_div(2) [of b] byte_div(3) [of c] by simp_all

fun sextet_list :: "string \<Rightarrow> nat list" where
  "sextet_list (a # b # c # s) =
     byte_of a div 4 # (byte_of a mod 4 * 16 + byte_of b div 16) # (byte_of b mod 16 * 4 + byte_of c div 64) #
     byte_of c mod 64 # sextet_list s"
| "sextet_list [a, b] = [byte_of a div 4, byte_of a mod 4 * 16 + byte_of b div 16, byte_of b mod 16 * 4]"
| "sextet_list [a] = [byte_of a div 4, byte_of a mod 4 * 16]"
| "sextet_list [] = []"

lemma RawURLEncode_sextets: "RawURLEncode s = map b64_char (sextet_list s) \<and> (\<forall>k \<in> set (sextet_list s). k < 64)"
  by (induction s rule: RawURLEncode.induct) simp_all

lemma b64_quanta_sextets: "b64_quanta (sextet_list s) = Some s"
  by (induction s rule: sextet_list.induct) (simp_all add: octets)

lemma sequence_Some: "sequence (map Some xs) = Some xs"
  by (induction xs) simp_all

lemma RawURLDecode_Encode [simp]: "RawURLDecode (RawURLEncode s) = Some s"
proof -
  let ?ks = "sextet_list s"
  from RawURLEncode_sextets [of s] have enc: "RawURLEncode s = map b64_char ?ks" and small: "\<forall>k \<in> set ?ks. k < 64" by auto
  from small have "filter (\<lambda>c. \<not> line_break c) (map b64_char ?ks) = map b64_char ?ks" by (simp add: filter_id_conv)
  moreover from small have "map b64_val (map b64_char ?ks) = map Some ?ks" by simp
  ultimately show ?thesis by (simp only: RawURLDecode_def enc sequence_Some option.case b64_quanta_sextets)
qed

section \<open>JSON round trip\<close>

lemma show_nat_hd_zero: "hd (show_nat n) = CHR ''0'' \<Longrightarrow> n = 0"
proof (induction n rule: show_nat.induct)
  case (1 n)
  show ?case
  proof (cases "n < 10")
    case True
    with "1.prems" digit_char_inj [of n 0] show ?thesis by (simp add: show_nat.simps [of n] digit_char_0)
  next
    case False
    with "1.prems" have "hd (show_nat (n div 10)) = CHR ''0''" by (simp add: show_nat.simps [of n])
    with "1.IH" [OF False] False show ?thesis by simp
  qed
qed

lemma show_nat_0: "show_nat 0 = ''0''"
  by (simp add: show_nat.simps [of 0] digit_char_0)

definition ends_number :: "char \<Rightarrow> bool" where
  "ends_number c \<longleftrightarrow> \<not> is_digit c \<and> c \<noteq> CHR ''.'' \<and> c \<noteq> CHR ''e'' \<and> c \<noteq> CHR ''E''"

lemma json_number_show:
  assumes "ends_number c"
  shows "json_number (show_nat n @ c # s) = Some (show_nat n, c # s)"
proof -
  obtain d ds where d: "show_nat n = d # ds" by (cases "show_nat n") auto
  have "d \<noteq> CHR ''-''" using show_nat_hd_not_sign [OF d] by simp
  moreover have "digits_of (show_nat n @ c # s) = show_nat n"
    using show_nat_digits [of n] assms by (simp add: digits_of_def ends_number_def takeWhile_append)
  moreover have "d = CHR ''0'' \<Longrightarrow> ds = []"
    using show_nat_hd_zero [of n] d show_nat_0 by auto
  ultimately show ?thesis
    using assms d by (auto simp: json_number_def Let_def ends_number_def)
qed

lemma ends_number_simps [simp]: "ends_number CHR '',''" "ends_number CHR ''}''"
  by (simp_all add: ends_number_def digit_val_def Let_def)


lemma json_space_simps [simp]:
  "\<not> json_space CHR ''{''" "\<not> json_space CHR ''}''" "\<not> json_space CHR 0x22" "\<not> json_space CHR '':''" "\<not> json_space CHR '',''"
  by (simp_all add: json_space_def)

lemma digit_not_space: "is_digit c \<Longrightarrow> \<not> json_space c"
  by (auto simp: json_space_def digit_val_def Let_def split: if_splits)

lemma digit_not_special: "is_digit c \<Longrightarrow>
    c \<noteq> CHR ''{'' \<and> c \<noteq> CHR ''['' \<and> c \<noteq> CHR 0x22 \<and> c \<noteq> CHR ''n'' \<and> c \<noteq> CHR ''t'' \<and> c \<noteq> CHR ''f''"
  by (auto simp: digit_val_def Let_def split: if_splits)

lemma json_value_show:
  assumes "ends_number c"
  shows "json_value (Suc n) d (show_nat k @ c # s) = Some (JNumber (show_nat k), c # s)"
proof -
  obtain x xs where x: "show_nat k = x # xs" by (cases "show_nat k") auto
  then have "is_digit x" using show_nat_digits [of k] by simp
  with digit_not_space [OF this] digit_not_special [OF this] json_number_show [OF assms, of k s] x show ?thesis
    by simp
qed

lemma json_keys:
  "json_string (''blockNumber'' @ dquote @ s) = Some (''blockNumber'', s)"
  "json_string (''logIndex'' @ dquote @ s) = Some (''logIndex'', s)"
  by (simp_all add: dquote_def)

lemma json_last_member:
  assumes "json_string (k @ dquote @ '':'' @ show_nat l @ ''}'' @ s) = Some (k, '':'' @ show_nat l @ ''}'' @ s)"
  shows "json_members (Suc (Suc n)) d (dquote @ k @ dquote @ '':'' @ show_nat l @ ''}'' @ s) =
     Some ([(k, JNumber (show_nat l))], s)"
  using json_value_show [of "CHR ''}''" n d l s] assms
  by (simp add: dquote_def del: json_value.simps json_string.simps)

lemma json_next_member:
  assumes "json_string (k @ dquote @ '':'' @ show_nat l @ '','' @ s) = Some (k, '':'' @ show_nat l @ '','' @ s)"
  shows "json_members (Suc (Suc n)) d (dquote @ k @ dquote @ '':'' @ show_nat l @ '','' @ s) =
     map_option (\<lambda>(ms, r). ((k, JNumber (show_nat l)) # ms, r)) (json_members (Suc n) d s)"
  using json_value_show [of "CHR '',''" n d l s] assms
  by (simp add: dquote_def del: json_value.simps json_string.simps json_members.simps(2) add: json_members.simps(2) [of "Suc n" d "CHR 0x22 # _"])

lemma json_parse_payload:
  "json_parse (marshal_payload b l) =
     Some (JObject [(''blockNumber'', JNumber (show_u64 b)), (''logIndex'', JNumber (show_u64 l))])"
proof -
  let ?first = "dquote @ ''blockNumber'' @ dquote @ '':'' @ show_u64 b @ '',''"
  let ?last = "dquote @ ''logIndex'' @ dquote @ '':'' @ show_u64 l @ ''}''"
  have shape: "marshal_payload b l = CHR ''{'' # ?first @ ?last" by (simp add: marshal_payload_def)
  have "json_members (Suc (Suc n)) d (?first @ ?last @ []) =
      map_option (\<lambda>(ms, r). ((''blockNumber'', JNumber (show_u64 b)) # ms, r)) (json_members (Suc n) d (?last @ []))" for n d
    using json_next_member [of "''blockNumber''" "unat b" "?last @ []" n d, OF json_keys(1)] by (simp only: show_u64_def append_assoc)
  moreover have "json_members (Suc (Suc n)) d (?last @ []) = Some ([(''logIndex'', JNumber (show_u64 l))], [])" for n d
    using json_last_member [of "''logIndex''" "unat l" "[]" n d, OF json_keys(2)] by (simp only: show_u64_def append_assoc)
  ultimately have members: "json_members (Suc (Suc (Suc n))) d (?first @ ?last) =
      Some ([(''blockNumber'', JNumber (show_u64 b)), (''logIndex'', JNumber (show_u64 l))], [])" for n d
    by simp
  have "\<exists>n. 2 * length (marshal_payload b l) = Suc (Suc (Suc (Suc n)))"
    by (rule exI [of _ "2 * length (marshal_payload b l) - 4"]) (simp add: shape dquote_def)
  then obtain n where n: "2 * length (marshal_payload b l) = Suc (Suc (Suc (Suc n)))" by blast
  have parsed: "json_value (Suc (Suc (Suc (Suc n)))) 10000 (marshal_payload b l) =
      Some (JObject [(''blockNumber'', JNumber (show_u64 b)), (''logIndex'', JNumber (show_u64 l))], [])"
    using members [of n "9999"] by (simp add: shape dquote_def del: json_members.simps)
  show ?thesis unfolding json_parse_def n by (simp only: parsed) simp
qed

lemma names_field_simps [simp]:
  "names_field ''blockNumber'' ''blockNumber''" "\<not> names_field ''blockNumber'' ''logIndex''" "names_field ''logIndex'' ''logIndex''"
  by code_simp+

lemma cursor_text:
  obtains t where "EncodeTransferCursor cursor = Inr t" "DecodeTransferCursor t = Inr cursor" "t \<noteq> []"
proof -
  let ?payload = "marshal_payload (cur_BlockNumber cursor) (cur_LogIndex cursor)"
  have "unmarshal_payload ?payload = Some (cur_BlockNumber cursor, cur_LogIndex cursor)"
    by (simp add: unmarshal_payload_def json_parse_payload assign_uint_def)
  moreover have "RawURLEncode ?payload \<noteq> []" by (simp add: marshal_payload_def dquote_def)
  ultimately show thesis by (intro that) (simp_all add: EncodeTransferCursor_def DecodeTransferCursor_def)
qed

text \<open>
  C33. A cursor survives its text form: for every block number and log index of 64 bits, decoding the
  encoded cursor gives the cursor back, and encoding never fails.
\<close>
theorem TransferCursor_roundtrip:
  "\<exists>text. EncodeTransferCursor cursor = Inr text \<and> DecodeTransferCursor text = Inr cursor"
  by (rule cursor_text [of cursor]) blast

end
