(* ===== verification/Http_Observability.thy ===== *)
theory Http_Observability
  imports Runtime_Metrics Transfer_Cursors
begin

text \<open>
  \<^verbatim>\<open>internal/api/http_observability.go\<close> and the response writing of \<^verbatim>\<open>http_server.go\<close>: the status
  recorder around \<^verbatim>\<open>http.ResponseWriter\<close>, request identifiers, the recovery and the observability
  middleware. A response is what the client sees: status, headers at the time the status went out, and
  the body as the sequence of what was written (a JSON value or text). Logging is not modelled: no log
  call changes any other state, and a failed write is only logged.

  A handler works on the recorder, the metrics and the world, and may panic: its result is the panic
  value, if any.
\<close>

section \<open>Responses\<close>

datatype body_part = JSONPart json | TextPart string

record response =
  rs_status :: "int option"
  rs_header :: "string \<rightharpoonup> string"
  rs_body :: "body_part list"

definition empty_response :: response where
  "empty_response = \<lparr>rs_status = None, rs_header = Map.empty, rs_body = []\<rparr>"

text \<open>\<^verbatim>\<open>net/http\<close>'s writer: the first status counts, a write without one sends 200, headers set later are lost.\<close>

definition rw_WriteHeader :: "int \<Rightarrow> response \<Rightarrow> response" where
  "rw_WriteHeader status r = (case rs_status r of None \<Rightarrow> r\<lparr>rs_status := Some status\<rparr> | Some _ \<Rightarrow> r)"

definition rw_Write :: "body_part \<Rightarrow> response \<Rightarrow> response" where
  "rw_Write part r = (let r1 = rw_WriteHeader 200 r in r1\<lparr>rs_body := rs_body r1 @ [part]\<rparr>)"

definition rw_SetHeader :: "string \<Rightarrow> string \<Rightarrow> response \<Rightarrow> response" where
  "rw_SetHeader name v r = (case rs_status r of None \<Rightarrow> r\<lparr>rs_header := (rs_header r)(name \<mapsto> v)\<rparr> | Some _ \<Rightarrow> r)"

section \<open>The status recorder\<close>

record statusRecorder =
  sr_status :: int
  sr_wroteResponse :: bool
  sr_ResponseWriter :: response

definition sr_WriteHeader :: "int \<Rightarrow> statusRecorder \<Rightarrow> statusRecorder" where
  "sr_WriteHeader status r =
     (if sr_wroteResponse r then r
      else r\<lparr>sr_status := status, sr_wroteResponse := True,
             sr_ResponseWriter := rw_WriteHeader status (sr_ResponseWriter r)\<rparr>)"

definition sr_Write :: "body_part \<Rightarrow> statusRecorder \<Rightarrow> statusRecorder" where
  "sr_Write body r =
     (let r1 = (if \<not> sr_wroteResponse r then sr_WriteHeader 200 r else r)
      in r1\<lparr>sr_ResponseWriter := rw_Write body (sr_ResponseWriter r1)\<rparr>)"

definition sr_Header_Set :: "string \<Rightarrow> string \<Rightarrow> statusRecorder \<Rightarrow> statusRecorder" where
  "sr_Header_Set name v r = r\<lparr>sr_ResponseWriter := rw_SetHeader name v (sr_ResponseWriter r)\<rparr>"

definition responseStarted :: "statusRecorder \<Rightarrow> bool" where
  "responseStarted r = sr_wroteResponse r"

definition markStatus :: "int \<Rightarrow> statusRecorder \<Rightarrow> statusRecorder" where
  "markStatus status r = r\<lparr>sr_status := status\<rparr>"

text \<open>\<^verbatim>\<open>writeJSON\<close>: the values the API writes always marshal.\<close>

definition writeJSON :: "int \<Rightarrow> json \<Rightarrow> statusRecorder \<Rightarrow> statusRecorder" where
  "writeJSON status v r =
     sr_Write (JSONPart v)
       (sr_WriteHeader status (sr_Header_Set ''Content-Type'' ''application/json; charset=utf-8'' r))"

definition api_error_json :: "string \<Rightarrow> string \<Rightarrow> string \<Rightarrow> json" where
  "api_error_json code message requestID =
     JObject [(''error'', JObject [(''code'', JString code), (''message'', JString message), (''requestId'', JString requestID)])]"

section \<open>Requests and handlers\<close>

record request =
  rq_Method :: string
  rq_Path :: string
  rq_Query :: "string \<Rightarrow> string list"
  rq_requestID :: "string option"

definition requestIDFromContext :: "request \<Rightarrow> string" where
  "requestIDFromContext r = (case rq_requestID r of None \<Rightarrow> [] | Some i \<Rightarrow> i)"

definition writeAPIError :: "request \<Rightarrow> int \<Rightarrow> string \<Rightarrow> string \<Rightarrow> statusRecorder \<Rightarrow> statusRecorder" where
  "writeAPIError r status code message w = writeJSON status (api_error_json code message (requestIDFromContext r)) w"

type_synonym ('s, 'w) handler = "request \<Rightarrow> 's \<times> Metrics \<times> 'w \<Rightarrow> string option \<times> 's \<times> Metrics \<times> 'w"

section \<open>Request identifiers\<close>

definition hex_digit :: "nat \<Rightarrow> char" where
  "hex_digit d = (if d < 10 then char_of (d + 48) else char_of (d + 87))"

definition hex_EncodeToString :: "bytes \<Rightarrow> string" where
  "hex_EncodeToString bs = concat (map (\<lambda>b. [hex_digit (unat b div 16), hex_digit (unat b mod 16)]) bs)"

text \<open>\<^verbatim>\<open>%016x\<close>\<close>

fun hex_digits :: "nat \<Rightarrow> nat \<Rightarrow> string" where
  "hex_digits 0 n = []"
| "hex_digits (Suc k) n = hex_digits k (n div 16) @ [hex_digit (n mod 16)]"

definition show_hex16 :: "u64 \<Rightarrow> string" where
  "show_hex16 n = hex_digits 16 (unat n)"

text \<open>\<open>rand_Read\<close> gives sixteen random bytes or fails; then clock and counter make the identifier. The counter is
  part of the state.\<close>

record 'w http_env =
  rand_Read :: "'w \<Rightarrow> (u8 list) option \<times> 'w"
  UnixNano :: "'w \<Rightarrow> int \<times> 'w"

definition newRequestID :: "'w http_env \<Rightarrow> u64 \<times> 'w \<Rightarrow> string \<times> u64 \<times> 'w" where
  "newRequestID env cw =
     (case cw of (fallbackRequestIDCounter, w) \<Rightarrow>
        (case rand_Read env w of
           (Some v, w1) \<Rightarrow> (hex_EncodeToString v, fallbackRequestIDCounter, w1)
         | (None, w1) \<Rightarrow>
             (case UnixNano env w1 of (nanos, w2) \<Rightarrow>
                (show_hex16 (uint64_of nanos) @ show_hex16 (fallbackRequestIDCounter + 1), fallbackRequestIDCounter + 1, w2))))"

section \<open>Middleware\<close>

definition recoveryMiddleware :: "(statusRecorder, 'w) handler \<Rightarrow> (statusRecorder, 'w) handler" where
  "recoveryMiddleware next r s =
     (case next r s of
        (None, s') \<Rightarrow> (None, s')
      | (Some panicValue, (recorder, m, w)) \<Rightarrow>
          let started = responseStarted recorder;
              marked = markStatus 500 recorder;
              answered = (if \<not> started then writeAPIError r 500 ''internal_error'' ''internal server error'' marked else marked)
          in (None, (answered, m, w)))"

text \<open>The handler underneath sees a fresh recorder; a panic that reaches this far is passed on.\<close>

definition observabilityMiddleware :: "'w http_env \<Rightarrow> (statusRecorder, 'w) handler \<Rightarrow> (response, 'w) handler" where
  "observabilityMiddleware env next r s =
     (case s of (resp, m, w) \<Rightarrow>
        (case UnixNano env w of (start, w1) \<Rightarrow>
           (case next r (\<lparr>sr_status = 200, sr_wroteResponse = False, sr_ResponseWriter = resp\<rparr>, m, w1) of
              (Some p, (recorder, m1, w2)) \<Rightarrow> (Some p, (sr_ResponseWriter recorder, m1, w2))
            | (None, (recorder, m1, w2)) \<Rightarrow>
                (case UnixNano env w2 of (finish, w3) \<Rightarrow>
                   (None, (sr_ResponseWriter recorder, ObserveHTTPRequest (sr_status recorder) (finish - start) m1, w3))))))"

definition requestIDMiddleware :: "'w http_env \<Rightarrow> (response, 'w) handler \<Rightarrow> request \<Rightarrow> u64 \<Rightarrow>
    response \<times> Metrics \<times> 'w \<Rightarrow> string option \<times> u64 \<times> response \<times> Metrics \<times> 'w" where
  "requestIDMiddleware env next r counter s =
     (case s of (resp, m, w) \<Rightarrow>
        (case newRequestID env (counter, w) of (requestID, counter', w1) \<Rightarrow>
           (case next (r\<lparr>rq_requestID := Some requestID\<rparr>) (rw_SetHeader ''X-Request-ID'' requestID resp, m, w1) of
              (p, s') \<Rightarrow> (p, counter', s'))))"

end
