(* ===== verification/Token_Fetching.thy ===== *)
theory Token_Fetching
  imports Token_Metadata Rpc_Resilience Ethereum_Client Http_Observability
begin

text \<open>
  \<^verbatim>\<open>TokenMetadataService\<close> with the fetcher the application gives it (\<^verbatim>\<open>internal/app/application.go\<close>): the
  resilient client in front of \<^verbatim>\<open>EthereumClient.FetchTokenMetadata\<close>. What the service needs of its fetcher,
  that it answers for the address it was asked for, holds of this one for the addresses the service is
  asked for: the token column of a stored transfer, which is the text go-ethereum gives a 20-byte
  address. (The HTTP handler is the only caller.) Of a text that is no such text, say without the prefix
  \<^verbatim>\<open>0x\<close>, the fetcher answers with another text, under which the metadata is stored, while it is cached
  under the text asked for.
\<close>

section \<open>What the fetcher answers\<close>

text \<open>The text go-ethereum gives a 20-byte address, in any letter case, and that it reads such a text back as
  the address.\<close>

definition token_text :: "eth_codec \<Rightarrow> Address \<Rightarrow> bool" where
  "token_text codec a \<longleftrightarrow> (\<exists>b. length b = 20 \<and> ToLower a = ToLower (AddressHex codec b))"

definition reads_addresses :: "eth_codec \<Rightarrow> bool" where
  "reads_addresses codec \<longleftrightarrow>
     (\<forall>b t. length b = 20 \<and> ToLower t = ToLower (AddressHex codec b) \<longrightarrow> HexToAddress codec t = b)"

lemma token_text_read:
  assumes "token_text codec a" "reads_addresses codec"
  shows "ToLower (AddressHex codec (HexToAddress codec a)) = ToLower a"
    and "HexToAddress codec (ToLower a) = HexToAddress codec a"
  using assms unfolding token_text_def reads_addresses_def by (metis ToLower_idem)+

text \<open>The calls of the resilient client as a function, each call under a context of its own.\<close>

definition fetches :: "'w ResilientEthereumClient \<Rightarrow> (Address \<Rightarrow> 'w rpc_world \<Rightarrow> (go_error, TokenMetadata, 'w rpc_world) outcome) \<Rightarrow> bool" where
  "fetches client fetch \<longleftrightarrow> (\<forall>a s. \<exists>env. res_FetchTokenMetadata env client a s = Some (fetch a s))"

text \<open>A success of a resilient call is a success of the call it makes.\<close>

lemma executeResilientRPC_success:
  assumes "0 < maxAttempts (rec_policy c)" "executeResilientRPC env c zero call s = Some (Inr x, s')"
  shows "\<exists>w w'. call w = (Inr x, w')"
proof -
  from assms obtain es mid where "rpc_ends env (rec_policy c) call es mid (Inr x, s')" by (rule executeResilientRPC_run)
  then show ?thesis by (cases rule: rpc_ends.cases) auto
qed

text \<open>What a contract says about itself, for a node that replies \<open>reply\<close> to a call of \<open>data\<close> at an address.\<close>

definition token_string :: "contract_abi \<Rightarrow> (bytes \<Rightarrow> bytes \<Rightarrow> bytes) \<Rightarrow> bytes \<Rightarrow> string \<Rightarrow> string" where
  "token_string abi reply address method =
     (case abi_Unpack abi method (reply address (projr (abi_Pack abi method))) of Inr [AbiString v] \<Rightarrow> v | _ \<Rightarrow> [])"

definition token_decimals :: "contract_abi \<Rightarrow> (bytes \<Rightarrow> bytes \<Rightarrow> bytes) \<Rightarrow> bytes \<Rightarrow> u8" where
  "token_decimals abi reply address =
     (case abi_Unpack abi ''decimals'' (reply address (projr (abi_Pack abi ''decimals''))) of Inr [AbiUint8 d] \<Rightarrow> d | _ \<Rightarrow> 0)"

definition contract_says :: "contract_abi \<Rightarrow> (bytes \<Rightarrow> bytes \<Rightarrow> bytes) \<Rightarrow> bytes \<Rightarrow> string \<times> string \<times> u8" where
  "contract_says abi reply address =
     (token_string abi reply address ''name'', token_string abi reply address ''symbol'', token_decimals abi reply address)"

definition steady_node :: "'w ethclient \<Rightarrow> (bytes \<Rightarrow> bytes \<Rightarrow> bytes) \<Rightarrow> bool" where
  "steady_node client reply \<longleftrightarrow> (\<forall>address data w x w'. CallContract client address data w = (Inr x, w') \<longrightarrow> x = reply address data)"

lemma callERC20StringMethod_steady:
  assumes "callERC20StringMethod abi e address method w = (Inr v, w')" "steady_node (eth_client e) reply"
  shows "v = token_string abi reply address method"
  using assms
  by (auto simp: callERC20StringMethod_def token_string_def steady_node_def length_Suc_conv
      split: sum.splits prod.splits if_splits abi_value.splits dest!: spec)

lemma callERC20Decimals_steady:
  assumes "callERC20Decimals abi e address w = (Inr v, w')" "steady_node (eth_client e) reply"
  shows "v = token_decimals abi reply address"
  using assms
  by (auto simp: callERC20Decimals_def token_decimals_def steady_node_def length_Suc_conv
      split: sum.splits prod.splits if_splits abi_value.splits dest!: spec)

lemma eth_FetchTokenMetadata_success:
  assumes "eth_FetchTokenMetadata abi e a w = (Inr m, w')"
  shows "md_Address m = AddressHex (eth_codec_of e) (HexToAddress (eth_codec_of e) a)"
    and "steady_node (eth_client e) reply \<Longrightarrow> content m = contract_says abi reply (HexToAddress (eth_codec_of e) a)"
  using assms
  by (auto simp: eth_FetchTokenMetadata_def Let_def rpc_classified_Inr content_def contract_says_def
      split: prod.splits sum.splits if_splits dest: callERC20StringMethod_steady callERC20Decimals_steady)

text \<open>The fetcher of the application: the resilient client over the methods of \<^verbatim>\<open>EthereumClient\<close>.\<close>

definition application_fetcher :: "contract_abi \<Rightarrow> 'w EthereumClient \<Rightarrow> 'w ResilientEthereumClient \<Rightarrow>
    (Address \<Rightarrow> 'w rpc_world \<Rightarrow> (go_error, TokenMetadata, 'w rpc_world) outcome) \<Rightarrow> bool" where
  "application_fetcher abi e client fetch \<longleftrightarrow>
     0 < maxAttempts (rec_policy client) \<and> FetchTokenMetadata (rec_next client) = eth_FetchTokenMetadata abi e \<and>
     fetches client fetch"

lemma application_fetcher_success:
  assumes "application_fetcher abi e client fetch" "on_env fetch a w = (Inr m, w')"
  shows "md_Address m = AddressHex (eth_codec_of e) (HexToAddress (eth_codec_of e) a)"
    and "steady_node (eth_client e) reply \<Longrightarrow> content m = contract_says abi reply (HexToAddress (eth_codec_of e) a)"
proof -
  from assms(2) obtain s where "fetch a (snd w) = (Inr m, s)" by (auto simp: on_env_def split: prod.splits)
  with assms(1) obtain env where "executeResilientRPC env client zero_TokenMetadata (eth_FetchTokenMetadata abi e a) (snd w) = Some (Inr m, s)"
    unfolding application_fetcher_def fetches_def res_FetchTokenMetadata_def by metis
  then obtain v v' where "eth_FetchTokenMetadata abi e a v = (Inr m, v')"
    using executeResilientRPC_success [of client] assms(1) unfolding application_fetcher_def by meson
  from eth_FetchTokenMetadata_success [OF this] show
    "md_Address m = AddressHex (eth_codec_of e) (HexToAddress (eth_codec_of e) a)"
    "steady_node (eth_client e) reply \<Longrightarrow> content m = contract_says abi reply (HexToAddress (eth_codec_of e) a)" .
qed

section \<open>One call at a time\<close>

text \<open>
  C27. With calls that run one at a time, the metadata cache stays coherent with PostgreSQL. The fetcher
  is the application's: the resilient client over \<^verbatim>\<open>EthereumClient.FetchTokenMetadata\<close>, each call under a
  context of its own; the node may answer anything, and differently each time, and the database may
  fail. A call for an address as go-ethereum writes it, in any letter case, keeps each cached entry equal
  to the stored one; a success is cached under the lower-case address and earlier entries are kept;
  an error caches nothing. It is assumed that go-ethereum reads the text of an address back.
\<close>
theorem GetTokenMetadata_keeps_coherent:
  assumes "application_fetcher abi e client fetch" "reads_addresses (eth_codec_of e)" "token_text (eth_codec_of e) a"
    and "cache_coherent c d" and "GetTokenMetadata (pg_service (on_env fetch) pool) a (c, (d, s)) = (r, (c', (d', s')))"
  shows "cache_coherent c' d' \<and> (case r of Inl _ \<Rightarrow> c' = c | Inr m \<Rightarrow> c' = c(ToLower a \<mapsto> m))"
proof -
  have "pg_metadata.coherent (c', (d', s')) \<and> (\<forall>m. r = Inr m \<longrightarrow> c' = c(ToLower a \<mapsto> m)) \<and> (isl r \<longrightarrow> c' = c)"
  proof (rule pg_metadata.GetTokenMetadata_coherent [OF _ _ _ assms(5)])
    show "metadata_view_of w' = metadata_view_of w" if "on_env fetch a w = (r, w')" for a w r w'
      using on_env_frame [OF that] by (simp add: metadata_view_of_def)
    show "ToLower (md_Address m) = ToLower a" if "on_env fetch a w = (Inr m, w')" for w m w'
      unfolding application_fetcher_success(1) [OF assms(1) that] by (rule token_text_read(1) [OF assms(3,2)])
    show "pg_metadata.coherent (c, (d, s))" using assms(4) cache_coherent_iff [of c d s] by blast
  qed
  then show ?thesis by (cases r) (auto simp: cache_coherent_iff [of _ _ s'])
qed

section \<open>A sample node behind the resilient client\<close>

text \<open>Addresses in lower-case hexadecimal, read in any letter case.\<close>

fun hex_bytes :: "string \<Rightarrow> bytes" where
  "hex_bytes (x # y # s) = of_nat (the (hex_val x) * 16 + the (hex_val y)) # hex_bytes s"
| "hex_bytes _ = []"

definition hex_codec :: eth_codec where
  "hex_codec = sample_codec\<lparr>AddressHex := \<lambda>b. ''0x'' @ hex_EncodeToString b,
     HexToAddress := \<lambda>t. hex_bytes (drop 2 (ToLower t)), IsHexAddress := \<lambda>t. length t = 42\<rparr>"

lemma hex_digit_sound: "d < 16 \<Longrightarrow> hex_val (hex_digit d) = Some d \<and> lower_char (hex_digit d) = hex_digit d"
  by (auto simp: hex_digit_def hex_val_def lower_char_def Let_def)

lemma hex_bytes_hex: "hex_bytes (hex_EncodeToString bs) = bs \<and> ToLower (hex_EncodeToString bs) = hex_EncodeToString bs"
proof (induction bs)
  case (Cons b bs)
  have "unat b < 256" using unsigned_less [of b, where ?'a = nat] by simp
  then have "unat b div 16 < 16" "unat b mod 16 < 16" by simp_all
  with Cons hex_digit_sound show ?case
    by (simp add: hex_EncodeToString_def ToLower_def)
qed (simp add: hex_EncodeToString_def ToLower_def)

lemma hex_codec_reads: "reads_addresses hex_codec"
  unfolding reads_addresses_def
proof (intro allI impI, elim conjE)
  fix b t assume "ToLower t = ToLower (AddressHex hex_codec b)"
  then have "HexToAddress hex_codec t = hex_bytes (drop 2 (ToLower (''0x'' @ hex_EncodeToString b)))"
    by (simp add: hex_codec_def)
  also have "ToLower (''0x'' @ hex_EncodeToString b) = ToLower ''0x'' @ hex_EncodeToString b"
    using hex_bytes_hex [of b] by (simp add: ToLower_def)
  finally show "HexToAddress hex_codec t = b" using hex_bytes_hex [of b] by (simp add: ToLower_def)
qed

text \<open>A node that echoes calls, a context that ends when a call has to wait, and a limiter with two tokens. The
  world says whether the context has ended.\<close>

definition token_node :: "bool EthereumClient" where
  "token_node = \<lparr>eth_codec_of = hex_codec,
     eth_client = \<lparr>HeaderByNumber = \<lambda>n w. (Inl (Sentinel EthereumNotFound), w), BlockByNumber = \<lambda>n w. (Inl (Sentinel EthereumNotFound), w),
       TransactionReceipt = \<lambda>h w. (Inl (Sentinel EthereumNotFound), w), FilterLogs = \<lambda>q w. (Inr [], w),
       TransactionSender = \<lambda>tx h i w. (Inr [], w), CallContract = \<lambda>a d w. (Inr d, w)\<rparr>\<rparr>"

definition token_env :: "bool rpc_env" where
  "token_env = \<lparr>ctx_Err = \<lambda>w. if w then Some (Sentinel ContextCanceled) else None, time_Now = \<lambda>w. (0, w),
     rand_Float64 = \<lambda>w. (Finite (1 / 2), w), timer_fires = \<lambda>d w. (False, True), int64_overflow = \<lambda>f. 0\<rparr>"

definition token_client :: "bool ResilientEthereumClient" where
  "token_client =
     \<lparr>rec_next = \<lparr>GetObservedBlockByNumber = \<lambda>n w. (Inr zero_ObservedBlock, w),
        GetERC20TransfersByBlock = \<lambda>b w. (Inr zero_BlockTransferIndex, w), GetLatestObservedBlock = \<lambda>w. (Inr zero_ObservedBlock, w),
        FetchTokenMetadata = eth_FetchTokenMetadata sample_abi token_node\<rparr>,
      rec_policy = \<lparr>maxAttempts = 3, initialBackoff = 200, maxBackoff = 3000, jitterFraction = Finite 0, pol_random = None,
        pol_sleep = sleepWithContext token_env\<rparr>\<rparr>"

definition token_fetch :: "Address \<Rightarrow> bool rpc_world \<Rightarrow> (go_error, TokenMetadata, bool rpc_world) outcome" where
  "token_fetch a s = the (res_FetchTokenMetadata token_env token_client a s)"

lemma token_fetcher: "application_fetcher sample_abi token_node token_client token_fetch"
proof -
  have "context_ends token_env (\<lambda>w. 0)" by (simp add: context_ends_def token_env_def)
  then have "res_FetchTokenMetadata token_env token_client a s \<noteq> None" for a s
    unfolding res_FetchTokenMetadata_def executeResilientRPC_def
    by (intro rpc_attempts_returns limiter_Wait_returns)
  then have "fetches token_client token_fetch" unfolding fetches_def token_fetch_def by auto
  then show ?thesis by (simp add: application_fetcher_def token_client_def)
qed

lemma token_node_steady: "steady_node (eth_client token_node) (\<lambda>a d. d)"
  by (simp add: steady_node_def token_node_def)

definition token_a :: Address where
  "token_a = AddressHex hex_codec (replicate 20 1)"

definition token_b :: Address where
  "token_b = ''0X'' @ drop 2 token_a"

lemma token_addresses:
  "ToLower token_a = token_a" "ToLower token_b = token_a" "length token_a = 42" "length token_b = 42"
  "token_text hex_codec token_a" "token_text hex_codec token_b"
proof -
  have prefix: "ToLower ''0x'' = ''0x''" "ToLower ''0X'' = ''0x''" by code_simp+
  have hex: "ToLower (hex_EncodeToString bs) = hex_EncodeToString bs" for bs using hex_bytes_hex by blast
  have app: "ToLower (s @ t) = ToLower s @ ToLower t" for s t by (simp add: ToLower_def)
  have a: "token_a = ''0x'' @ hex_EncodeToString (replicate 20 1)" by (simp add: token_a_def hex_codec_def)
  have b: "token_b = ''0X'' @ hex_EncodeToString (replicate 20 1)" by (simp add: token_b_def a)
  show lower: "ToLower token_a = token_a" "ToLower token_b = token_a" unfolding a b by (simp_all only: app prefix hex)
  have "length (hex_EncodeToString bs) = 2 * length bs" for bs by (induction bs) (simp_all add: hex_EncodeToString_def)
  then show "length token_a = 42" "length token_b = 42" by (simp_all add: a b)
  from lower show "token_text hex_codec token_a" "token_text hex_codec token_b"
    unfolding token_text_def by (intro exI [of _ "replicate 20 1"], simp add: token_a_def)+
qed

abbreviation token_metadata_of :: "Address \<Rightarrow> TokenMetadata" where
  "token_metadata_of a \<equiv> \<lparr>md_Address = a, md_Name = ''TKN'', md_Symbol = ''TKN'', md_Decimals = 18\<rparr>"

lemma token_read:
  assumes "a = token_a \<or> a = token_b"
  shows "eth_FetchTokenMetadata sample_abi token_node a w = (Inr (token_metadata_of token_a), w)"
proof -
  have "length a = 42" "HexToAddress hex_codec a = replicate 20 1"
    using assms token_addresses hex_codec_reads [unfolded reads_addresses_def, rule_format, of "replicate 20 1" a]
    by (auto simp: token_a_def)
  moreover have "IsHexAddress hex_codec a = (length a = 42)" by (simp add: hex_codec_def)
  ultimately show ?thesis
    by (simp add: eth_FetchTokenMetadata_def callERC20StringMethod_def callERC20Decimals_def sample_abi_def
        token_node_def rpc_classified_def token_a_def)
qed

lemma token_Wait:
  "limiter_Wait token_env (sample_limiter 2) w = Some (Inr (), sample_limiter 1, w)"
  "limiter_Wait token_env (sample_limiter 1) w = Some (Inr (), sample_limiter 0, w)"
  by (subst limiter_Wait.simps,
      simp add: token_env_def sample_limiter_def limiter_poll_def refill_def sample_elapsed sample_spend f_le_def)+

lemma token_fetch_run:
  assumes "a = token_a \<or> a = token_b"
  shows "token_fetch a (sample_limiter 2, m, w) = (Inr (token_metadata_of token_a), (sample_limiter 1, RecordRPCRequest m, w))"
    "token_fetch a (sample_limiter 1, m, w) = (Inr (token_metadata_of token_a), (sample_limiter 0, RecordRPCRequest m, w))"
  unfolding token_fetch_def res_FetchTokenMetadata_def executeResilientRPC_def token_client_def
  by (subst rpc_attempts.simps, simp add: token_Wait token_read [OF assms])+

lemma token_metadata_run:
  "GetTokenMetadata (pg_service (on_env token_fetch) metadata_server) token_b (Map.empty, (empty_db, (sample_limiter 2, m, w))) =
     (Inr (token_metadata_of token_a), ([token_a \<mapsto> token_metadata_of token_a],
       (empty_db\<lparr>token_metadata := [token_a \<mapsto> (''TKN'', ''TKN'', 18)]\<rparr>, (sample_limiter 1, RecordRPCRequest m, w))))"
  by (simp add: GetTokenMetadata_def NewTokenMetadataService_def pg_LoadTokenMetadata_def pg_SaveTokenMetadata_def
      run_statement_def run_auto_def sql_select_metadata_def sql_upsert_metadata_def metadata_server_def on_env_def
      token_fetch_run token_addresses cacheMetadata_def normalizeMetadataAddress_def empty_db_def)

theorem GetTokenMetadata_keeps_coherent_witness:
  "cache_coherent [token_a \<mapsto> token_metadata_of token_a] (empty_db\<lparr>token_metadata := [token_a \<mapsto> (''TKN'', ''TKN'', 18)]\<rparr>)"
proof -
  have "cache_coherent Map.empty empty_db" by (simp add: cache_coherent_def)
  moreover have "eth_codec_of token_node = hex_codec" by (simp add: token_node_def)
  ultimately show ?thesis
    using GetTokenMetadata_keeps_coherent [OF token_fetcher _ _ _ token_metadata_run] hex_codec_reads token_addresses(6) by metis
qed

end
