(* ===== verification/Postgres_Persistence.thy ===== *)
theory Postgres_Persistence
  imports Postgres_Database Continuous_Indexer
begin

text \<open>
  \<^verbatim>\<open>internal/store\<close>: \<^verbatim>\<open>PostgresCheckpointStore\<close>, \<^verbatim>\<open>PostgresBlockTransferStore\<close> and
  \<^verbatim>\<open>PostgresBlockPersistence\<close>. The world is the tables paired with the server's environment. A
  transaction works on a copy of the tables that a commit publishes; every early return leaves
  the tables as they were.
\<close>

section \<open>Checkpoints\<close>

record 'e PostgresCheckpointStore =
  cs_pool :: "'e postgres"
  cs_name :: string

definition NewPostgresCheckpointStore :: "'e postgres \<Rightarrow> string \<Rightarrow> 'e PostgresCheckpointStore" where
  "NewPostgresCheckpointStore pool name = \<lparr>cs_pool = pool, cs_name = name\<rparr>"

definition cs_Load :: "'e PostgresCheckpointStore \<Rightarrow> db \<times> 'e \<Rightarrow>
    (go_error, BlockCheckpoint option, db \<times> 'e) outcome" where
  "cs_Load s w =
     (let (r, w') = run_statement (cs_pool s) (sql_select_checkpoint (cs_name s)) w
      in (classified ErrDatabase ''load checkpoint''
           (case r of
              Inl err \<Rightarrow>
                if errors_is err PgxErrNoRows then Inr None
                else Inl (Wrapf (''failed to load checkpoint '' @ quoted (cs_name s)) err)
            | Inr (blockNumber, blockHash) \<Rightarrow>
                if blockNumber < 0 then
                  Inl (Anonymous (''invalid negative checkpoint block number: '' @ show_int blockNumber))
                else Inr (Some \<lparr>cp_Number = uint64_of blockNumber, cp_Hash = blockHash\<rparr>)), w'))"

text \<open>\<^verbatim>\<open>upsertCheckpoint\<close> on an executor: the guard, then the statement.\<close>

definition upsertCheckpoint :: "((db \<Rightarrow> (go_error, unit, db) outcome) \<Rightarrow> 'w \<Rightarrow> (go_error, unit, 'w) outcome) \<Rightarrow>
    string \<Rightarrow> BlockCheckpoint \<Rightarrow> 'w \<Rightarrow> (go_error, unit, 'w) outcome" where
  "upsertCheckpoint exec name checkpoint w =
     (if unat (cp_Number checkpoint) > 2 ^ 63 - 1 then
        (Inl (Anonymous (''checkpoint block number is too large for PostgreSQL BIGINT: '' @
           show_u64 (cp_Number checkpoint))), w)
      else exec (sql_upsert_checkpoint name (int64_of (cp_Number checkpoint)) (cp_Hash checkpoint)) w)"

definition cs_Save :: "'e PostgresCheckpointStore \<Rightarrow> BlockCheckpoint \<Rightarrow> db \<times> 'e \<Rightarrow>
    (go_error, unit, db \<times> 'e) outcome" where
  "cs_Save s checkpoint w =
     (case upsertCheckpoint (run_auto (cs_pool s)) (cs_name s) checkpoint w of
        (Inl err, w') \<Rightarrow> (classified ErrDatabase ''save checkpoint''
           (Inl (Wrapf (''failed to save checkpoint '' @ quoted (cs_name s)) err)), w')
      | (Inr u, w') \<Rightarrow> (Inr u, w'))"

section \<open>Transfers\<close>

definition row_of :: "BlockTransferIndex \<Rightarrow> ERC20Transfer \<Rightarrow> int \<Rightarrow> transfer_row" where
  "row_of index transfer value =
     \<lparr>r_transaction_hash = tr_TransactionHash transfer, r_log_index = int64_of (tr_LogIndex transfer),
      r_block_number = int64_of (ix_BlockNumber index), r_block_hash = ix_BlockHash index,
      r_token_address = tr_Token transfer, r_from_address = tr_From transfer,
      r_to_address = tr_To transfer, r_value = value\<rparr>"

fun insertBlockTransfers :: "'e postgres \<Rightarrow> BlockTransferIndex \<Rightarrow> ERC20Transfer list \<Rightarrow> db \<times> 'e \<Rightarrow>
    (go_error, unit, db \<times> 'e) outcome" where
  "insertBlockTransfers pg index [] w = (Inr (), w)"
| "insertBlockTransfers pg index (transfer # transfers) w =
     (case tr_Value transfer of
        None \<Rightarrow> (Inl (Anonymous (''transfer '' @ tr_TransactionHash transfer @ '' log '' @
                 show_u64 (tr_LogIndex transfer) @ '' has nil value'')), w)
      | Some value \<Rightarrow>
          (case run_statement pg (sql_insert_transfer (row_of index transfer value)) w of
             (Inl err, w') \<Rightarrow> (Inl (Wrapf (''save transfer '' @ tr_TransactionHash transfer @ '' log '' @
                 show_u64 (tr_LogIndex transfer)) err), w')
           | (Inr _, w') \<Rightarrow> insertBlockTransfers pg index transfers w'))"

text \<open>\<^verbatim>\<open>pool.Begin\<close>, a body on the transaction's copy, \<^verbatim>\<open>Commit\<close>; any failure before the commit
  rolls back.\<close>

definition in_transaction :: "'e postgres \<Rightarrow> string \<Rightarrow> string \<Rightarrow> (db \<times> 'e \<Rightarrow> (go_error, unit, db \<times> 'e) outcome) \<Rightarrow>
    db \<times> 'e \<Rightarrow> (go_error, unit, db \<times> 'e) outcome" where
  "in_transaction pg beginning committing body w =
     (case pg_begin pg (snd w) of
        (Some f, e) \<Rightarrow> (Inl (Wrapf beginning (fault_error f)), (fst w, e))
      | (None, e) \<Rightarrow>
          (case body (fst w, e) of
             (Inl err, (_, e')) \<Rightarrow> (Inl err, (fst w, e'))
           | (Inr _, tx) \<Rightarrow> commit_tx pg committing (fst w) tx))"

definition ts_SaveBlock :: "'e postgres \<Rightarrow> BlockTransferIndex \<Rightarrow> db \<times> 'e \<Rightarrow> (go_error, unit, db \<times> 'e) outcome" where
  "ts_SaveBlock pg index w =
     (let (r, w') = in_transaction pg ''failed to begin transfer transaction''
            ''failed to commit transfer transaction'' (insertBlockTransfers pg index (ix_Transfers index)) w
      in (classified ErrDatabase ''save block transfers'' r, w'))"

section \<open>Blocks\<close>

definition recordIndexedBlock :: "((db \<Rightarrow> (go_error, string, db) outcome) \<Rightarrow> 'w \<Rightarrow> (go_error, string, 'w) outcome) \<Rightarrow>
    u64 \<Rightarrow> BlockHash \<Rightarrow> BlockHash \<Rightarrow> 'w \<Rightarrow> (go_error, unit, 'w) outcome" where
  "recordIndexedBlock query blockNumber blockHash parentHash w =
     (case query (sql_record_block (int64_of blockNumber) blockHash parentHash) w of
        (Inl err, w') \<Rightarrow>
          if errors_is err PgxErrNoRows then
            (Inl (NewDomainError (Some (Sentinel ErrChainReorg)) (''record indexed block '' @ show_u64 blockNumber)
               (Some (Anonymous ''stored block hash conflicts with canonical block hash''))), w')
          else (Inl err, w')
      | (Inr _, w') \<Rightarrow> (Inr (), w'))"

record 'e PostgresBlockPersistence =
  bp_pool :: "'e postgres"
  bp_checkpointName :: string
  bp_beforeCheckpoint :: "('e \<Rightarrow> go_error option \<times> 'e) option"

definition NewPostgresBlockPersistence :: "'e postgres \<Rightarrow> string \<Rightarrow> 'e PostgresBlockPersistence" where
  "NewPostgresBlockPersistence pool checkpointName =
     \<lparr>bp_pool = pool, bp_checkpointName = checkpointName, bp_beforeCheckpoint = None\<rparr>"

definition bp_Load :: "'e PostgresBlockPersistence \<Rightarrow> db \<times> 'e \<Rightarrow>
    (go_error, BlockCheckpoint option, db \<times> 'e) outcome" where
  "bp_Load s w = cs_Load (NewPostgresCheckpointStore (bp_pool s) (bp_checkpointName s)) w"

definition run_hook :: "('e \<Rightarrow> go_error option \<times> 'e) option \<Rightarrow> db \<times> 'e \<Rightarrow> (go_error, unit, db \<times> 'e) outcome" where
  "run_hook hook w =
     (case hook of
        None \<Rightarrow> (Inr (), w)
      | Some h \<Rightarrow> (case h (snd w) of
           (Some err, e) \<Rightarrow> (Inl (Wrapf ''before checkpoint update'' err), (fst w, e))
         | (None, e) \<Rightarrow> (Inr (), (fst w, e))))"

definition save_body :: "'e PostgresBlockPersistence \<Rightarrow> BlockTransferIndex \<Rightarrow> db \<times> 'e \<Rightarrow>
    (go_error, unit, db \<times> 'e) outcome" where
  "save_body s index w =
     (case insertBlockTransfers (bp_pool s) index (ix_Transfers index) w of
        (Inl err, w1) \<Rightarrow> (Inl err, w1)
      | (Inr _, w1) \<Rightarrow>
          (case recordIndexedBlock (run_statement (bp_pool s)) (ix_BlockNumber index) (ix_BlockHash index)
                  (ix_ParentHash index) w1 of
             (Inl err, w2) \<Rightarrow> (Inl err, w2)
           | (Inr _, w2) \<Rightarrow>
               (case run_hook (bp_beforeCheckpoint s) w2 of
                  (Inl err, w3) \<Rightarrow> (Inl err, w3)
                | (Inr _, w3) \<Rightarrow>
                    upsertCheckpoint (run_statement (bp_pool s)) (bp_checkpointName s) (checkpoint_of index) w3)))"

definition bp_SaveIndexedBlock :: "'e PostgresBlockPersistence \<Rightarrow> BlockTransferIndex \<Rightarrow> db \<times> 'e \<Rightarrow>
    (go_error, unit, db \<times> 'e) outcome" where
  "bp_SaveIndexedBlock s index w =
     (let (r, w') = in_transaction (bp_pool s) ''begin indexed block transaction''
            ''commit indexed block transaction'' (save_body s index) w
      in (classified ErrDatabase ''atomically persist indexed block'' r, w'))"

definition bp_EnsureIndexedBlock :: "'e PostgresBlockPersistence \<Rightarrow> BlockCheckpoint \<Rightarrow> db \<times> 'e \<Rightarrow>
    (go_error, unit, db \<times> 'e) outcome" where
  "bp_EnsureIndexedBlock s checkpoint w =
     (let (r, w') = recordIndexedBlock (run_auto (bp_pool s)) (cp_Number checkpoint) (cp_Hash checkpoint) '''' w
      in (classified ErrDatabase ''record checkpoint block history'' r, w'))"

definition bp_LoadIndexedBlockHash :: "'e PostgresBlockPersistence \<Rightarrow> u64 \<Rightarrow> db \<times> 'e \<Rightarrow>
    (go_error, BlockHash option, db \<times> 'e) outcome" where
  "bp_LoadIndexedBlockHash s blockNumber w =
     (let (r, w') = run_statement (bp_pool s) (sql_select_block_hash (int64_of blockNumber)) w
      in (classified ErrDatabase ''load indexed block hash''
           (case r of
              Inl err \<Rightarrow> if errors_is err PgxErrNoRows then Inr None else Inl err
            | Inr storedHash \<Rightarrow> Inr (Some storedHash)), w'))"

definition rollback_body :: "'e PostgresBlockPersistence \<Rightarrow> BlockCheckpoint \<Rightarrow> db \<times> 'e \<Rightarrow>
    (go_error, unit, db \<times> 'e) outcome" where
  "rollback_body s checkpoint w =
     (case run_statement (bp_pool s) (sql_delete_transfers_above (int64_of (cp_Number checkpoint))) w of
        (Inl err, w1) \<Rightarrow> (Inl (Wrapf ''delete orphaned transfers'' err), w1)
      | (Inr _, w1) \<Rightarrow>
          (case run_statement (bp_pool s) (sql_delete_blocks_above (int64_of (cp_Number checkpoint))) w1 of
             (Inl err, w2) \<Rightarrow> (Inl (Wrapf ''delete orphaned block history'' err), w2)
           | (Inr _, w2) \<Rightarrow>
               (case upsertCheckpoint (run_statement (bp_pool s)) (bp_checkpointName s) checkpoint w2 of
                  (Inl err, w3) \<Rightarrow> (Inl (Wrapf ''move checkpoint to common ancestor'' err), w3)
                | (Inr u, w3) \<Rightarrow> (Inr u, w3))))"

definition bp_RollbackTo :: "'e PostgresBlockPersistence \<Rightarrow> BlockCheckpoint \<Rightarrow> db \<times> 'e \<Rightarrow>
    (go_error, unit, db \<times> 'e) outcome" where
  "bp_RollbackTo s checkpoint w =
     (let (r, w') = in_transaction (bp_pool s) ''begin reorg rollback transaction''
            ''commit reorg rollback'' (rollback_body s checkpoint) w
      in (classified ErrDatabase ''roll back orphaned indexed blocks'' r, w'))"

definition pg_persistence :: "'e PostgresBlockPersistence \<Rightarrow> (db \<times> 'e) ReorgPersistence" where
  "pg_persistence s =
     \<lparr>Load = bp_Load s, SaveIndexedBlock = bp_SaveIndexedBlock s,
      EnsureIndexedBlock = bp_EnsureIndexedBlock s, LoadIndexedBlockHash = bp_LoadIndexedBlockHash s,
      RollbackTo = bp_RollbackTo s\<rparr>"

section \<open>Effects of the statements\<close>

definition rows_of :: "BlockTransferIndex \<Rightarrow> ERC20Transfer list \<Rightarrow> transfer_row list" where
  "rows_of index transfers = map (\<lambda>t. row_of index t (the (tr_Value t))) transfers"

lemma sql_insert_transfer_Inr:
  "fst (sql_insert_transfer row d) = Inr u \<Longrightarrow>
   snd (sql_insert_transfer row d) = d\<lparr>erc20_transfers := erc20_transfers d @
     (if row_key row \<in> row_key ` set (erc20_transfers d) then [] else [row])\<rparr>"
  by (auto simp: sql_insert_transfer_def split: if_splits)

text \<open>The rows the inserts add, in order: those whose key is not there yet.\<close>

fun added_rows :: "(string \<times> int) set \<Rightarrow> transfer_row list \<Rightarrow> transfer_row list" where
  "added_rows keys [] = []"
| "added_rows keys (r # rs) =
     (if row_key r \<in> keys then added_rows keys rs else r # added_rows (insert (row_key r) keys) rs)"

lemma insertBlockTransfers_Inr:
  assumes "insertBlockTransfers pg index ts (d, e) = (Inr u, (d', e'))"
  shows "d' = d\<lparr>erc20_transfers := erc20_transfers d @
           added_rows (row_key ` set (erc20_transfers d)) (rows_of index ts)\<rparr> \<and>
         (\<forall>t \<in> set ts. tr_Value t \<noteq> None) \<and>
         (\<forall>r \<in> set (rows_of index ts). - (2 ^ 31) \<le> r_log_index r \<and> r_log_index r < 2 ^ 31 \<and> \<bar>r_value r\<bar> < 10 ^ 78)"
  using assms
proof (induction ts arbitrary: d e)
  case Nil
  then show ?case by (auto simp: rows_of_def)
next
  case (Cons t ts)
  from Cons.prems obtain v w1 where v: "tr_Value t = Some v"
    and ins: "run_statement pg (sql_insert_transfer (row_of index t v)) (d, e) = (Inr (), w1)"
    and rest: "insertBlockTransfers pg index ts w1 = (Inr u, (d', e'))"
    by (auto split: option.splits prod.splits sum.splits)
  from ins obtain e1 where w1: "fst (sql_insert_transfer (row_of index t v) d) = Inr ()"
    "w1 = (snd (sql_insert_transfer (row_of index t v) d), e1)"
    by (cases rule: run_statement_cases) auto
  have range: "- (2 ^ 31) \<le> r_log_index (row_of index t v)" "r_log_index (row_of index t v) < 2 ^ 31"
    "\<bar>r_value (row_of index t v)\<bar> < 10 ^ 78"
    using w1(1) by (auto simp: sql_insert_transfer_def split: if_splits)
  from Cons.IH [OF rest [unfolded w1(2)]] v range sql_insert_transfer_Inr [OF w1(1)]
  show ?case by (auto simp: rows_of_def insert_commute)
qed

lemma insertBlockTransfers_frame:
  "insertBlockTransfers pg index ts w = (r, w') \<Longrightarrow>
   checkpoints (fst w') = checkpoints (fst w) \<and> indexed_blocks (fst w') = indexed_blocks (fst w)"
proof (induction pg index ts w arbitrary: r w' rule: insertBlockTransfers.induct)
  case (2 pg index t ts w)
  show ?case
  proof (cases "tr_Value t")
    case None
    with "2.prems" show ?thesis by auto
  next
    case (Some v)
    obtain r1 w1 where ins: "run_statement pg (sql_insert_transfer (row_of index t v)) w = (r1, w1)" by (rule prod.exhaust)
    then have "checkpoints (fst w1) = checkpoints (fst w) \<and> indexed_blocks (fst w1) = indexed_blocks (fst w)"
      by (cases rule: run_statement_cases) (auto simp: sql_insert_transfer_def)
    with "2.prems" "2.IH" [OF Some ins [symmetric]] Some ins show ?thesis
      by (cases r1) auto
  qed
qed simp

lemma added_rows_keys:
  "distinct (map row_key (added_rows K rs)) \<and> row_key ` set (added_rows K rs) = row_key ` set rs - K \<and>
   set (added_rows K rs) \<subseteq> set rs"
  by (induction K rs rule: added_rows.induct) auto

lemma db_ok_added_rows:
  assumes "db_ok d" "\<forall>r \<in> set rs. 0 \<le> r_block_number r \<and> r_block_number r < 2 ^ 63 \<and>
      - (2 ^ 31) \<le> r_log_index r \<and> r_log_index r < 2 ^ 31 \<and> \<bar>r_value r\<bar> < 10 ^ 78"
  shows "db_ok (d\<lparr>erc20_transfers := erc20_transfers d @ added_rows (row_key ` set (erc20_transfers d)) rs\<rparr>)"
  using assms added_rows_keys [of "row_key ` set (erc20_transfers d)" rs]
  unfolding db_ok_def by (auto 4 4)

section \<open>The persistence implements the contracts\<close>

text \<open>The transfers of a table by key, as the domain sees them.\<close>

definition kept_row :: "transfer_row \<Rightarrow> kept_transfer" where
  "kept_row r = \<lparr>kt_BlockNumber = uint64_of (r_block_number r), kt_BlockHash = r_block_hash r,
     kt_Token = r_token_address r, kt_From = r_from_address r, kt_To = r_to_address r, kt_Value = Some (r_value r)\<rparr>"

abbreviation by_key :: "transfer_row list \<Rightarrow> string \<times> int \<rightharpoonup> transfer_row" where
  "by_key rows \<equiv> map_of (map (\<lambda>r. (row_key r, r)) rows)"

definition kept_rows :: "transfer_row list \<Rightarrow> kept_transfers" where
  "kept_rows rows = (\<lambda>(h, i). map_option kept_row (by_key rows (h, int64_of i)))"

lemma by_key_added: "k \<notin> K \<Longrightarrow> by_key (added_rows K rs) k = by_key rs k"
  by (induction K rs rule: added_rows.induct) auto

lemma by_key_None: "by_key rows k = None \<longleftrightarrow> k \<notin> row_key ` set rows"
  by (auto simp: map_of_eq_None_iff image_iff)

lemma by_key_Some: "by_key rows k = Some r \<Longrightarrow> r \<in> set rows \<and> row_key r = k"
  by (auto dest!: map_of_SomeD)

lemma by_key_filter:
  assumes "distinct (map row_key rows)"
  shows "by_key (filter P rows) k = (case by_key rows k of None \<Rightarrow> None | Some r \<Rightarrow> if P r then Some r else None)"
  using assms
proof (induction rows)
  case (Cons r rows)
  then show ?case by (auto simp: by_key_None image_iff split: option.splits dest!: by_key_Some)
qed simp

lemma kept_rows_of:
  assumes "\<forall>t \<in> set ts. tr_Value t \<noteq> None"
  shows "map_option kept_row (by_key (rows_of index ts) (h, int64_of i)) =
    map_of (map (\<lambda>t. ((tr_TransactionHash t, tr_LogIndex t),
     \<lparr>kt_BlockNumber = ix_BlockNumber index, kt_BlockHash = ix_BlockHash index, kt_Token = tr_Token t,
      kt_From = tr_From t, kt_To = tr_To t, kt_Value = tr_Value t\<rparr>)) ts) (h, i)"
  using assms by (induction ts) (auto simp: rows_of_def row_of_def kept_row_def)

lemma kept_rows_saved:
  assumes "\<forall>t \<in> set (ix_Transfers index). tr_Value t \<noteq> None"
  shows "kept_rows (rows @ added_rows (row_key ` set rows) (rows_of index (ix_Transfers index))) =
    kept_transfers_of index ++ kept_rows rows"
proof (rule ext)
  fix k :: "TransactionHash \<times> u64"
  obtain h i where k: "k = (h, i)" by (rule prod.exhaust)
  let ?K = "row_key ` set rows" and ?rs = "rows_of index (ix_Transfers index)"
  show "kept_rows (rows @ added_rows ?K ?rs) k = (kept_transfers_of index ++ kept_rows rows) k"
  proof (cases "by_key rows (h, int64_of i)")
    case None
    then have "(h, int64_of i) \<notin> ?K" by (simp only: by_key_None not_False_eq_True)
    from by_key_added [OF this] None kept_rows_of [OF assms, of index h i] show ?thesis
      by (simp add: k kept_rows_def kept_transfers_of_def map_add_def)
  next
    case (Some r)
    then show ?thesis by (simp add: k kept_rows_def map_add_def)
  qed
qed

lemma kept_rows_rolled_back:
  assumes "db_ok d" "unat n < 2 ^ 63"
  shows "kept_rows (filter (\<lambda>r. \<not> r_block_number r > int (unat n)) (erc20_transfers d)) =
    kept_rows (erc20_transfers d) |` {k. \<forall>t. kept_rows (erc20_transfers d) k = Some t \<longrightarrow> kt_BlockNumber t \<le> n}"
proof (rule ext)
  fix k :: "TransactionHash \<times> u64"
  obtain h i where k: "k = (h, i)" by (rule prod.exhaust)
  have distinct: "distinct (map row_key (erc20_transfers d))" using assms(1) by (simp add: db_ok_def)
  have le: "uint64_of (r_block_number r) \<le> n \<longleftrightarrow> \<not> r_block_number r > int (unat n)" if "r \<in> set (erc20_transfers d)" for r
  proof -
    from that assms(1) have "0 \<le> r_block_number r" "r_block_number r < 2 ^ 63" by (auto simp: db_ok_def)
    then show ?thesis by (simp add: word_le_def uint64_of_def uint_word_of_int not_less)
  qed
  show "kept_rows (filter (\<lambda>r. \<not> r_block_number r > int (unat n)) (erc20_transfers d)) k =
    (kept_rows (erc20_transfers d) |` {k. \<forall>t. kept_rows (erc20_transfers d) k = Some t \<longrightarrow> kt_BlockNumber t \<le> n}) k"
    using le by (cases "by_key (erc20_transfers d) (h, int64_of i)")
      (auto simp: k kept_rows_def by_key_filter [OF distinct] kept_row_def restrict_map_def dest!: by_key_Some)
qed

definition pg_view :: "string \<Rightarrow> db \<times> 'e \<Rightarrow> chain_view" where
  "pg_view name w =
     \<lparr>cv_checkpoint = map_option (\<lambda>(n, h). \<lparr>cp_Number = uint64_of n, cp_Hash = h\<rparr>) (checkpoints (fst w) name),
      cv_hashes = (\<lambda>n. map_option fst (indexed_blocks (fst w) (int64_of n))),
      cv_transfers = Some (kept_rows (erc20_transfers (fst w)))\<rparr>"

abbreviation pg_inv :: "db \<times> 'e \<Rightarrow> bool" where
  "pg_inv w \<equiv> db_ok (fst w)"

text \<open>A transaction either leaves the tables alone or leaves what its body made of them.\<close>

lemma in_transaction_cases:
  assumes "in_transaction pg b c body w = (r, w')"
  obtains (aborted) "isl r" "fst w' = fst w"
    | (applied) e u d e' where "body (fst w, e) = (Inr u, (d, e'))" "fst w' = d"
  using assms
  by (auto simp: in_transaction_def commit_tx_def split: prod.splits option.splits sum.splits commit_reply.splits)

lemma in_transaction_Inr:
  assumes "in_transaction pg b c body w = (Inr x, w')"
  obtains e u d e' where "body (fst w, e) = (Inr u, (d, e'))" "fst w' = d"
  using assms by (cases rule: in_transaction_cases) auto

lemma upsertCheckpoint_Inr:
  assumes "upsertCheckpoint (run_statement pg) name cp w = (Inr u, w')"
  shows "unat (cp_Number cp) < 2 ^ 63" "fst w' = (fst w)\<lparr>checkpoints :=
      (checkpoints (fst w))(name \<mapsto> (int64_of (cp_Number cp), cp_Hash cp))\<rparr>"
proof -
  from assms show "unat (cp_Number cp) < 2 ^ 63"
    by (auto simp: upsertCheckpoint_def split: if_splits)
  from assms have "run_statement pg (sql_upsert_checkpoint name (int64_of (cp_Number cp)) (cp_Hash cp)) w = (Inr u, w')"
    by (auto simp: upsertCheckpoint_def split: if_splits)
  then show "fst w' = (fst w)\<lparr>checkpoints :=
      (checkpoints (fst w))(name \<mapsto> (int64_of (cp_Number cp), cp_Hash cp))\<rparr>"
    by (cases rule: run_statement_cases) (auto simp: sql_upsert_checkpoint_def)
qed

text \<open>The parent hash a history row has after block \<open>n\<close> was recorded: the first non-empty one.\<close>

definition kept_parent :: "db \<Rightarrow> int \<Rightarrow> BlockHash \<Rightarrow> BlockHash" where
  "kept_parent d n parentHash =
     (case indexed_blocks d n of
        None \<Rightarrow> parentHash
      | Some (_, parent) \<Rightarrow> if parent = '''' then parentHash else parent)"

lemma sql_record_block_Inr:
  assumes "fst (sql_record_block n h p d) = Inr x"
  shows "0 \<le> n" "snd (sql_record_block n h p d) =
      d\<lparr>indexed_blocks := (indexed_blocks d)(n \<mapsto> (h, kept_parent d n p))\<rparr>"
    "\<And>h' p'. indexed_blocks d n = Some (h', p') \<Longrightarrow> h' = h"
  using assms by (auto simp: sql_record_block_def kept_parent_def split: if_splits option.splits)

lemma recordIndexedBlock_Inr:
  assumes "recordIndexedBlock (run_statement pg) n h p w = (Inr u, w')"
  shows "unat n < 2 ^ 63" "fst w' = (fst w)\<lparr>indexed_blocks :=
      (indexed_blocks (fst w))(int64_of n \<mapsto> (h, kept_parent (fst w) (int64_of n) p))\<rparr>"
    "\<And>h' p'. indexed_blocks (fst w) (int64_of n) = Some (h', p') \<Longrightarrow> h' = h"
proof -
  from assms obtain x where
    "run_statement pg (sql_record_block (int64_of n) h p) w = (Inr x, w')"
    by (auto simp: recordIndexedBlock_def split: prod.splits sum.splits if_splits)
  then have x: "fst (sql_record_block (int64_of n) h p (fst w)) = Inr x"
    "fst w' = snd (sql_record_block (int64_of n) h p (fst w))"
    by (cases rule: run_statement_cases; auto)+
  from sql_record_block_Inr(1) [OF x(1)] int64_of_neg_iff [of n] show "unat n < 2 ^ 63" by linarith
  from sql_record_block_Inr(2) [OF x(1)] x(2)
  show "fst w' = (fst w)\<lparr>indexed_blocks :=
      (indexed_blocks (fst w))(int64_of n \<mapsto> (h, kept_parent (fst w) (int64_of n) p))\<rparr>" by simp
  show "h' = h" if "indexed_blocks (fst w) (int64_of n) = Some (h', p')" for h' p'
    using sql_record_block_Inr(3) [OF x(1) that] .
qed

text \<open>The tables after a complete save.\<close>

lemma save_body_Inr:
  assumes "save_body s index (d, e) = (Inr u, (d', e'))"
  shows "unat (ix_BlockNumber index) < 2 ^ 63" "\<forall>t \<in> set (ix_Transfers index). tr_Value t \<noteq> None"
    "\<forall>r \<in> set (rows_of index (ix_Transfers index)).
       - (2 ^ 31) \<le> r_log_index r \<and> r_log_index r < 2 ^ 31 \<and> \<bar>r_value r\<bar> < 10 ^ 78"
    "d' = d\<lparr>erc20_transfers := erc20_transfers d @
           added_rows (row_key ` set (erc20_transfers d)) (rows_of index (ix_Transfers index)),
         indexed_blocks := (indexed_blocks d)(int64_of (ix_BlockNumber index) \<mapsto>
           (ix_BlockHash index, kept_parent d (int64_of (ix_BlockNumber index)) (ix_ParentHash index))),
         checkpoints := (checkpoints d)(bp_checkpointName s \<mapsto>
           (int64_of (ix_BlockNumber index), ix_BlockHash index))\<rparr>"
    "\<And>h p. indexed_blocks d (int64_of (ix_BlockNumber index)) = Some (h, p) \<Longrightarrow> h = ix_BlockHash index"
proof -
  from assms obtain d1 e1 w2 w3 where
    i: "insertBlockTransfers (bp_pool s) index (ix_Transfers index) (d, e) = (Inr (), (d1, e1))" and
    rc: "recordIndexedBlock (run_statement (bp_pool s)) (ix_BlockNumber index) (ix_BlockHash index)
       (ix_ParentHash index) (d1, e1) = (Inr (), w2)" and
    hk: "run_hook (bp_beforeCheckpoint s) w2 = (Inr (), w3)" and
    up: "upsertCheckpoint (run_statement (bp_pool s)) (bp_checkpointName s) (checkpoint_of index) w3 = (Inr u, (d', e'))"
    by (auto simp: save_body_def split: prod.splits sum.splits)
  from hk have w3: "fst w3 = fst w2"
    by (auto simp: run_hook_def split: option.splits prod.splits)
  note i = insertBlockTransfers_Inr [OF i] and rc = recordIndexedBlock_Inr [OF rc] and up = upsertCheckpoint_Inr [OF up]
  show "unat (ix_BlockNumber index) < 2 ^ 63" by (fact rc(1))
  show "\<forall>t \<in> set (ix_Transfers index). tr_Value t \<noteq> None"
    "\<forall>r \<in> set (rows_of index (ix_Transfers index)).
       - (2 ^ 31) \<le> r_log_index r \<and> r_log_index r < 2 ^ 31 \<and> \<bar>r_value r\<bar> < 10 ^ 78"
    using i by auto
  show "d' = d\<lparr>erc20_transfers := erc20_transfers d @
           added_rows (row_key ` set (erc20_transfers d)) (rows_of index (ix_Transfers index)),
         indexed_blocks := (indexed_blocks d)(int64_of (ix_BlockNumber index) \<mapsto>
           (ix_BlockHash index, kept_parent d (int64_of (ix_BlockNumber index)) (ix_ParentHash index))),
         checkpoints := (checkpoints d)(bp_checkpointName s \<mapsto>
           (int64_of (ix_BlockNumber index), ix_BlockHash index))\<rparr>"
    using rc(2) up(2) i w3 by (auto simp: kept_parent_def)
  show "h = ix_BlockHash index" if "indexed_blocks d (int64_of (ix_BlockNumber index)) = Some (h, p)" for h p
    using rc(3) i that by auto
qed

lemma save_body_applies:
  assumes "save_body s index (d, e) = (Inr u, (d', e'))" "db_ok d"
  shows "db_ok d'" "pg_view (bp_checkpointName s) (d', e'') = commit_view index (pg_view (bp_checkpointName s) (d, e))"
proof -
  note sv = save_body_Inr [OF assms(1)]
  let ?n = "ix_BlockNumber index"
  let ?d = "d\<lparr>erc20_transfers := erc20_transfers d @
           added_rows (row_key ` set (erc20_transfers d)) (rows_of index (ix_Transfers index))\<rparr>"
  let ?p = "kept_parent d (int64_of ?n) (ix_ParentHash index)"
  from sv(4) have d': "d' = ?d\<lparr>
      indexed_blocks := (indexed_blocks d)(int64_of ?n \<mapsto> (ix_BlockHash index, ?p)),
      checkpoints := (checkpoints d)(bp_checkpointName s \<mapsto> (int64_of ?n, ix_BlockHash index))\<rparr>" by auto
  have n: "0 \<le> int64_of ?n" "int64_of ?n < 2 ^ 63"
    using int64_of_neg_iff [of ?n] int64_of_range [of ?n] sv(1) by linarith+
  have "db_ok ?d"
    using sv(3) n assms(2) by (intro db_ok_added_rows) (auto simp: rows_of_def row_of_def)
  then show "db_ok d'" using n by (auto simp: d' db_ok_def)
  show "pg_view (bp_checkpointName s) (d', e'') = commit_view index (pg_view (bp_checkpointName s) (d, e))"
    using kept_rows_saved [OF sv(2), of "erc20_transfers d"]
    by (simp add: pg_view_def d' commit_view_def checkpoint_of_def) (auto intro!: ext)
qed

lemma rollback_body_tables:
  assumes "rollback_body s cp (d, e) = (Inr u, (d', e'))"
  shows "unat (cp_Number cp) < 2 ^ 63"
    "d' = d\<lparr>erc20_transfers := filter (\<lambda>r. \<not> r_block_number r > int (unat (cp_Number cp))) (erc20_transfers d),
         indexed_blocks := (\<lambda>k. if k > int (unat (cp_Number cp)) then None else indexed_blocks d k),
         checkpoints := (checkpoints d)(bp_checkpointName s \<mapsto> (int (unat (cp_Number cp)), cp_Hash cp))\<rparr>"
proof -
  from assms(1) obtain w1 w2 where
    t: "run_statement (bp_pool s) (sql_delete_transfers_above (int64_of (cp_Number cp))) (d, e) = (Inr (), w1)" and
    b: "run_statement (bp_pool s) (sql_delete_blocks_above (int64_of (cp_Number cp))) w1 = (Inr (), w2)" and
    up: "upsertCheckpoint (run_statement (bp_pool s)) (bp_checkpointName s) cp w2 = (Inr u, (d', e'))"
    by (auto simp: rollback_body_def split: prod.splits sum.splits)
  note up = upsertCheckpoint_Inr [OF up]
  note n = int64_of_nonneg [OF up(1)]
  show "unat (cp_Number cp) < 2 ^ 63" by (rule up(1))
  from t have "fst w1 = snd (sql_delete_transfers_above (int64_of (cp_Number cp)) d)"
    by (cases rule: run_statement_cases) auto
  moreover from b have "fst w2 = snd (sql_delete_blocks_above (int64_of (cp_Number cp)) (fst w1))"
    by (cases rule: run_statement_cases) auto
  ultimately show "d' = d\<lparr>erc20_transfers := filter (\<lambda>r. \<not> r_block_number r > int (unat (cp_Number cp))) (erc20_transfers d),
         indexed_blocks := (\<lambda>k. if k > int (unat (cp_Number cp)) then None else indexed_blocks d k),
         checkpoints := (checkpoints d)(bp_checkpointName s \<mapsto> (int (unat (cp_Number cp)), cp_Hash cp))\<rparr>"
    using up(2) by (simp add: n sql_delete_transfers_above_def sql_delete_blocks_above_def cong: if_cong)
qed

lemma rollback_body_applies:
  assumes "rollback_body s cp (d, e) = (Inr u, (d', e'))" "db_ok d"
  shows "db_ok d'" "pg_view (bp_checkpointName s) (d', e'') = rollback_view cp (pg_view (bp_checkpointName s) (d, e))"
proof -
  note tables = rollback_body_tables [OF assms(1)]
  note d' = tables(2)
  have "int (unat (cp_Number cp)) < 2 ^ 63"
    using int64_of_nonneg [OF tables(1)] int64_of_range [of "cp_Number cp"] by simp
  then show "db_ok d'"
    using assms(2) unfolding d' db_ok_def
    by (auto simp: distinct_map_filter split: if_splits)
  have none: "indexed_blocks d (int64_of k) = None" if "unat k \<ge> 2 ^ 63" for k
    using assms(2) that int64_of_neg_iff [of k] db_ok_no_negative by blast
  have "(if int64_of k > int (unat (cp_Number cp)) then None else indexed_blocks d (int64_of k)) =
      (if k \<le> cp_Number cp then indexed_blocks d (int64_of k) else None)" for k
  proof (cases "unat k < 2 ^ 63")
    case True
    then show ?thesis by (auto simp: int64_of_nonneg word_le_def)
  next
    case False
    then show ?thesis using none [of k] by simp
  qed
  then show "pg_view (bp_checkpointName s) (d', e'') = rollback_view cp (pg_view (bp_checkpointName s) (d, e))"
    using kept_rows_rolled_back [OF assms(2) tables(1)]
    by (simp add: pg_view_def d' rollback_view_def uint64_of_def) (auto simp: restrict_map_def intro!: ext)
qed

lemma pg_view_cong: "fst w' = fst w \<Longrightarrow> pg_view name w' = pg_view name w"
  by (simp add: pg_view_def)

lemma bp_Load_frame: "bp_Load s w = (r, w') \<Longrightarrow> fst w' = fst w"
  by (auto simp: bp_Load_def cs_Load_def sql_select_checkpoint_def split: prod.splits option.splits
      elim!: run_statement_cases)

lemma bp_Load_value:
  assumes "db_ok (fst w)" "bp_Load s w = (Inr cp, w')"
  shows "cp = cv_checkpoint (pg_view (bp_checkpointName s) w)"
proof -
  from assms(2) obtain r where
    st: "run_statement (bp_pool s) (sql_select_checkpoint (bp_checkpointName s)) w = (r, w')"
    by (auto simp: bp_Load_def cs_Load_def NewPostgresCheckpointStore_def split: prod.splits)
  then show ?thesis
    using assms db_ok_checkpoint [OF assms(1), of "bp_checkpointName s"]
    by (cases rule: run_statement_cases)
      (auto simp: st bp_Load_def cs_Load_def NewPostgresCheckpointStore_def sql_select_checkpoint_def pg_view_def
        split: option.splits if_splits)
qed

lemma bp_SaveIndexedBlock_cases:
  assumes "db_ok (fst w)" "bp_SaveIndexedBlock s index w = (r, w')"
  shows "db_ok (fst w')" "r = Inr u \<Longrightarrow> pg_view (bp_checkpointName s) w' =
      commit_view index (pg_view (bp_checkpointName s) w)"
    "pg_view (bp_checkpointName s) w' \<in>
      {pg_view (bp_checkpointName s) w, commit_view index (pg_view (bp_checkpointName s) w)}"
proof -
  from assms(2) obtain r0 where tx: "in_transaction (bp_pool s) ''begin indexed block transaction''
      ''commit indexed block transaction'' (save_body s index) w = (r0, w')"
    and r: "r = classified ErrDatabase ''atomically persist indexed block'' r0"
    by (auto simp: bp_SaveIndexedBlock_def split: prod.splits)
  have "db_ok (fst w') \<and> pg_view (bp_checkpointName s) w' =
      (if fst w' = fst w \<and> isl r0 then pg_view (bp_checkpointName s) w
       else commit_view index (pg_view (bp_checkpointName s) w))"
    using tx
  proof (cases rule: in_transaction_cases)
    case aborted
    with assms(1) show ?thesis by (auto intro: pg_view_cong)
  next
    case (applied e u d e')
    note ap = save_body_applies [OF applied(1) assms(1)]
    from ap(2) [of "snd w'"] applied(2)
    have "pg_view (bp_checkpointName s) w' = commit_view index (pg_view (bp_checkpointName s) w)"
      by (cases w') (simp add: pg_view_cong [of "(fst w, e)" w])
    with ap(1) applied(2) pg_view_cong [of w' w "bp_checkpointName s"] show ?thesis by auto
  qed
  then show "db_ok (fst w')" "r = Inr u \<Longrightarrow> pg_view (bp_checkpointName s) w' =
      commit_view index (pg_view (bp_checkpointName s) w)"
    "pg_view (bp_checkpointName s) w' \<in>
      {pg_view (bp_checkpointName s) w, commit_view index (pg_view (bp_checkpointName s) w)}"
    by (auto simp: r)
qed

lemma bp_RollbackTo_cases:
  assumes "db_ok (fst w)" "bp_RollbackTo s cp w = (r, w')"
  shows "db_ok (fst w')" "r = Inr u \<Longrightarrow> pg_view (bp_checkpointName s) w' =
      rollback_view cp (pg_view (bp_checkpointName s) w)"
    "pg_view (bp_checkpointName s) w' \<in>
      {pg_view (bp_checkpointName s) w, rollback_view cp (pg_view (bp_checkpointName s) w)}"
proof -
  from assms(2) obtain r0 where tx: "in_transaction (bp_pool s) ''begin reorg rollback transaction''
      ''commit reorg rollback'' (rollback_body s cp) w = (r0, w')"
    and r: "r = classified ErrDatabase ''roll back orphaned indexed blocks'' r0"
    by (auto simp: bp_RollbackTo_def split: prod.splits)
  have "db_ok (fst w') \<and> pg_view (bp_checkpointName s) w' =
      (if fst w' = fst w \<and> isl r0 then pg_view (bp_checkpointName s) w
       else rollback_view cp (pg_view (bp_checkpointName s) w))"
    using tx
  proof (cases rule: in_transaction_cases)
    case aborted
    with assms(1) show ?thesis by (auto intro: pg_view_cong)
  next
    case (applied e u d e')
    note ap = rollback_body_applies [OF applied(1) assms(1)]
    from ap(2) [of "snd w'"] applied(2)
    have "pg_view (bp_checkpointName s) w' = rollback_view cp (pg_view (bp_checkpointName s) w)"
      by (cases w') (simp add: pg_view_cong [of "(fst w, e)" w])
    with ap(1) applied(2) pg_view_cong [of w' w "bp_checkpointName s"] show ?thesis by auto
  qed
  then show "db_ok (fst w')" "r = Inr u \<Longrightarrow> pg_view (bp_checkpointName s) w' =
      rollback_view cp (pg_view (bp_checkpointName s) w)"
    "pg_view (bp_checkpointName s) w' \<in>
      {pg_view (bp_checkpointName s) w, rollback_view cp (pg_view (bp_checkpointName s) w)}"
    by (auto simp: r)
qed

lemma bp_LoadIndexedBlockHash_frame: "bp_LoadIndexedBlockHash s n w = (r, w') \<Longrightarrow> fst w' = fst w"
  by (auto simp: bp_LoadIndexedBlockHash_def sql_select_block_hash_def split: prod.splits option.splits
      elim!: run_statement_cases)

lemma bp_LoadIndexedBlockHash_value:
  assumes "bp_LoadIndexedBlockHash s n w = (Inr found, w')"
  shows "found = cv_hashes (pg_view (bp_checkpointName s) w) n"
proof -
  from assms obtain r where
    st: "run_statement (bp_pool s) (sql_select_block_hash (int64_of n)) w = (r, w')"
    by (auto simp: bp_LoadIndexedBlockHash_def split: prod.splits)
  then show ?thesis
    using assms
    by (cases rule: run_statement_cases)
      (auto simp: st bp_LoadIndexedBlockHash_def sql_select_block_hash_def pg_view_def
        split: option.splits if_splits)
qed

lemma ensure_applies:
  assumes "db_ok (fst w)" "fst (sql_record_block (int64_of (cp_Number cp)) (cp_Hash cp) p (fst w)) = Inr x"
    "fst w' = snd (sql_record_block (int64_of (cp_Number cp)) (cp_Hash cp) p (fst w))"
  shows "db_ok (fst w')" "pg_view name w' = ensure_view cp (pg_view name w)"
proof -
  show "db_ok (fst w')"
    using assms(3) db_ok_record_block [OF assms(1)] int64_of_range [of "cp_Number cp"] by simp
  from sql_record_block_Inr(2) [OF assms(2)] assms(3) show "pg_view name w' = ensure_view cp (pg_view name w)"
    by (auto simp: pg_view_def ensure_view_def intro!: ext)
qed

lemma bp_EnsureIndexedBlock_cases:
  assumes "db_ok (fst w)" "bp_EnsureIndexedBlock s cp w = (r, w')"
  shows "db_ok (fst w')" "r = Inr u \<Longrightarrow> pg_view name w' = ensure_view cp (pg_view name w)"
    "pg_view name w' \<in> {pg_view name w, ensure_view cp (pg_view name w)}"
    "cv_hashes (pg_view name w) (cp_Number cp) = Some h \<Longrightarrow> h \<noteq> cp_Hash cp \<Longrightarrow> isl r"
proof -
  let ?stmt = "sql_record_block (int64_of (cp_Number cp)) (cp_Hash cp) ''''"
  from assms(2) obtain r0 where au: "run_auto (bp_pool s) ?stmt w = (r0, w')" and lr: "isl r = isl r0"
    by (auto simp: bp_EnsureIndexedBlock_def recordIndexedBlock_def split: prod.splits sum.splits if_splits)
  have "db_ok (fst w') \<and> (isl r0 \<and> pg_view name w' \<in> {pg_view name w, ensure_view cp (pg_view name w)} \<or>
      \<not> isl r0 \<and> pg_view name w' = ensure_view cp (pg_view name w) \<and> (\<exists>x. fst (?stmt (fst w)) = Inr x))"
    using au
  proof (cases rule: run_auto_cases)
    case (failed err e)
    with assms(1) show ?thesis by (auto intro: pg_view_cong)
  next
    case (lost x f e)
    with ensure_applies(1) [OF assms(1) lost(2), of w'] ensure_applies(2) [OF assms(1) lost(2), of w' name] show ?thesis by auto
  next
    case (ran x e)
    with ensure_applies(1) [OF assms(1) ran(2), of w'] ensure_applies(2) [OF assms(1) ran(2), of w' name] show ?thesis by auto
  qed
  then show "db_ok (fst w')" "r = Inr u \<Longrightarrow> pg_view name w' = ensure_view cp (pg_view name w)"
    "pg_view name w' \<in> {pg_view name w, ensure_view cp (pg_view name w)}"
    "cv_hashes (pg_view name w) (cp_Number cp) = Some h \<Longrightarrow> h \<noteq> cp_Hash cp \<Longrightarrow> isl r"
    using lr by (auto simp: pg_view_def dest: sql_record_block_Inr(3))
qed

interpretation pg: reorg_persistence
  "bp_Load s" "bp_SaveIndexedBlock s" "pg_view (bp_checkpointName s)" pg_inv
  "bp_EnsureIndexedBlock s" "bp_LoadIndexedBlockHash s" "bp_RollbackTo s"
  for s :: "'e PostgresBlockPersistence"
proof (unfold_locales, goal_cases)
  case (1 w r w')
  then show ?case using bp_Load_frame [of s w] by (auto intro: pg_view_cong)
next
  case (2 w cp w')
  then show ?case by (rule bp_Load_value)
next
  case (3 w ix u w')
  then show ?case using bp_SaveIndexedBlock_cases [of w s ix] by blast
next
  case (4 w ix e w')
  then show ?case using bp_SaveIndexedBlock_cases [of w s ix] by blast
next
  case (5 w cp u w')
  then show ?case using bp_EnsureIndexedBlock_cases(1,2) [of w s cp] by blast
next
  case (6 w cp e w')
  then show ?case using bp_EnsureIndexedBlock_cases(1,3) [of w s cp] by blast
next
  case (7 w cp h)
  then show ?case
    using bp_EnsureIndexedBlock_cases(4) [of w s cp "fst (bp_EnsureIndexedBlock s cp w)"
        "snd (bp_EnsureIndexedBlock s cp w)" "bp_checkpointName s" h] by simp
next
  case (8 w n r w')
  then show ?case using bp_LoadIndexedBlockHash_frame [of s n w] by (auto intro: pg_view_cong)
next
  case (9 w n found w')
  then show ?case by (auto dest: bp_LoadIndexedBlockHash_value)
next
  case (10 w cp u w')
  then show ?case using bp_RollbackTo_cases [of w s cp] by blast
next
  case (11 w cp e w')
  then show ?case using bp_RollbackTo_cases [of w s cp] by blast
qed

interpretation pg_indexing: range_indexing
  "bp_Load s" "bp_SaveIndexedBlock s" "pg_view (bp_checkpointName s)" pg_inv "on_env fetch" "on_env decode"
  for s :: "'e PostgresBlockPersistence" and fetch and decode
proof (unfold_locales, goal_cases)
  case (1 w n r w')
  then show ?case using on_env_frame [of fetch n w r w'] by (auto intro: pg_view_cong)
next
  case (2 w b r w')
  then show ?case using on_env_frame [of decode b w r w'] by (auto intro: pg_view_cong)
qed

interpretation pg_reconciling: reorg_reconciling
  "bp_Load s" "bp_SaveIndexedBlock s" "pg_view (bp_checkpointName s)" pg_inv
  "bp_EnsureIndexedBlock s" "bp_LoadIndexedBlockHash s" "bp_RollbackTo s" "on_env canonical"
  for s :: "'e PostgresBlockPersistence" and canonical
proof (unfold_locales, goal_cases)
  case (1 w n r w')
  then show ?case using on_env_frame [of canonical n w r w'] by (auto intro: pg_view_cong)
qed

text \<open>The transfers of a block are in the table: a row for each transaction hash and log index.\<close>

definition transfers_stored :: "BlockTransferIndex \<Rightarrow> db \<times> 'e \<Rightarrow> bool" where
  "transfers_stored index w \<longleftrightarrow>
     (\<forall>t \<in> set (ix_Transfers index).
        (tr_TransactionHash t, int64_of (tr_LogIndex t)) \<in> row_key ` set (erc20_transfers (fst w)))"

lemma save_body_keeps:
  assumes "save_body s index (d, e) = (Inr u, (d', e'))" "transfers_stored ix (d, e0)"
  shows "transfers_stored ix (d', e1)"
  using assms(2) unfolding transfers_stored_def save_body_Inr(4) [OF assms(1)] by auto

lemma save_body_stores:
  assumes "save_body s index (d, e) = (Inr u, (d', e'))"
  shows "transfers_stored index (d', e1)"
proof -
  note sv = save_body_Inr [OF assms]
  have rows: "row_key ` set (rows_of index (ix_Transfers index)) \<subseteq> row_key ` set (erc20_transfers d')"
    using added_rows_keys [of "row_key ` set (erc20_transfers d)" "rows_of index (ix_Transfers index)"]
    by (simp add: sv(4) image_Un)
  have "(tr_TransactionHash t, int64_of (tr_LogIndex t)) \<in> row_key ` set (rows_of index (ix_Transfers index))"
    if t: "t \<in> set (ix_Transfers index)" for t
  proof -
    from sv(2) t obtain v where "tr_Value t = Some v" by blast
    then have "row_of index t v \<in> set (rows_of index (ix_Transfers index))"
      using t by (force simp: rows_of_def)
    then show ?thesis by (rule rev_image_eqI) (simp add: row_of_def)
  qed
  with rows show ?thesis by (auto simp: transfers_stored_def)
qed

lemma bp_SaveIndexedBlock_body:
  assumes "bp_SaveIndexedBlock s index w = (r, w')"
  shows "(isl r \<and> fst w' = fst w) \<or> (\<exists>e1 u e2. save_body s index (fst w, e1) = (Inr u, (fst w', e2)))"
proof -
  from assms obtain r0 where tx: "in_transaction (bp_pool s) ''begin indexed block transaction''
      ''commit indexed block transaction'' (save_body s index) w = (r0, w')"
    and "isl r = isl r0"
    by (auto simp: bp_SaveIndexedBlock_def split: prod.splits)
  from tx show ?thesis
    by (cases rule: in_transaction_cases) (auto simp: \<open>isl r = isl r0\<close>)
qed

lemma transfers_stored_cong: "fst w' = fst w \<Longrightarrow> transfers_stored ix w' = transfers_stored ix w"
  by (simp add: transfers_stored_def)

interpretation pg_storing: transfer_storing
  "bp_Load s" "bp_SaveIndexedBlock s" "pg_view (bp_checkpointName s)" pg_inv "on_env fetch" "on_env decode"
  transfers_stored
  for s :: "'e PostgresBlockPersistence" and fetch and decode
proof (unfold_locales, goal_cases)
  case (1 w ix u w')
  then show ?case using bp_SaveIndexedBlock_body [of s ix w] save_body_stores by (cases w') fastforce
next
  case (2 w ix r w' ix')
  then show ?case using bp_SaveIndexedBlock_body [of s ix w r w'] save_body_keeps [of s ix "fst w"]
    by (cases w'; cases w) (auto simp: transfers_stored_def)
next
  case (3 w r w' ix')
  then show ?case using bp_Load_frame [of s w] transfers_stored_cong by blast
next
  case (4 n w r w' ix')
  then show ?case using on_env_frame [of fetch n w] transfers_stored_cong by blast
next
  case (5 b w r w' ix')
  then show ?case using on_env_frame [of decode b w] transfers_stored_cong by blast
qed

section \<open>Properties\<close>

text \<open>The tables after block \<open>index\<close> was persisted over tables \<open>d\<close>.\<close>

definition saved :: "string \<Rightarrow> BlockTransferIndex \<Rightarrow> db \<Rightarrow> db \<Rightarrow> bool" where
  "saved name index d d' \<longleftrightarrow>
     checkpoints d' = (checkpoints d)(name \<mapsto> (int (unat (ix_BlockNumber index)), ix_BlockHash index)) \<and>
     indexed_blocks d' = (indexed_blocks d)(int (unat (ix_BlockNumber index)) \<mapsto>
        (ix_BlockHash index, kept_parent d (int (unat (ix_BlockNumber index))) (ix_ParentHash index))) \<and>
     token_metadata d' = token_metadata d \<and>
     (\<exists>new. erc20_transfers d' = erc20_transfers d @ new \<and>
        set new \<subseteq> set (rows_of index (ix_Transfers index)) \<and>
        row_key ` set new = row_key ` set (rows_of index (ix_Transfers index)) - row_key ` set (erc20_transfers d))"

lemma save_body_saved:
  assumes "save_body s index (d, e) = (Inr u, (d', e'))"
  shows "saved (bp_checkpointName s) index d d'"
proof -
  note sv = save_body_Inr [OF assms]
  note n = int64_of_nonneg [OF sv(1)]
  from sv(4) added_rows_keys [of "row_key ` set (erc20_transfers d)" "rows_of index (ix_Transfers index)"]
  show ?thesis unfolding saved_def n by (auto simp: image_iff)
qed

lemma bp_SaveIndexedBlock_tables:
  assumes "bp_SaveIndexedBlock s index (d, e) = (r, (d', e'))"
  shows "(isl r \<and> d' = d) \<or> (\<exists>e1 u e2. save_body s index (d, e1) = (Inr u, (d', e2)))"
  using bp_SaveIndexedBlock_body [OF assms] by simp

text \<open>
  C12. \<^verbatim>\<open>SaveIndexedBlock\<close> is atomic, whatever the server does and at whichever statement it
  fails: the tables are exactly as before, or transfers, block history and checkpoint of the
  block are all there (rows are added only for transfer keys not present yet). A nil result
  means the latter, and the table invariant is kept.
\<close>
theorem SaveIndexedBlock_atomic:
  assumes "db_ok d" and "bp_SaveIndexedBlock s index (d, e) = (r, (d', e'))"
  shows "db_ok d' \<and> (d' = d \<or> saved (bp_checkpointName s) index d d') \<and>
    (r = Inr () \<longrightarrow> saved (bp_checkpointName s) index d d')"
  using bp_SaveIndexedBlock_tables [OF assms(2)] bp_SaveIndexedBlock_cases(1) [of "(d, e)" s index r "(d', e')"]
    assms save_body_saved by fastforce

text \<open>A server that never fails, and a block with one transfer, for concrete runs.\<close>

definition calm_server :: "unit postgres" where
  "calm_server = \<lparr>pg_begin = (\<lambda>e. (None, e)), pg_statement = (\<lambda>e. (None, e)), pg_commit = (\<lambda>e. (Committed, e))\<rparr>"

definition sample_index :: BlockTransferIndex where
  "sample_index = \<lparr>ix_BlockNumber = 7, ix_BlockHash = ''h7'', ix_ParentHash = ''h6'', ix_Transfers =
     [\<lparr>tr_Token = ''T'', tr_From = ''A'', tr_To = ''B'', tr_Value = Some 5, tr_TransactionHash = ''x'', tr_LogIndex = 0\<rparr>]\<rparr>"

definition sample_store :: "unit PostgresBlockPersistence" where
  "sample_store = NewPostgresBlockPersistence calm_server ''ethereum_erc20''"

lemmas pg_run_simps = bp_SaveIndexedBlock_def in_transaction_def save_body_def recordIndexedBlock_def
  run_hook_def upsertCheckpoint_def run_statement_def commit_tx_def sql_insert_transfer_def
  sql_record_block_def sql_upsert_checkpoint_def int64_of_def row_of_def sample_store_def calm_server_def
  sample_index_def NewPostgresBlockPersistence_def empty_db_def

lemma sample_save: "bp_SaveIndexedBlock sample_store sample_index (empty_db, ()) =
   (Inr (), (\<lparr>checkpoints = [''ethereum_erc20'' \<mapsto> (7, ''h7'')],
      erc20_transfers = rows_of sample_index (ix_Transfers sample_index),
      indexed_blocks = [7 \<mapsto> (''h7'', ''h6'')], token_metadata = Map.empty\<rparr>, ()))"
  by (simp add: pg_run_simps rows_of_def)

theorem SaveIndexedBlock_atomic_witness:
  "let d' = fst (snd (bp_SaveIndexedBlock sample_store sample_index (empty_db, ())))
   in db_ok d' \<and> saved ''ethereum_erc20'' sample_index empty_db d' \<and> d' \<noteq> empty_db"
  using SaveIndexedBlock_atomic [OF db_ok_empty sample_save]
  by (simp add: sample_save Let_def) (simp add: sample_store_def NewPostgresBlockPersistence_def empty_db_def)

lemma added_rows_present: "row_key ` set rs \<subseteq> K \<Longrightarrow> added_rows K rs = []"
  by (induction K rs rule: added_rows.induct) auto

lemma save_body_again:
  assumes "save_body s index (d, e) = (Inr u, (d1, e1))" "save_body s index (d1, e2) = (Inr u', (d2, e3))"
  shows "d2 = d1"
proof -
  note one = save_body_Inr(4) [OF assms(1)] and two = save_body_Inr(4) [OF assms(2)]
  have keys: "row_key ` set (rows_of index (ix_Transfers index)) \<subseteq> row_key ` set (erc20_transfers d1)"
    using added_rows_keys [of "row_key ` set (erc20_transfers d)" "rows_of index (ix_Transfers index)"]
    by (simp add: one image_Un)
  have parent: "kept_parent d1 (int64_of (ix_BlockNumber index)) (ix_ParentHash index) =
      kept_parent d (int64_of (ix_BlockNumber index)) (ix_ParentHash index)"
    by (simp add: one kept_parent_def split: option.splits)
  show ?thesis
    using two [unfolded added_rows_present [OF keys] parent] by (simp add: one)
qed

text \<open>
  C20. Replays are harmless: persisting a block again over tables that hold it leaves the tables
  exactly as they are, whether the second call succeeds or fails.
\<close>
theorem SaveIndexedBlock_idempotent:
  assumes "bp_SaveIndexedBlock s index (d, e) = (Inr (), (d1, e1))"
    and "bp_SaveIndexedBlock s index (d1, e2) = (r, (d2, e3))"
  shows "d2 = d1"
  using bp_SaveIndexedBlock_tables [OF assms(1)] bp_SaveIndexedBlock_tables [OF assms(2)]
    save_body_again by fastforce

theorem SaveIndexedBlock_idempotent_witness:
  "let d1 = fst (snd (bp_SaveIndexedBlock sample_store sample_index (empty_db, ())))
   in fst (snd (bp_SaveIndexedBlock sample_store sample_index (d1, ()))) = d1 \<and> d1 \<noteq> empty_db"
proof -
  have "fst (snd (bp_SaveIndexedBlock sample_store sample_index (d1, ()))) = d1"
    if "bp_SaveIndexedBlock sample_store sample_index (empty_db, ()) = (Inr (), (d1, ()))" for d1
    using SaveIndexedBlock_idempotent [OF that] by (metis prod.collapse)
  from this [OF sample_save] show ?thesis by (simp add: sample_save Let_def) (simp add: empty_db_def)
qed

text \<open>
  C21. A block whose height is already recorded under another hash is refused, and nothing of
  it is written: the conflict rolls the whole transaction back.
\<close>
theorem SaveIndexedBlock_conflict:
  assumes "indexed_blocks d (int64_of (ix_BlockNumber index)) = Some (stored, parent)"
    and "stored \<noteq> ix_BlockHash index"
  shows "isl (fst (bp_SaveIndexedBlock s index (d, e))) \<and> fst (snd (bp_SaveIndexedBlock s index (d, e))) = d"
proof -
  obtain r d' e' where run: "bp_SaveIndexedBlock s index (d, e) = (r, (d', e'))" by (metis prod.collapse)
  from bp_SaveIndexedBlock_tables [OF run] save_body_Inr(5) [of s index d] assms show ?thesis
    by (auto simp: run)
qed

definition sample_fork :: db where
  "sample_fork = empty_db\<lparr>indexed_blocks := [7 \<mapsto> (''other'', ''h6'')]\<rparr>"

theorem SaveIndexedBlock_conflict_witness:
  "isl (fst (bp_SaveIndexedBlock sample_store sample_index (sample_fork, ()))) \<and>
   fst (snd (bp_SaveIndexedBlock sample_store sample_index (sample_fork, ()))) = sample_fork"
  by (rule SaveIndexedBlock_conflict [where stored = "''other''" and parent = "''h6''"])
    (simp_all add: sample_fork_def sample_index_def int64_of_def)

lemma bp_RollbackTo_tables:
  assumes "bp_RollbackTo s cp (d, e) = (r, (d', e'))"
  shows "(isl r \<and> d' = d) \<or> (\<exists>e1 u e2. rollback_body s cp (d, e1) = (Inr u, (d', e2)))"
proof -
  from assms obtain r0 where tx: "in_transaction (bp_pool s) ''begin reorg rollback transaction''
      ''commit reorg rollback'' (rollback_body s cp) (d, e) = (r0, (d', e'))"
    and "isl r = isl r0"
    by (auto simp: bp_RollbackTo_def split: prod.splits)
  from tx show ?thesis
    by (cases rule: in_transaction_cases) (auto simp: \<open>isl r = isl r0\<close>)
qed

text \<open>
  C19. \<^verbatim>\<open>RollbackTo\<close> is atomic: the tables are as before, or every transfer and every history row
  above the ancestor is gone, everything else is kept, and the checkpoint is the ancestor. A nil
  result means the latter, and a checkpoint height that does not fit PostgreSQL's \<^verbatim>\<open>BIGINT\<close> is
  refused without deleting anything.
\<close>
theorem RollbackTo_atomic:
  assumes "bp_RollbackTo s cp (d, e) = (r, (d', e'))"
  shows "d' = d \<and> isl r \<or>
     unat (cp_Number cp) < 2 ^ 63 \<and>
     d' = d\<lparr>erc20_transfers := filter (\<lambda>row. r_block_number row \<le> int (unat (cp_Number cp))) (erc20_transfers d),
            indexed_blocks := indexed_blocks d |` {n. n \<le> int (unat (cp_Number cp))},
            checkpoints := (checkpoints d)(bp_checkpointName s \<mapsto> (int (unat (cp_Number cp)), cp_Hash cp))\<rparr>"
proof -
  have above: "(\<lambda>k. if k > n then None else m k) = m |` {k. k \<le> n}" for n :: int and m :: "int \<rightharpoonup> string \<times> string"
    by (auto simp: restrict_map_def)
  from bp_RollbackTo_tables [OF assms] show ?thesis
    using rollback_body_tables [of s cp d] by (auto simp: above not_less)
qed

theorem RollbackTo_atomic_witness:
  "fst (snd (bp_RollbackTo sample_store \<lparr>cp_Number = 6, cp_Hash = ''h6''\<rparr> (sample_fork, ()))) =
   empty_db\<lparr>checkpoints := [''ethereum_erc20'' \<mapsto> (6, ''h6'')]\<rparr>"
proof -
  have run: "bp_RollbackTo sample_store \<lparr>cp_Number = 6, cp_Hash = ''h6''\<rparr> (sample_fork, ()) =
     (Inr (), (snd (sql_upsert_checkpoint ''ethereum_erc20'' 6 ''h6''
        (snd (sql_delete_blocks_above 6 (snd (sql_delete_transfers_above 6 sample_fork))))), ()))"
    by (simp add: pg_run_simps bp_RollbackTo_def rollback_body_def sample_fork_def
        sql_delete_blocks_above_def sql_delete_transfers_above_def cong: if_cong)
  have keeps: "[7 \<mapsto> row] |` {n. n \<le> (6::int)} = Map.empty" for row :: "string \<times> string"
    by (auto simp: restrict_map_def)
  from RollbackTo_atomic [OF run] show ?thesis unfolding run
    by (simp add: sample_fork_def empty_db_def sample_store_def NewPostgresBlockPersistence_def keeps)
qed

end
