(* ===== verification/Indexing_Properties.thy ===== *)
theory Indexing_Properties
  imports Memory_Store Postgres_Persistence
begin

text \<open>
  The range indexers on their stores: what a call leaves in PostgreSQL whatever fails, and that
  the concurrent indexer computes what the sequential one does.
\<close>

section \<open>A concrete chain\<close>

text \<open>Block \<open>n\<close> of the sample chain has the decimal of \<open>n\<close> as its hash and no transfers.\<close>

definition sample_fetch :: "u64 \<Rightarrow> 'w \<Rightarrow> (go_error, ObservedBlock, 'w) outcome" where
  "sample_fetch n w =
     (Inr \<lparr>ob_Number = n, ob_Hash = show_u64 n, ob_ParentHash = show_u64 (n - 1), ob_Timestamp = 0,
           ob_Transactions = []\<rparr>, w)"

definition sample_decode :: "ObservedBlock \<Rightarrow> 'w \<Rightarrow> (go_error, BlockTransferIndex, 'w) outcome" where
  "sample_decode b w =
     (Inr \<lparr>ix_BlockNumber = ob_Number b, ix_BlockHash = ob_Hash b, ix_ParentHash = ob_ParentHash b,
           ix_Transfers = []\<rparr>, w)"

lemma sample_hashes: "show_u64 6 = ''6''" "show_u64 7 = ''7''" "show_u64 8 = ''8''"
  by code_simp+

lemmas sample_run_simps = sample_fetch_def sample_decode_def on_env_def sample_hashes

section \<open>The indexers on PostgreSQL\<close>

abbreviation pg_client :: "(u64 \<Rightarrow> 'e \<Rightarrow> (go_error, ObservedBlock, 'e) outcome) \<Rightarrow>
    (ObservedBlock \<Rightarrow> 'e \<Rightarrow> (go_error, BlockTransferIndex, 'e) outcome) \<Rightarrow> ('s \<times> 'e) TransferBlockClient" where
  "pg_client fetch decode \<equiv> \<lparr>GetObservedBlockByNumber = on_env fetch, GetERC20TransfersByBlock = on_env decode\<rparr>"

abbreviation pg_blocks :: "'e PostgresBlockPersistence \<Rightarrow> (db \<times> 'e) BlockPersistence" where
  "pg_blocks s \<equiv> \<lparr>Load = bp_Load s, SaveIndexedBlock = bp_SaveIndexedBlock s\<rparr>"

text \<open>The client answers with the height it was asked for.\<close>

definition answers_height :: "(u64 \<Rightarrow> 'e \<Rightarrow> (go_error, ObservedBlock, 'e) outcome) \<Rightarrow>
    (ObservedBlock \<Rightarrow> 'e \<Rightarrow> (go_error, BlockTransferIndex, 'e) outcome) \<Rightarrow> bool" where
  "answers_height fetch decode \<longleftrightarrow> (\<forall>n e b e'. fetch n e = (Inr b, e') \<longrightarrow> ob_Number b = n) \<and>
     (\<forall>b e ix e'. decode b e = (Inr ix, e') \<longrightarrow> ix_BlockNumber ix = ob_Number b)"

lemma on_env_numbers:
  assumes "answers_height fetch decode"
  shows "\<And>n w b w'. on_env fetch n w = (Inr b, w') \<Longrightarrow> ob_Number b = n"
    "\<And>b w ix w'. on_env decode b w = (Inr ix, w') \<Longrightarrow> ix_BlockNumber ix = ob_Number b"
  using assms unfolding answers_height_def by (blast dest: on_env_result)+

lemma sample_answers: "answers_height sample_fetch sample_decode"
  by (auto simp: answers_height_def sample_fetch_def sample_decode_def)

text \<open>
  C13. Sequential indexing is crash-consistent. For a client that answers with the height it was
  asked for, whatever the node, the server or the context do: the table invariant is kept; what
  was written is an unbroken, parent-linked run of heights inside the range that continues the
  checkpoint; the checkpoint is the last of them; and on success the run is the result, reaches
  the end of the range, and every transfer of every block in it is in the table.
\<close>
theorem IndexRange_sequential_durable:
  assumes "db_ok d"
    and "answers_height fetch decode"
    and run: "seq_IndexRange (NewSequentialIndexer (pg_client fetch decode) (pg_blocks s)) startBlock endBlock (d, e) =
      (r, (d', e'))"
  shows "db_ok d' \<and>
    range_indexed startBlock endBlock (pg_view (bp_checkpointName s) (d, e)) r (pg_view (bp_checkpointName s) (d', e')) \<and>
    (\<forall>out. r = Inr out \<longrightarrow> (\<forall>ix \<in> set out. transfers_stored ix (d', e')))"
proof -
  note nums = on_env_numbers [OF assms(2)]
  have "db_ok (fst (d, e))" using assms(1) by simp
  note c = pg_indexing.IndexRange_commits [OF this run]
  from range_post_indexed [OF conjunct2 [OF c] nums] c pg_storing.IndexRange_stores [OF \<open>db_ok (fst (d, e))\<close>] run
  show ?thesis by auto
qed

lemma sample_sequential_run:
  "seq_IndexRange (NewSequentialIndexer (pg_client sample_fetch sample_decode) (pg_blocks sample_store)) 7 8 (empty_db, ()) =
   (Inr [\<lparr>ix_BlockNumber = 7, ix_BlockHash = ''7'', ix_ParentHash = ''6'', ix_Transfers = []\<rparr>,
         \<lparr>ix_BlockNumber = 8, ix_BlockHash = ''8'', ix_ParentHash = ''7'', ix_Transfers = []\<rparr>],
    (empty_db\<lparr>checkpoints := [''ethereum_erc20'' \<mapsto> (8, ''8'')],
       indexed_blocks := [7 \<mapsto> (''7'', ''6''), 8 \<mapsto> (''8'', ''7'')]\<rparr>, ()))"
  by (simp add: seq_IndexRange_def bp_Load_def cs_Load_def NewPostgresCheckpointStore_def sql_select_checkpoint_def
      resume_point_def index_loop.simps index_block_def validateParentHash_def pg_run_simps sample_run_simps)

theorem IndexRange_sequential_durable_witness:
  "let d' = fst (snd (seq_IndexRange (NewSequentialIndexer (pg_client sample_fetch sample_decode) (pg_blocks sample_store))
       7 8 (empty_db, ())))
   in db_ok d' \<and> checkpoints d' ''ethereum_erc20'' = Some (8, ''8'')"
  using IndexRange_sequential_durable [OF db_ok_empty sample_answers sample_sequential_run]
  by (simp add: sample_sequential_run Let_def)

text \<open>The other goroutines of the process share the pool. HTTP requests write token metadata; nothing else
  touches the tables (\<^verbatim>\<open>Metadata_Requests\<close> shows it of the metadata service).\<close>

definition others_run :: "db \<times> 'e \<Rightarrow> db \<times> 'e \<Rightarrow> bool" where
  "others_run w w' \<longleftrightarrow> (\<exists>t. fst w' = (fst w)\<lparr>token_metadata := t\<rparr>)"

lemma others_run_frame:
  assumes "others_run w w'"
  shows "db_ok (fst w') = db_ok (fst w)" "pg_view name w' = pg_view name w" "transfers_stored ix w' = transfers_stored ix w"
proof -
  from assms obtain t where "fst w' = (fst w)\<lparr>token_metadata := t\<rparr>" by (auto simp: others_run_def)
  then show "db_ok (fst w') = db_ok (fst w)" "pg_view name w' = pg_view name w" "transfers_stored ix w' = transfers_stored ix w"
    by (simp_all add: db_ok_def pg_view_def transfers_stored_def)
qed

lemma pg_shared_commits:
  assumes "shared_IndexRange others_run (NewConcurrentRangeIndexer (pg_client fetch decode) (pg_blocks s) workerCount)
      startBlock endBlock w r w'" and "db_ok (fst w)"
  shows "db_ok (fst w') \<and> range_post (pg_view (bp_checkpointName s)) (on_env fetch) (on_env decode) startBlock endBlock w r w'"
  by (rule pg_indexing.shared_IndexRange_commits [OF assms]) (simp add: others_run_frame)

lemma pg_shared_stores:
  assumes "shared_IndexRange others_run (NewConcurrentRangeIndexer (pg_client fetch decode) (pg_blocks s) workerCount)
      startBlock endBlock w r w'" and "db_ok (fst w)"
  shows "\<forall>out. r = Inr out \<longrightarrow> (\<forall>ix \<in> set out. transfers_stored ix w')"
  by (rule pg_storing.shared_IndexRange_stores [OF assms]) (simp_all add: others_run_frame)

text \<open>
  C1. The concurrent indexer gives the same guarantee under every interleaving of its goroutines with
  each other and with HTTP requests that write token metadata, every pattern of failures and
  cancellation at any moment: results that arrive out of order are committed in height order, and a
  partial run is never reported as success.
\<close>
theorem IndexRange_concurrent_durable:
  assumes "db_ok d"
    and "answers_height fetch decode"
    and run: "shared_IndexRange others_run (NewConcurrentRangeIndexer (pg_client fetch decode) (pg_blocks s) workerCount)
      startBlock endBlock (d, e) r (d', e')"
  shows "db_ok d' \<and>
    range_indexed startBlock endBlock (pg_view (bp_checkpointName s) (d, e)) r (pg_view (bp_checkpointName s) (d', e')) \<and>
    (\<forall>out. r = Inr out \<longrightarrow> (\<forall>ix \<in> set out. transfers_stored ix (d', e')))"
proof -
  have ok: "db_ok (fst (d, e))" using assms(1) by simp
  note c = pg_shared_commits [OF run ok]
  from range_post_indexed [OF conjunct2 [OF c] on_env_numbers [OF assms(2)]] c pg_shared_stores [OF run ok]
  show ?thesis by auto
qed

definition sample_concurrent :: "(db \<times> unit) ConcurrentRangeIndexer" where
  "sample_concurrent = NewConcurrentRangeIndexer (pg_client sample_fetch sample_decode) (pg_blocks sample_store) 2"

text \<open>Two workers; the result of block 8 arrives before that of block 7.\<close>

definition sample_schedule :: "action list" where
  "sample_schedule = [Dispatch 0, Dispatch 1, Fetch 1, Decode 1, Send 1, Receive, Drain, Fetch 0, Decode 0, Send 0,
     Receive, Drain, Drain, JobsClosed 0, JobsClosed 1]"

definition sample_middle :: db where
  "sample_middle = empty_db\<lparr>checkpoints := [''ethereum_erc20'' \<mapsto> (7, ''7'')], indexed_blocks := [7 \<mapsto> (''7'', ''6'')]\<rparr>"

definition sample_final :: db where
  "sample_final = empty_db\<lparr>checkpoints := [''ethereum_erc20'' \<mapsto> (8, ''8'')],
       indexed_blocks := [7 \<mapsto> (''7'', ''6''), 8 \<mapsto> (''8'', ''7'')]\<rparr>"

definition sample_blocks :: "BlockTransferIndex list" where
  "sample_blocks = [\<lparr>ix_BlockNumber = 7, ix_BlockHash = ''7'', ix_ParentHash = ''6'', ix_Transfers = []\<rparr>,
         \<lparr>ix_BlockNumber = 8, ix_BlockHash = ''8'', ix_ParentHash = ''7'', ix_Transfers = []\<rparr>]"

definition sample_end :: "(db \<times> unit) pipeline" where
  "sample_end = \<lparr>p_world = (sample_final, ()), p_ctx_err = None, p_cancelled = True, p_producer = None,
      p_workers = [Exited, Exited], p_results = [], p_pending = Map.empty,
      p_ordered = sample_blocks, p_nextCommit = 8, p_expectedParent = ''8'', p_phase = Returned (Inr sample_blocks)\<rparr>"

lemma sample_saves:
  "bp_SaveIndexedBlock sample_store \<lparr>ix_BlockNumber = 7, ix_BlockHash = ''7'', ix_ParentHash = ''6'', ix_Transfers = []\<rparr>
     (empty_db, ()) = (Inr (), (sample_middle, ()))"
  "bp_SaveIndexedBlock sample_store \<lparr>ix_BlockNumber = 8, ix_BlockHash = ''8'', ix_ParentHash = ''7'', ix_Transfers = []\<rparr>
     (sample_middle, ()) = (Inr (), (sample_final, ()))"
  by (simp_all add: sample_middle_def sample_final_def pg_run_simps)

lemma sample_pipeline:
  "perform_all sample_concurrent 8 sample_schedule (start_pipeline sample_concurrent 7 '''' (empty_db, ())) = Some sample_end"
  by (simp add: sample_schedule_def sample_concurrent_def NewConcurrentRangeIndexer_def start_pipeline_def
      worker_at_def process_fetch_def process_decode_def drain_one_def collector_returns_def validateParentHash_def
      sample_end_def sample_blocks_def numeral_2_eq_2 sample_saves sample_run_simps Let_def)

lemma sample_concurrent_returns:
  "conc_returns sample_concurrent 7 8 (empty_db, ()) None (Inr sample_blocks) (sample_final, ())"
proof -
  have load: "Load (conc_persistence sample_concurrent) (empty_db, ()) = (Inr None, (empty_db, ()))"
    by (simp add: sample_concurrent_def NewConcurrentRangeIndexer_def bp_Load_def cs_Load_def
        NewPostgresCheckpointStore_def sql_select_checkpoint_def pg_run_simps)
  have "\<not> conc_workerCount sample_concurrent \<le> 0"
    by (simp add: sample_concurrent_def NewConcurrentRangeIndexer_def)
  from conc_returns.pipelined [OF _ this load _ perform_all_reaches [OF sample_pipeline], of 7 "Inr sample_blocks"]
  show ?thesis by (simp add: resume_point_def sample_end_def)
qed

lemma sample_concurrent_run:
  "conc_IndexRange sample_concurrent 7 8 (empty_db, ()) (Inr sample_blocks) (sample_final, ())"
  using sample_concurrent_returns by (auto simp: conc_IndexRange_def)

text \<open>The same run with a request that saves token metadata before the caller goes on.\<close>

definition sample_disturbed :: db where
  "sample_disturbed = sample_final\<lparr>token_metadata := [''t'' \<mapsto> (''Token'', ''TKN'', 18)]\<rparr>"

lemma sample_shared_run:
  "shared_IndexRange others_run sample_concurrent 7 8 (empty_db, ()) (Inr sample_blocks) (sample_disturbed, ())"
  by (rule shared_IndexRange.others_after [OF shared_IndexRange.undisturbed [OF sample_concurrent_run]])
    (auto simp: others_run_def sample_disturbed_def)

theorem IndexRange_concurrent_durable_witness:
  "shared_IndexRange others_run sample_concurrent 7 8 (empty_db, ()) (Inr sample_blocks) (sample_disturbed, ()) \<and>
   db_ok sample_disturbed"
  using IndexRange_concurrent_durable [OF db_ok_empty sample_answers
      sample_shared_run [unfolded sample_concurrent_def]] sample_shared_run by blast

theorem pipeline_terminates_witness:
  "stuck sample_concurrent 8 sample_end \<and> (\<exists>r. p_phase sample_end = Returned r) \<and>
   length sample_schedule \<le> 8 * 1 + 2 + 9"
proof -
  have workers: "conc_workerCount sample_concurrent = 2"
    by (simp add: sample_concurrent_def NewConcurrentRangeIndexer_def)
  have "stuck sample_concurrent 8 sample_end"
    by (rule all_exited_stuck) (simp_all add: sample_end_def)
  with pipeline_terminates [of sample_concurrent "length sample_schedule" 8 7 "''''" "(empty_db, ())" sample_end]
    perform_all_reaches [OF sample_pipeline] perform_all_relpowp [OF sample_pipeline] workers
  show ?thesis by simp
qed

section \<open>The concurrent indexer computes what the sequential one does\<close>

lemma prefix_bounds:
  assumes "flow_inv n endBlock s" "n \<le> endBlock" "p_nextCommit s \<noteq> n"
  shows "n \<le> p_nextCommit s - 1 \<and> p_nextCommit s - 1 < endBlock"
proof -
  let ?x = "p_nextCommit s - n"
  from assms(1) have "unat ?x \<le> unat (endBlock - n)" by (simp add: flow_inv_def)
  then have "unat n + unat ?x \<le> unat endBlock" using assms(2) by (simp add: unat_sub word_le_nat_alt)
  moreover from this have "unat (n + ?x) = unat n + unat ?x"
    using unat_bound_u64 [of endBlock] by (intro unat_add_lem [THEN iffD1]) simp
  moreover have "unat ?x \<noteq> 0" using assms(3) by (simp add: unat_eq_0)
  ultimately have lt: "unat n < unat (p_nextCommit s)" "unat (p_nextCommit s) \<le> unat endBlock" by simp_all
  moreover from lt have "unat (p_nextCommit s - 1) = unat (p_nextCommit s) - 1"
    using unat_minus_one_u64 [of "p_nextCommit s"] by force
  ultimately show ?thesis by (simp add: word_le_nat_alt word_less_nat_alt) arith
qed

lemma committed_prefix_sequential:
  assumes "committed_prefix c n h w1 s" "flow_inv n endBlock s" "\<not> startBlock > endBlock"
    and l: "Load (conc_persistence c) w = (Inr checkpoint, w1)"
    and resume: "resume_point checkpoint startBlock endBlock = Some (n, h)"
  shows "p_world s = w1 \<or> (\<exists>m ixs. startBlock \<le> m \<and> m < endBlock \<and>
    seq_IndexRange (NewSequentialIndexer (conc_client c) (conc_persistence c)) startBlock m w = (Inr ixs, p_world s))"
proof (cases "p_ordered s = []")
  case True
  with assms(1) show ?thesis by (simp add: committed_prefix_def)
next
  case False
  from assms(3) have le: "startBlock \<le> endBlock" by simp
  note bounds = resume_point_bounds [OF resume le]
  from False assms(1) have pre: "p_nextCommit s \<noteq> n"
    "index_loop (NewSequentialIndexer (conc_client c) (conc_persistence c)) (p_nextCommit s - 1) n h [] w1 =
      (Inr (p_ordered s), p_world s)"
    by (simp_all add: committed_prefix_def)
  note m = prefix_bounds [OF assms(2) conjunct2 [OF bounds] pre(1)]
  with bounds have start: "startBlock \<le> p_nextCommit s - 1" by auto
  have "seq_IndexRange (NewSequentialIndexer (conc_client c) (conc_persistence c)) startBlock (p_nextCommit s - 1) w =
      (Inr (p_ordered s), p_world s)"
    using start pre(2) resume_point_shorter [OF resume conjunct1 [OF m]] l by (simp add: seq_IndexRange_def not_less)
  with start m show ?thesis by blast
qed

text \<open>
  C2. The concurrent indexer refines the sequential one. For a client whose answers depend on the
  height only, every run returns the result and leaves the world of the sequential indexer on the same
  range, errors included (they differ only in the operation name the classification adds). The one
  exception is a run by whose end the caller's context had ended: it may return that context's error,
  and then the world is the one right after reading the checkpoint or the one that the sequential
  indexer leaves after a shorter range.
\<close>
theorem concurrent_refines_sequential:
  assumes "stable_client (conc_client c) F G" and "conc_workerCount c > 0"
    and "conc_returns c startBlock endBlock w ctx r w'"
  shows "(\<exists>raw. seq_IndexRange (NewSequentialIndexer (conc_client c) (conc_persistence c)) startBlock endBlock w =
        (classified ErrIndexing ''index block range sequentially'' raw, w') \<and>
      r = classified ErrIndexing ''index block range concurrently'' raw) \<or>
    (\<exists>err. ctx = Some err \<and> err \<in> {Sentinel ContextCanceled, Sentinel ContextDeadlineExceeded} \<and>
      r = classified ErrIndexing ''index block range concurrently'' (Inl err) \<and>
      (w' = snd (Load (conc_persistence c) w) \<or>
       (\<exists>m ixs. startBlock \<le> m \<and> m < endBlock \<and>
          seq_IndexRange (NewSequentialIndexer (conc_client c) (conc_persistence c)) startBlock m w = (Inr ixs, w'))))"
  using assms(3)
proof cases
  case (pipelined checkpoint w1 n h s r0)
  from reaches_sequential_inv [OF pipelined(8) assms(2,1)] pipelined(9)
  consider "index_loop (NewSequentialIndexer (conc_client c) (conc_persistence c)) endBlock n h [] w1 = (r0, p_world s)"
    | err where "p_ctx_err s = Some err" "r0 = Inl err" "committed_prefix c n h w1 s" "flow_inv n endBlock s"
    by (auto simp: sequential_inv_def Let_def)
  then show ?thesis
  proof cases
    case 1
    with pipelined show ?thesis by (auto simp: seq_IndexRange_def)
  next
    case 2
    from committed_prefix_sequential [OF 2(3,4) pipelined(4,6,7)] reaches_ctx_err [OF pipelined(8) 2(1)] pipelined 2(1,2)
    show ?thesis by auto
  qed
qed (use assms(2) in \<open>auto simp: seq_IndexRange_def\<close>)

theorem concurrent_refines_sequential_witness:
  "seq_IndexRange (NewSequentialIndexer (conc_client sample_concurrent) (conc_persistence sample_concurrent)) 7 8
     (empty_db, ()) = (Inr sample_blocks, (sample_final, ()))"
proof -
  have "stable_client (conc_client sample_concurrent) (\<lambda>n. fst (sample_fetch n ())) (\<lambda>b. fst (sample_decode b ()))"
    by (simp add: stable_client_def sample_concurrent_def NewConcurrentRangeIndexer_def on_env_def
        sample_fetch_def sample_decode_def)
  from concurrent_refines_sequential [OF this _ sample_concurrent_returns]
  show ?thesis by (auto simp: sample_concurrent_def NewConcurrentRangeIndexer_def)
qed

section \<open>Reorganisations\<close>

abbreviation pg_manager :: "(u64 \<Rightarrow> 'e \<Rightarrow> (go_error, ObservedBlock, 'e) outcome) \<Rightarrow> 'e PostgresBlockPersistence \<Rightarrow> u64 \<Rightarrow>
    (db \<times> 'e) ReorgManager" where
  "pg_manager canonical s maxDepth \<equiv> NewReorgManager (on_env canonical) (pg_persistence s) maxDepth"

text \<open>
  C14. Reconciliation is fail-closed. Whatever the node and the server answer: without a checkpoint
  nothing changes; a checkpoint the node confirms is kept and recorded in the history; a rollback
  goes to a recorded height at most \<^verbatim>\<open>maxDepth\<close> below the checkpoint whose hash the node confirmed,
  every recorded height in between having been contradicted by the node, and removes exactly what
  lies above it, hashes and transfers; all other transfers keep their contents. An error changes nothing, or leaves the one write whose acknowledgement was lost.
\<close>
theorem Reconcile_sound:
  assumes "db_ok d" and "Reconcile (pg_manager canonical s maxDepth) (d, e) = (r, (d', e'))"
  shows "db_ok d' \<and> reconciled (rm_client (pg_manager canonical s maxDepth)) maxDepth (pg_view (bp_checkpointName s) (d, e)) r
    (pg_view (bp_checkpointName s) (d', e'))"
  using pg_reconciling.Reconcile_reconciled [of "(d, e)" canonical s maxDepth r "(d', e')"] assms
  by (simp add: pg_persistence_def NewReorgManager_def)

text \<open>A server that runs every statement and acknowledges every commit.\<close>

definition healthy :: "'e postgres \<Rightarrow> bool" where
  "healthy pg \<longleftrightarrow> (\<forall>e. fst (pg_begin pg e) = None \<and> fst (pg_statement pg e) = None \<and> fst (pg_commit pg e) = Committed)"

lemma healthy_statement:
  "healthy pg \<Longrightarrow> run_statement pg stmt w = (fst (stmt (fst w)), (snd (stmt (fst w)), snd (pg_statement pg (snd w))))"
  by (auto simp: healthy_def run_statement_def split: prod.splits option.splits) (metis fst_conv option.distinct(1))+

lemma healthy_calls:
  assumes "healthy (bp_pool s)" "db_ok (fst w)"
  shows "\<not> isl (fst (bp_Load s w))" "\<not> isl (fst (bp_LoadIndexedBlockHash s n w))"
proof -
  show "\<not> isl (fst (bp_Load s w))"
    using db_ok_checkpoint [OF assms(2), of "bp_checkpointName s"]
    by (auto simp: bp_Load_def cs_Load_def NewPostgresCheckpointStore_def healthy_statement [OF assms(1)]
        sql_select_checkpoint_def split: option.splits)
  show "\<not> isl (fst (bp_LoadIndexedBlockHash s n w))"
    by (auto simp: bp_LoadIndexedBlockHash_def healthy_statement [OF assms(1)] sql_select_block_hash_def
        split: option.splits)
qed

lemma healthy_rollback:
  assumes "healthy (bp_pool s)" "db_ok (fst w)"
    and "cv_hashes (pg_view name w) (cp_Number a) = Some (cp_Hash a)"
  shows "\<not> isl (fst (bp_RollbackTo s a w))"
proof -
  from assms(3) obtain p where "indexed_blocks (fst w) (int64_of (cp_Number a)) = Some (cp_Hash a, p)"
    by (auto simp: pg_view_def)
  with db_ok_no_negative [OF assms(2)] have "\<not> int64_of (cp_Number a) < 0" by force
  then have small: "unat (cp_Number a) < 2 ^ 63" using int64_of_neg_iff [of "cp_Number a"] by linarith
  obtain b e where "pg_begin (bp_pool s) (snd w) = (b, e)" by (rule prod.exhaust)
  moreover from this assms(1) have "b = None" unfolding healthy_def by (metis fst_conv)
  moreover have "fst (pg_commit (bp_pool s) e) = Committed" for e using assms(1) by (simp add: healthy_def)
  ultimately show ?thesis
    using small
    by (auto simp: bp_RollbackTo_def in_transaction_def rollback_body_def healthy_statement [OF assms(1)]
        sql_delete_transfers_above_def sql_delete_blocks_above_def upsertCheckpoint_def
        sql_upsert_checkpoint_def commit_tx_def split: prod.splits commit_reply.splits) (metis commit_reply.distinct fst_conv)+
qed

text \<open>
  C15. Reconciliation finds the ancestor. When the server is healthy and the node answers
  consistently, a contradicted checkpoint is rolled back to the nearest height at which history
  and canonical chain agree, provided it lies within \<^verbatim>\<open>maxDepth\<close> and the history down to it is
  complete.
\<close>
theorem Reconcile_complete:
  assumes "healthy (bp_pool s)" and "db_ok d" and "maxDepth \<noteq> 0"
    and stable: "\<And>n e. \<exists>b e'. canonical n e = (Inr b, e') \<and> ob_Hash b = C n"
    and v: "v = pg_view (bp_checkpointName s) (d, e)"
    and cp: "cv_checkpoint v = Some cp" "C (cp_Number cp) \<noteq> cp_Hash cp"
    and a: "a < cp_Number cp" "cv_hashes v a = Some (C a)" "unat (cp_Number cp) - unat a \<le> unat maxDepth"
      "\<And>n. a < n \<Longrightarrow> n < cp_Number cp \<Longrightarrow> \<exists>h. cv_hashes v n = Some h \<and> h \<noteq> C n"
  shows "\<exists>d' e'. Reconcile (pg_manager canonical s maxDepth) (d, e) =
      (Inr \<lparr>rr_Checkpoint = \<lparr>cp_Number = a, cp_Hash = C a\<rparr>, rr_PreviousCheckpoint = cp, rr_Exists = True,
            rr_ReorgDetected = True\<rparr>, (d', e')) \<and>
    pg_view (bp_checkpointName s) (d', e') = rollback_view \<lparr>cp_Number = a, cp_Hash = C a\<rparr> v"
proof -
  have st: "\<exists>b w'. on_env canonical n w = (Inr b, w') \<and> ob_Hash b = C n" for n and w :: "db \<times> 'a"
    using stable [of n "snd w"] by (auto simp: on_env_def)
  have "\<exists>w'. Reconcile (pg_manager canonical s maxDepth) (d, e) =
      (Inr \<lparr>rr_Checkpoint = \<lparr>cp_Number = a, cp_Hash = C a\<rparr>, rr_PreviousCheckpoint = cp, rr_Exists = True,
            rr_ReorgDetected = True\<rparr>, w')"
    unfolding pg_persistence_def
    by (rule pg_reconciling.Reconcile_finds [where C = C])
      (use healthy_calls [OF assms(1)] healthy_rollback [OF assms(1)] st assms in auto)
  then obtain w' where run: "Reconcile (pg_manager canonical s maxDepth) (d, e) =
      (Inr \<lparr>rr_Checkpoint = \<lparr>cp_Number = a, cp_Hash = C a\<rparr>, rr_PreviousCheckpoint = cp, rr_Exists = True,
            rr_ReorgDetected = True\<rparr>, w')" by blast
  from pg_reconciling.Reconcile_reconciled [OF _ run [unfolded pg_persistence_def]] assms(2)
  have "pg_view (bp_checkpointName s) w' = rollback_view \<lparr>cp_Number = a, cp_Hash = C a\<rparr> v"
    by (simp add: reconciled_def v)
  with run show ?thesis by (cases w') auto
qed

text \<open>The sample chain after block 8 was replaced.\<close>

definition forked_fetch :: "u64 \<Rightarrow> 'w \<Rightarrow> (go_error, ObservedBlock, 'w) outcome" where
  "forked_fetch n w =
     (Inr \<lparr>ob_Number = n, ob_Hash = (if n = 7 then ''7'' else ''new''), ob_ParentHash = '''', ob_Timestamp = 0,
           ob_Transactions = []\<rparr>, w)"

lemma forked_stable: "\<exists>b e'. forked_fetch n e = (Inr b, e') \<and> ob_Hash b = (if n = 7 then ''7'' else ''new'')"
  by (simp add: forked_fetch_def)

lemma sample_final_view:
  "pg_view (bp_checkpointName sample_store) (sample_final, ()) =
     \<lparr>cv_checkpoint = Some \<lparr>cp_Number = 8, cp_Hash = ''8''\<rparr>,
      cv_hashes = (\<lambda>n. map_option fst ([7 \<mapsto> (''7'', ''6''), 8 \<mapsto> (''8'', ''7'')] (int64_of n))),
      cv_transfers = Some Map.empty\<rparr>"
  by (simp add: pg_view_def sample_final_def sample_store_def NewPostgresBlockPersistence_def empty_db_def uint64_of_def
      kept_rows_def fun_eq_iff)

lemma db_ok_sample_final: "db_ok sample_final"
  by (auto simp: db_ok_def sample_final_def empty_db_def)

lemma sample_reconcile_run:
  "Reconcile (pg_manager sample_fetch sample_store 5) (sample_final, ()) =
     (Inr \<lparr>rr_Checkpoint = \<lparr>cp_Number = 8, cp_Hash = ''8''\<rparr>, rr_PreviousCheckpoint = no_checkpoint, rr_Exists = True,
           rr_ReorgDetected = False\<rparr>, (sample_final, ()))"
  by (simp add: Reconcile_def NewReorgManager_def pg_persistence_def bp_Load_def cs_Load_def bp_EnsureIndexedBlock_def
      run_auto_def sql_select_checkpoint_def NewPostgresCheckpointStore_def sample_final_def uint64_of_def
      empty_ReorgResult_def pg_run_simps sample_run_simps fun_upd_twist)

text \<open>A rollback: block 8 of the sample chain was replaced, and each of its two blocks left a transfer.\<close>

definition orphan_row :: "int \<Rightarrow> transfer_row" where
  "orphan_row n = \<lparr>r_transaction_hash = ''x'', r_log_index = n, r_block_number = n, r_block_hash = ''h'',
     r_token_address = ''T'', r_from_address = ''A'', r_to_address = ''B'', r_value = 5\<rparr>"

definition orphaned_db :: db where
  "orphaned_db = sample_final\<lparr>erc20_transfers := [orphan_row 7, orphan_row 8]\<rparr>"

definition reconciled_db :: db where
  "reconciled_db = orphaned_db\<lparr>erc20_transfers := [orphan_row 7],
     indexed_blocks := (\<lambda>k. if k > 7 then None else indexed_blocks orphaned_db k),
     checkpoints := (checkpoints orphaned_db)(''ethereum_erc20'' \<mapsto> (7, ''7''))\<rparr>"

lemma db_ok_orphaned: "db_ok orphaned_db"
  by (auto simp: db_ok_def orphaned_db_def orphan_row_def sample_final_def empty_db_def)

lemma orphaned_reconcile_run:
  "Reconcile (pg_manager forked_fetch sample_store 5) (orphaned_db, ()) =
     (Inr \<lparr>rr_Checkpoint = \<lparr>cp_Number = 7, cp_Hash = ''7''\<rparr>, rr_PreviousCheckpoint = \<lparr>cp_Number = 8, cp_Hash = ''8''\<rparr>,
           rr_Exists = True, rr_ReorgDetected = True\<rparr>, (reconciled_db, ()))"
  by (simp add: Reconcile_def NewReorgManager_def pg_persistence_def bp_Load_def cs_Load_def reconcile_loop.simps
      bp_LoadIndexedBlockHash_def bp_RollbackTo_def rollback_body_def sql_select_checkpoint_def sql_select_block_hash_def
      sql_delete_transfers_above_def sql_delete_blocks_above_def NewPostgresCheckpointStore_def orphaned_db_def
      sample_final_def reconciled_db_def orphan_row_def uint64_of_def empty_ReorgResult_def forked_fetch_def on_env_def
      pg_run_simps cong: if_cong)

theorem Reconcile_sound_witness:
  "db_ok reconciled_db \<and> erc20_transfers reconciled_db = [orphan_row 7] \<and>
   pg_view ''ethereum_erc20'' (reconciled_db, ()) =
     rollback_view \<lparr>cp_Number = 7, cp_Hash = ''7''\<rparr> (pg_view ''ethereum_erc20'' (orphaned_db, ()))"
  using Reconcile_sound [OF db_ok_orphaned orphaned_reconcile_run]
  by (simp add: reconciled_def sample_store_def NewPostgresBlockPersistence_def) (simp add: reconciled_db_def)

theorem Reconcile_complete_witness:
  "\<exists>d' e'. Reconcile (pg_manager forked_fetch sample_store 5) (sample_final, ()) =
      (Inr \<lparr>rr_Checkpoint = \<lparr>cp_Number = 7, cp_Hash = ''7''\<rparr>,
            rr_PreviousCheckpoint = \<lparr>cp_Number = 8, cp_Hash = ''8''\<rparr>, rr_Exists = True, rr_ReorgDetected = True\<rparr>, (d', e'))"
proof -
  have healthy: "healthy (bp_pool sample_store)"
    by (simp add: healthy_def sample_store_def NewPostgresBlockPersistence_def calm_server_def)
  have gap: "\<not> ((7 :: u64) < n \<and> n < 8)" for n by (auto simp: word_less_nat_alt)
  have "7 < (8 :: u64)" "(5 :: u64) \<noteq> 0" by simp_all
  note complete = Reconcile_complete [OF healthy db_ok_sample_final, where a = 7 and maxDepth = 5
      and canonical = forked_fetch and C = "\<lambda>n. if n = 7 then ''7'' else ''new''" and e = "()"
      and cp = "\<lparr>cp_Number = 8, cp_Hash = ''8''\<rparr>", OF \<open>5 \<noteq> 0\<close> forked_stable refl, unfolded sample_final_view]
  from complete show ?thesis using gap by (auto simp: int64_of_def)
qed

section \<open>Continuous indexing\<close>

text \<open>The indexer \<^verbatim>\<open>app.Run\<close> builds: a concurrent range indexer on PostgreSQL, polled.\<close>

definition pg_continuous :: "('e \<Rightarrow> (go_error, ObservedBlock, 'e) outcome) \<Rightarrow>
    (u64 \<Rightarrow> 'e \<Rightarrow> (go_error, ObservedBlock, 'e) outcome) \<Rightarrow>
    (ObservedBlock \<Rightarrow> 'e \<Rightarrow> (go_error, BlockTransferIndex, 'e) outcome) \<Rightarrow>
    'e PostgresBlockPersistence \<Rightarrow> int \<Rightarrow> u64 \<Rightarrow> int \<Rightarrow> u64 \<Rightarrow> (db \<times> 'e) ContinuousIndexer" where
  "pg_continuous latest fetch decode s workerCount startBlock pollInterval confirmationDepth =
     NewContinuousIndexer (\<lambda>w. on_env (\<lambda>_. latest) () w)
       (shared_IndexRange others_run (NewConcurrentRangeIndexer (pg_client fetch decode) (pg_blocks s) workerCount))
       startBlock pollInterval confirmationDepth"

text \<open>A block handler that touches the environment only (\<^verbatim>\<open>app.Run\<close>'s updates metrics and logs).\<close>

definition env_handler :: "(BlockTransferIndex \<Rightarrow> 'e \<Rightarrow> 'e) \<Rightarrow> BlockTransferIndex \<Rightarrow> 's \<times> 'e \<Rightarrow> 's \<times> 'e" where
  "env_handler f ix w = (fst w, f ix (snd w))"

lemma env_handler_fold: "fst (fold (env_handler f) ixs w) = fst w"
  by (induction ixs arbitrary: w) (simp_all add: env_handler_def)

lemma pg_range_indexed:
  assumes "db_ok (fst w)"
    and "answers_height fetch decode"
    and run: "shared_IndexRange others_run (NewConcurrentRangeIndexer (pg_client fetch decode) (pg_blocks s) workerCount)
      startBlock endBlock w r w'"
  shows "db_ok (fst w')" "range_indexed startBlock endBlock (pg_view (bp_checkpointName s) w) r (pg_view (bp_checkpointName s) w')"
proof -
  note c = pg_shared_commits [OF run assms(1)]
  from c show "db_ok (fst w')" by simp
  from range_post_indexed [OF conjunct2 [OF c] on_env_numbers [OF assms(2)]]
  show "range_indexed startBlock endBlock (pg_view (bp_checkpointName s) w) r (pg_view (bp_checkpointName s) w')" .
qed

text \<open>
  C17. A polling cycle indexes confirmed blocks only: every block it writes is at least
  \<^verbatim>\<open>confirmationDepth\<close> below the head the node just reported, computed without wrap-around, and at
  or above the start block; without a sufficiently high head it writes nothing.
\<close>
theorem RunCycle_confirmed:
  assumes "db_ok d"
    and "answers_height fetch decode"
    and run: "RunCycle (pg_continuous latest fetch decode s workerCount startBlock pollInterval confirmationDepth) (d, e) r (d', e')"
  shows "db_ok d' \<and> (\<exists>bs. pg_view (bp_checkpointName s) (d', e') = fold commit_view bs (pg_view (bp_checkpointName s) (d, e)) \<and>
    (\<forall>ix \<in> set bs. \<exists>head. fst (latest e) = Inr head \<and> startBlock \<le> ix_BlockNumber ix \<and>
       unat (ix_BlockNumber ix) + unat confirmationDepth \<le> unat (ob_Number head)))"
  using run
proof (cases rule: RunCycle_cases)
  case (idle r0)
  then have "d' = d" by (auto simp: pg_continuous_def NewContinuousIndexer_def dest: on_env_frame)
  with assms(1) show ?thesis by (auto simp: pg_view_def intro!: exI [of _ "[]"])
next
  case (ranged b w1 n r0)
  let ?c = "pg_continuous latest fetch decode s workerCount startBlock pollInterval confirmationDepth"
  have c: "ci_startBlock ?c = startBlock" "ci_confirmationDepth ?c = confirmationDepth"
    by (simp_all add: pg_continuous_def NewContinuousIndexer_def)
  from ranged(1) have head: "fst (latest e) = Inr b" and w1: "fst w1 = d"
    by (auto simp: pg_continuous_def NewContinuousIndexer_def on_env_def split: prod.splits)
  from ranged(3) c(1) have idx: "shared_IndexRange others_run (NewConcurrentRangeIndexer (pg_client fetch decode) (pg_blocks s) workerCount)
      startBlock n w1 r0 (d', e')" by (simp add: pg_continuous_def NewContinuousIndexer_def)
  from w1 assms(1) have "db_ok (fst w1)" by simp
  note post = pg_range_indexed [OF this assms(2) idx]
  from post(2) obtain bs where bs: "pg_view (bp_checkpointName s) (d', e') =
      fold commit_view bs (pg_view (bp_checkpointName s) w1)"
    "\<forall>ix \<in> set bs. startBlock \<le> ix_BlockNumber ix \<and> ix_BlockNumber ix \<le> n"
    unfolding range_indexed_def by blast
  from index_through_confirmed [OF ranged(2)] c have "unat n + unat confirmationDepth = unat (ob_Number b)" by simp
  with bs head w1 post(1) show ?thesis
    by (auto simp: pg_view_def word_le_nat_alt intro!: exI [of _ bs])
qed

lemma sample_cycle:
  "RunCycle (pg_continuous (\<lambda>e. sample_fetch 20 e) sample_fetch sample_decode sample_store 2 7 1 12)
     (empty_db, ()) (Inr sample_blocks) (sample_final, ())"
proof -
  let ?c = "pg_continuous (\<lambda>e. sample_fetch 20 e) sample_fetch sample_decode sample_store 2 7 1 12"
  let ?b = "\<lparr>ob_Number = 20, ob_Hash = show_u64 20, ob_ParentHash = show_u64 19, ob_Timestamp = 0, ob_Transactions = []\<rparr>"
  have client: "ci_client ?c (empty_db, ()) = (Inr ?b, (empty_db, ()))"
    by (simp add: pg_continuous_def NewContinuousIndexer_def on_env_def sample_fetch_def)
  have through: "index_through ?c ?b = Some 8"
    by (simp add: pg_continuous_def NewContinuousIndexer_def index_through_def)
  have "ci_indexer ?c (ci_startBlock ?c) 8 (empty_db, ()) (Inr sample_blocks) (sample_final, ())"
    using shared_IndexRange.undisturbed [OF sample_concurrent_run]
    by (simp add: pg_continuous_def NewContinuousIndexer_def sample_concurrent_def)
  from RunCycle.range_done [OF client through this] show ?thesis .
qed

theorem RunCycle_confirmed_witness:
  "RunCycle (pg_continuous (\<lambda>e. sample_fetch 20 e) sample_fetch sample_decode sample_store 2 7 1 12)
     (empty_db, ()) (Inr sample_blocks) (sample_final, ()) \<and> db_ok sample_final"
  using RunCycle_confirmed [OF db_ok_empty sample_answers sample_cycle] sample_cycle by blast

lemma pg_cycle_one_run:
  assumes "db_ok (fst w)" "answers_height fetch decode"
    and c: "c = pg_continuous latest fetch decode s workerCount startBlock pollInterval confirmationDepth"
    and run: "runCycleAndHandle c (map_option env_handler handler) w err w'"
  shows "db_ok (fst w') \<and> one_run startBlock (pg_view (bp_checkpointName s) w) (pg_view (bp_checkpointName s) w')"
proof -
  from run obtain r w1 where cyc: "RunCycle c w r w1" and same: "fst w' = fst w1"
    by cases (auto simp: env_handler_fold split: option.splits)
  from cyc have "db_ok (fst w1) \<and> one_run startBlock (pg_view (bp_checkpointName s) w) (pg_view (bp_checkpointName s) w1)"
  proof (cases rule: RunCycle_cases)
    case (idle r0)
    then have "fst w1 = fst w" by (auto simp: c pg_continuous_def NewContinuousIndexer_def dest: on_env_frame)
    with assms(1) show ?thesis by (simp add: pg_view_def one_run_refl)
  next
    case (ranged b w2 n r0)
    from ranged(1) have w2: "fst w2 = fst w"
      by (auto simp: c pg_continuous_def NewContinuousIndexer_def dest: on_env_frame)
    from ranged(3) have idx: "shared_IndexRange others_run (NewConcurrentRangeIndexer (pg_client fetch decode) (pg_blocks s) workerCount)
        startBlock n w2 r0 w1" by (simp add: c pg_continuous_def NewContinuousIndexer_def)
    from assms(1) w2 have "db_ok (fst w2)" by simp
    note post = pg_range_indexed [OF this assms(2) idx]
    from range_indexed_one_run [OF post(2)] post(1) w2 show ?thesis by (simp add: pg_view_def)
  qed
  with same show ?thesis by (simp add: pg_view_def)
qed

text \<open>The loop, with whatever beside it leaves checkpoint and history alone.\<close>

lemma pg_run_one_run:
  assumes "db_ok (fst w)" and "answers_height fetch decode"
    and "c = pg_continuous latest fetch decode s workerCount startBlock pollInterval confirmationDepth"
    and "\<And>w w'. env w w' \<Longrightarrow> db_ok (fst w) \<Longrightarrow>
      db_ok (fst w') \<and> pg_view (bp_checkpointName s) w' = pg_view (bp_checkpointName s) w"
    and "run_reaches c (map_option env_handler handler) env (start, w) (state, w')"
  shows "db_ok (fst w') \<and> one_run startBlock (pg_view (bp_checkpointName s) w) (pg_view (bp_checkpointName s) w')"
proof -
  let ?R = "\<lambda>w w'. one_run startBlock (pg_view (bp_checkpointName s) w) (pg_view (bp_checkpointName s) w')"
  have "db_ok (fst (snd (state, w'))) \<and> ?R (snd (start, w)) (snd (state, w'))"
  proof (rule run_reaches_invariant [where R = ?R, OF assms(5)])
    show "db_ok (fst (snd (start, w)))" using assms(1) by simp
    show "?R w w" for w by (rule one_run_refl)
    show "?R w w'' " if "?R w w'" "?R w' w''" for w w' w'' using that by (rule one_run_trans)
    show "db_ok (fst w') \<and> ?R w w'"
      if "db_ok (fst w)" "runCycleAndHandle c (map_option env_handler handler) w err w'" for w err w'
      using pg_cycle_one_run [OF that(1) assms(2,3) that(2)] .
    show "db_ok (fst w') \<and> ?R w w'" if "db_ok (fst w)" "env w w'" for w w'
      using assms(4) [OF that(2,1)] by (simp add: one_run_refl)
  qed
  then show ?thesis by simp
qed

text \<open>
  C16. The indexer loop never leaves a gap. In every state the polling loop can reach, after any
  number of cycles, errors, lost acknowledgements, changes of the node and HTTP requests served beside
  it, everything written since the start is one unbroken run of heights, each block naming its
  predecessor, that begins at the start block or right after the checkpoint (whose hash the
  first block must name).
\<close>
theorem Run_unbroken:
  assumes "db_ok d" and "answers_height fetch decode"
    and "c = pg_continuous latest fetch decode s workerCount startBlock pollInterval confirmationDepth"
    and "run_reaches c (map_option env_handler handler) others_run (Run_start c, (d, e)) (state, (d', e'))"
  shows "db_ok d' \<and> one_run startBlock (pg_view (bp_checkpointName s) (d, e)) (pg_view (bp_checkpointName s) (d', e'))"
  using pg_run_one_run [OF _ assms(2-3) _ assms(4)] assms(1) by (simp add: others_run_frame)

theorem Run_unbroken_witness:
  "\<exists>c. run_reaches c None others_run (Run_start c, (empty_db, ())) (Waiting, (sample_final, ())) \<and>
     one_run 7 (pg_view ''ethereum_erc20'' (empty_db, ())) (pg_view ''ethereum_erc20'' (sample_final, ()))"
proof -
  let ?c = "pg_continuous (\<lambda>e. sample_fetch 20 e) sample_fetch sample_decode sample_store 2 7 1 12"
  have start: "Run_start ?c = Cycling" by (simp add: Run_start_def pg_continuous_def NewContinuousIndexer_def)
  have "runCycleAndHandle ?c None (empty_db, ()) None (sample_final, ())"
    using runCycleAndHandle.cycle_handled [OF sample_cycle, of None] by simp
  from run_reaches.run_more [OF run_reaches.run_start run_step.cycle_ok [OF this]] start
  have reach: "run_reaches ?c (map_option env_handler None) others_run (Run_start ?c, (empty_db, ()))
      (Waiting, (sample_final, ()))" by simp
  from Run_unbroken [OF db_ok_empty sample_answers refl reach] reach show ?thesis
    by (auto simp: sample_store_def NewPostgresBlockPersistence_def)
qed

text \<open>The chain goes on: what was added is a run of consecutive heights, each block naming its predecessor,
  that begins right after the checkpoint and names the checkpoint's hash; without a checkpoint it may
  begin anywhere.\<close>

definition chain_continues :: "chain_view \<Rightarrow> chain_view \<Rightarrow> bool" where
  "chain_continues v v' \<longleftrightarrow>
     (\<exists>bs. v' = fold commit_view bs v \<and>
        (case cv_checkpoint v of
           Some cp \<Rightarrow> numbered (cp_Number cp + 1) bs \<and> linked (cp_Hash cp) bs
         | None \<Rightarrow> \<exists>n. numbered n bs \<and> linked [] bs))"

lemma chain_continues_refl: "chain_continues v v"
  by (auto simp: chain_continues_def numbered_def intro!: exI [of _ "[]"] split: option.splits)

lemma one_run_continues:
  assumes "one_run startBlock v v'" "\<And>cp. cv_checkpoint v = Some cp \<Longrightarrow> startBlock = cp_Number cp + 1"
  shows "chain_continues v v'"
proof -
  obtain n h where nh: "run_start_at (cv_checkpoint v) startBlock = (n, h)" by (rule prod.exhaust)
  with assms(1) obtain bs where bs: "v' = fold commit_view bs v" "numbered n bs" "linked h bs"
    unfolding one_run_def by auto
  with nh assms(2) show ?thesis
    by (auto simp: chain_continues_def run_start_at_def Let_def split: option.splits intro!: exI [of _ bs])
qed

text \<open>What startup may do to checkpoint and history, whether it succeeds or not: nothing, record the
  checkpoint's own block, or roll back to an ancestor within the depth.\<close>

definition startup_view :: "u64 \<Rightarrow> chain_view \<Rightarrow> chain_view \<Rightarrow> bool" where
  "startup_view maxReorgDepth v v' \<longleftrightarrow> v' = v \<or>
     (\<exists>cp. cv_checkpoint v = Some cp \<and> (v' = ensure_view cp v \<or>
        (\<exists>a. cp_Number a < cp_Number cp \<and> cv_hashes v (cp_Number a) = Some (cp_Hash a) \<and>
           unat (cp_Number cp) - unat (cp_Number a) \<le> unat maxReorgDepth \<and> v' = rollback_view a v)))"

lemma reconciled_startup_view: "reconciled canonical maxDepth v r v' \<Longrightarrow> startup_view maxDepth v v'"
  by (auto simp: reconciled_def startup_view_def common_ancestor_def split: sum.splits if_splits)

lemma pg_start_effect:
  assumes "db_ok (fst w)" and "client = \<lparr>GetObservedBlockByNumber = on_env fetch, GetERC20TransfersByBlock = on_env decode,
      GetLatestObservedBlock = (\<lambda>w. on_env (\<lambda>_. latest) () w)\<rparr>"
    and run: "determineStartBlock client (pg_persistence s) confirmationDepth maxReorgDepth w = (r, w')"
  shows "db_ok (fst w') \<and> startup_view maxReorgDepth (pg_view (bp_checkpointName s) w) (pg_view (bp_checkpointName s) w')"
proof -
  let ?m = "NewReorgManager (GetObservedBlockByNumber client) (pg_persistence s) maxReorgDepth"
  obtain q w1 where rec: "Reconcile ?m w = (q, w1)" by (rule prod.exhaust)
  then have "Reconcile (pg_reconciling.manager s fetch maxReorgDepth) w = (q, w1)"
    by (simp add: assms(2) pg_persistence_def)
  from pg_reconciling.Reconcile_reconciled [OF assms(1) this] reconciled_startup_view
  have ok: "db_ok (fst w1)" "startup_view maxReorgDepth (pg_view (bp_checkpointName s) w) (pg_view (bp_checkpointName s) w1)"
    by blast+
  from run rec have "fst w' = fst w1"
    by (auto simp: determineStartBlock_def assms(2) split: sum.splits if_splits prod.splits dest!: on_env_frame)
  with ok show ?thesis by (simp add: pg_view_def)
qed

text \<open>Where startup resumes; the statement is the one of \<open>determineStartBlock_resumes\<close> below.\<close>

lemma pg_start_resumes:
  assumes "db_ok d" and "client = \<lparr>GetObservedBlockByNumber = on_env fetch, GetERC20TransfersByBlock = on_env decode,
      GetLatestObservedBlock = (\<lambda>w. on_env (\<lambda>_. latest) () w)\<rparr>"
    and run: "determineStartBlock client (pg_persistence s) confirmationDepth maxReorgDepth (d, e) = (Inr startBlock, (d', e'))"
  shows "db_ok d' \<and>
    (case cv_checkpoint (pg_view (bp_checkpointName s) (d', e')) of
       Some cp \<Rightarrow> startBlock = cp_Number cp + 1 \<and> answered (GetObservedBlockByNumber client) (cp_Number cp) (cp_Hash cp) \<and>
         (startBlock = 0 \<or> run_start_at (Some cp) startBlock = (startBlock, cp_Hash cp))
     | None \<Rightarrow> \<exists>head e1. fst (latest e1) = Inr head \<and>
         unat startBlock = unat (ob_Number head) - unat confirmationDepth)"
proof -
  let ?m = "NewReorgManager (GetObservedBlockByNumber client) (pg_persistence s) maxReorgDepth"
  let ?v = "pg_view (bp_checkpointName s)"
  obtain r w1 where rec: "Reconcile ?m (d, e) = (r, w1)" by (rule prod.exhaust)
  with run obtain res where r: "r = Inr res" by (cases r) (auto simp: determineStartBlock_def)
  have "Reconcile (pg_reconciling.manager s fetch maxReorgDepth) (d, e) = (r, w1)"
    using rec by (simp add: assms(2) pg_persistence_def)
  from pg_reconciling.Reconcile_reconciled [OF _ this] assms(1)
  have ok: "db_ok (fst w1)" and post: "reconciled (GetObservedBlockByNumber client) maxReorgDepth (?v (d, e)) r (?v w1)"
    by (simp_all add: assms(2))
  show ?thesis
  proof (cases "rr_Exists res")
    case True
    with run rec r have eq: "startBlock = cp_Number (rr_Checkpoint res) + 1" "w1 = (d', e')"
      by (auto simp: determineStartBlock_def)
    from True post r eq have "cv_checkpoint (?v (d', e')) = Some (rr_Checkpoint res)"
      "answered (GetObservedBlockByNumber client) (cp_Number (rr_Checkpoint res)) (cp_Hash (rr_Checkpoint res))"
      by (auto simp: reconciled_def common_ancestor_def split: if_splits)
    moreover have "cp_Number (rr_Checkpoint res) + 1 = 0 \<or> \<not> cp_Number (rr_Checkpoint res) + 1 \<le> cp_Number (rr_Checkpoint res)"
      using plus_one_le_u64 by blast
    ultimately show ?thesis using ok eq by (auto simp: run_start_at_def Let_def)
  next
    case False
    with post r have same: "?v w1 = ?v (d, e)" "cv_checkpoint (?v (d, e)) = None" by (auto simp: reconciled_def)
    from run rec r False obtain head w2 where l: "GetLatestObservedBlock client w1 = (Inr head, w2)"
      "startBlock = (if ob_Number head \<ge> confirmationDepth then ob_Number head - confirmationDepth else 0)" "w2 = (d', e')"
      by (auto simp: determineStartBlock_def split: prod.splits sum.splits)
    from l(1) have head: "fst (latest (snd w1)) = Inr head" "fst w2 = fst w1"
      by (auto simp: assms(2) on_env_def split: prod.splits)
    have "unat startBlock = unat (ob_Number head) - unat confirmationDepth"
      by (auto simp: l(2) unat_sub word_le_nat_alt)
    with head l(3) same ok show ?thesis by (auto simp: pg_view_def split: option.splits)
  qed
qed

text \<open>
  C18. Startup resumes where it must. When \<^verbatim>\<open>determineStartBlock\<close> succeeds and a checkpoint is left in
  the store, the node has confirmed its hash and the start block is the next height, so that
  the first block indexed must name that hash as its parent; with no checkpoint the start block
  is \<^verbatim>\<open>confirmationDepth\<close> below the reported head, or 0.
\<close>
theorem determineStartBlock_resumes:
  assumes "db_ok d" and "client = \<lparr>GetObservedBlockByNumber = on_env fetch, GetERC20TransfersByBlock = on_env decode,
      GetLatestObservedBlock = (\<lambda>w. on_env (\<lambda>_. latest) () w)\<rparr>"
    and run: "determineStartBlock client (pg_persistence s) confirmationDepth maxReorgDepth (d, e) = (Inr startBlock, (d', e'))"
  shows "db_ok d' \<and>
    (case cv_checkpoint (pg_view (bp_checkpointName s) (d', e')) of
       Some cp \<Rightarrow> startBlock = cp_Number cp + 1 \<and> answered (GetObservedBlockByNumber client) (cp_Number cp) (cp_Hash cp) \<and>
         (startBlock = 0 \<or> run_start_at (Some cp) startBlock = (startBlock, cp_Hash cp))
     | None \<Rightarrow> \<exists>head e1. fst (latest e1) = Inr head \<and>
         unat startBlock = unat (ob_Number head) - unat confirmationDepth)"
  using pg_start_resumes [OF assms] .

theorem determineStartBlock_resumes_witness:
  "determineStartBlock \<lparr>GetObservedBlockByNumber = on_env sample_fetch, GetERC20TransfersByBlock = on_env sample_decode,
      GetLatestObservedBlock = (\<lambda>w. on_env (\<lambda>_. sample_fetch 20) () w)\<rparr> (pg_persistence sample_store) 12 5 (sample_final, ()) =
     (Inr 9, (sample_final, ())) \<and> answered (on_env sample_fetch :: u64 \<Rightarrow> db \<times> unit \<Rightarrow> _) 8 ''8''"
proof -
  have run: "determineStartBlock \<lparr>GetObservedBlockByNumber = on_env sample_fetch, GetERC20TransfersByBlock = on_env sample_decode,
      GetLatestObservedBlock = (\<lambda>w. on_env (\<lambda>_. sample_fetch 20) () w)\<rparr> (pg_persistence sample_store) 12 5 (sample_final, ()) =
     (Inr 9, (sample_final, ()))"
    by (simp add: determineStartBlock_def sample_reconcile_run)
  from determineStartBlock_resumes [OF db_ok_sample_final refl run] run show ?thesis
    by (simp add: sample_final_view)
qed

end
