(* ===== verification/Metadata_Requests.thy ===== *)
theory Metadata_Requests
  imports Token_Fetching Indexing_Properties
begin

text \<open>
  Requests that ask \<^verbatim>\<open>TokenMetadataService\<close> at the same time. Every HTTP request runs in a goroutine of
  its own and they share the cache and the store; the lock of the service covers one read or one write
  of the cache and nothing more, so the goroutines interleave between the cache, the store and the
  node. A goroutine is a state machine with one step per access to what is shared; a schedule is a list
  of events: a request arrives, one of the goroutines moves, or the rest of the system changes the
  world.
\<close>

section \<open>One goroutine\<close>

text \<open>Where a call of \<^verbatim>\<open>GetTokenMetadata\<close> stands: before the cache, before the store, before the node, before
  the insertion into the store, before the write of the cache, and returned.\<close>

datatype metadata_request =
    Begun Address
  | Uncached Address
  | Unstored Address
  | Fetched Address TokenMetadata
  | Obtained Address TokenMetadata
  | Answered Address "go_error + TokenMetadata"

fun request_step :: "'w TokenMetadataService \<Rightarrow> metadata_request \<Rightarrow> metadata_cache \<times> 'w \<Rightarrow>
    metadata_request \<times> metadata_cache \<times> 'w" where
  "request_step s (Begun address) (cache, w) =
     (case cache (ToLower address) of
        Some metadata \<Rightarrow> (Answered address (Inr metadata), cache, w)
      | None \<Rightarrow> (Uncached address, cache, w))"
| "request_step s (Uncached address) (cache, w) =
     (case LoadTokenMetadata (tms_store s) address w of
        (Inl err, w') \<Rightarrow> (Answered address (Inl (NewDomainError (Some (Sentinel ErrMetadata))
                            ''load cached token metadata'' (Some err))), cache, w')
      | (Inr (Some metadata), w') \<Rightarrow> (Obtained address metadata, cache, w')
      | (Inr None, w') \<Rightarrow> (Unstored address, cache, w'))"
| "request_step s (Unstored address) (cache, w) =
     (case tms_fetcher s address w of
        (Inl err, w') \<Rightarrow> (Answered address (Inl (NewDomainError (Some (Sentinel ErrMetadata))
                            ''fetch token metadata'' (Some err))), cache, w')
      | (Inr metadata, w') \<Rightarrow> (Fetched address metadata, cache, w'))"
| "request_step s (Fetched address metadata) (cache, w) =
     (case SaveTokenMetadata (tms_store s) metadata w of
        (Inl err, w') \<Rightarrow> (Answered address (Inl (NewDomainError (Some (Sentinel ErrMetadata))
                            ''persist token metadata'' (Some err))), cache, w')
      | (Inr _, w') \<Rightarrow> (Obtained address metadata, cache, w'))"
| "request_step s (Obtained address metadata) (cache, w) =
     (Answered address (Inr metadata), cacheMetadata (ToLower address) metadata cache, w)"
| "request_step s (Answered address r) (cache, w) = (Answered address r, cache, w)"

fun requested :: "metadata_request \<Rightarrow> Address" where
  "requested (Begun a) = a"
| "requested (Uncached a) = a"
| "requested (Unstored a) = a"
| "requested (Fetched a m) = a"
| "requested (Obtained a m) = a"
| "requested (Answered a r) = a"

fun answer_of :: "metadata_request \<Rightarrow> (go_error + TokenMetadata) option" where
  "answer_of (Answered a r) = Some r"
| "answer_of _ = None"

text \<open>An upper bound on the steps a call has left.\<close>

fun steps_left :: "metadata_request \<Rightarrow> nat" where
  "steps_left (Begun a) = 5"
| "steps_left (Uncached a) = 4"
| "steps_left (Unstored a) = 3"
| "steps_left (Fetched a m) = 2"
| "steps_left (Obtained a m) = 1"
| "steps_left (Answered a r) = 0"

lemma steps_left_0: "steps_left q = 0 \<longleftrightarrow> (\<exists>r. answer_of q = Some r)"
  by (cases q) auto

lemma request_step_left: "steps_left (fst (request_step s q cw)) \<le> steps_left q - 1"
  by (cases q; cases cw) (auto split: option.splits prod.splits sum.splits)

lemma request_step_requested: "requested (fst (request_step s q cw)) = requested q"
  by (cases q; cases cw) (auto split: option.splits prod.splits sum.splits)

text \<open>A goroutine that runs alone computes \<^term>\<open>GetTokenMetadata\<close>.\<close>

definition request_alone :: "'w TokenMetadataService \<Rightarrow> nat \<Rightarrow> metadata_request \<times> metadata_cache \<times> 'w \<Rightarrow>
    metadata_request \<times> metadata_cache \<times> 'w" where
  "request_alone s n = ((\<lambda>(q, cw). request_step s q cw) ^^ n)"

lemma request_alone_answered [simp]: "request_alone s n (Answered a r, cw) = (Answered a r, cw)"
  by (induction n; cases cw) (auto simp: request_alone_def)

lemma request_alone_Suc: "request_alone s (Suc n) (q, cw) = request_alone s n (request_step s q cw)"
  by (simp add: request_alone_def funpow_swap1 del: funpow.simps add: funpow_Suc_right)

lemma request_alone_computes:
  "request_alone s 5 (Begun a, cw) = (case GetTokenMetadata s a cw of (r, cw') \<Rightarrow> (Answered a r, cw'))"
proof -
  obtain c w where "cw = (c, w)" by force
  then show ?thesis
    by (simp add: eval_nat_numeral request_alone_Suc GetTokenMetadata_def Let_def split: option.split prod.split sum.split)
qed

section \<open>Schedules\<close>

datatype 'w metadata_event = Arrives Address | Moves nat | Elsewhere "'w \<Rightarrow> 'w"

type_synonym 'w request_state = "metadata_request list \<times> metadata_cache \<times> 'w"

fun metadata_event_step :: "'w TokenMetadataService \<Rightarrow> 'w metadata_event \<Rightarrow> 'w request_state \<Rightarrow> 'w request_state" where
  "metadata_event_step s (Arrives a) (qs, c, w) = (qs @ [Begun a], c, w)"
| "metadata_event_step s (Moves i) (qs, c, w) =
     (if i < length qs then case request_step s (qs ! i) (c, w) of (q, c', w') \<Rightarrow> (qs[i := q], c', w')
      else (qs, c, w))"
| "metadata_event_step s (Elsewhere f) (qs, c, w) = (qs, c, f w)"

definition metadata_requests :: "'w TokenMetadataService \<Rightarrow> 'w metadata_event list \<Rightarrow> 'w request_state \<Rightarrow> 'w request_state" where
  "metadata_requests s events = fold (metadata_event_step s) events"

lemma metadata_requests_simps [simp]:
  "metadata_requests s [] = id"
  "metadata_requests s (e # es) = metadata_requests s es \<circ> metadata_event_step s e"
  by (simp_all add: metadata_requests_def fun_eq_iff)

section \<open>The invariant of all interleavings\<close>

text \<open>
  The store held \<open>v0\<close> when the service started and the contracts answer \<open>truth\<close>. A goroutine that has
  missed the store did so for a token that was not stored at the start; one that has metadata in hand
  after the store has what the store holds.
\<close>

fun request_ok :: "metadata_view \<Rightarrow> (string \<Rightarrow> string \<times> string \<times> u8) \<Rightarrow> metadata_view \<Rightarrow> metadata_request \<Rightarrow> bool" where
  "request_ok v0 truth v (Begun a) \<longleftrightarrow> True"
| "request_ok v0 truth v (Uncached a) \<longleftrightarrow> True"
| "request_ok v0 truth v (Unstored a) \<longleftrightarrow> v0 (ToLower a) = None"
| "request_ok v0 truth v (Fetched a m) \<longleftrightarrow>
     v0 (ToLower a) = None \<and> ToLower (md_Address m) = ToLower a \<and> content m = truth (ToLower a)"
| "request_ok v0 truth v (Obtained a m) \<longleftrightarrow> v (ToLower a) = Some (content m)"
| "request_ok v0 truth v (Answered a r) \<longleftrightarrow> (\<forall>m. r = Inr m \<longrightarrow> v (ToLower a) = Some (content m))"

lemma map_le_Some: "v \<subseteq>\<^sub>m v' \<Longrightarrow> v k = Some x \<Longrightarrow> v' k = Some x"
  unfolding map_le_def by (metis domI)

lemma request_ok_mono: "request_ok v0 truth v q \<Longrightarrow> v \<subseteq>\<^sub>m v' \<Longrightarrow> request_ok v0 truth v' q"
  by (cases q) (auto dest: map_le_Some)

text \<open>What the store may hold: what it held, and the truth about tokens it did not know.\<close>

definition store_ok :: "metadata_view \<Rightarrow> (string \<Rightarrow> string \<times> string \<times> u8) \<Rightarrow> metadata_view \<Rightarrow> bool" where
  "store_ok v0 truth v \<longleftrightarrow> (\<forall>k. v k = v0 k \<or> v0 k = None \<and> v k = Some (truth k))"

lemma store_ok_start: "store_ok v truth v"
  by (simp add: store_ok_def)

lemma store_ok_le: "store_ok v0 truth v \<Longrightarrow> v0 \<subseteq>\<^sub>m v"
  unfolding store_ok_def map_le_def by (metis domIff)

lemma store_ok_put:
  assumes "store_ok v0 truth v" "v0 (ToLower (md_Address m)) = None" "content m = truth (ToLower (md_Address m))"
  shows "store_ok v0 truth (put_view m v) \<and> v \<subseteq>\<^sub>m put_view m v"
proof -
  have "v (ToLower (md_Address m)) = None \<or> v (ToLower (md_Address m)) = Some (content m)"
    using assms unfolding store_ok_def by metis
  then show ?thesis using assms by (auto simp: store_ok_def put_view_def map_le_def dom_def)
qed

context metadata_store
begin

text \<open>The requests are for addresses of \<open>A\<close>.\<close>

definition requests_ok :: "Address set \<Rightarrow> metadata_view \<Rightarrow> (string \<Rightarrow> string \<times> string \<times> u8) \<Rightarrow> 'w request_state \<Rightarrow> bool" where
  "requests_ok A v0 truth st \<longleftrightarrow> (case st of (qs, c, w) \<Rightarrow>
     store_ok v0 truth (view w) \<and> coherent (c, w) \<and> (\<forall>q \<in> set qs. requested q \<in> A \<and> request_ok v0 truth (view w) q))"

lemma coherent_mono: "coherent (c, w) \<Longrightarrow> view w \<subseteq>\<^sub>m view w' \<Longrightarrow> coherent (c, w')"
  by (auto simp: coherent_def dest: map_le_Some)

text \<open>A fetcher that leaves the store alone and answers, for an address of \<open>A\<close> in any letter case, the same
  each time.\<close>

definition steady :: "Address set \<Rightarrow> (Address \<Rightarrow> 'w \<Rightarrow> (go_error, TokenMetadata, 'w) outcome) \<Rightarrow>
    (string \<Rightarrow> string \<times> string \<times> u8) \<Rightarrow> bool" where
  "steady A fetch truth \<longleftrightarrow> (\<forall>a \<in> A. \<forall>w r w'. fetch a w = (r, w') \<longrightarrow> view w' = view w \<and>
     (\<forall>m. r = Inr m \<longrightarrow> ToLower (md_Address m) = ToLower a \<and> content m = truth (ToLower a)))"

lemma steadyD:
  assumes "steady A fetch truth" "a \<in> A" "fetch a w = (r, w')"
  shows "view w' = view w" "r = Inr m \<Longrightarrow> ToLower (md_Address m) = ToLower a \<and> content m = truth (ToLower a)"
  using assms unfolding steady_def by blast+

text \<open>One step of one goroutine keeps the invariant and takes nothing from the store.\<close>

lemma request_step_ok:
  assumes steady: "steady A fetch truth" and asked: "requested q \<in> A"
    and ok: "store_ok v0 truth (view w)" "coherent (c, w)" "request_ok v0 truth (view w) q"
    and step: "request_step (service fetch) q (c, w) = (q', c', w')"
  shows "store_ok v0 truth (view w') \<and> coherent (c', w') \<and> request_ok v0 truth (view w') q' \<and> view w \<subseteq>\<^sub>m view w'"
proof (cases q)
  case (Begun a)
  with ok step show ?thesis by (auto simp: coherent_def split: option.splits)
next
  case (Uncached a)
  obtain rl w1 where l: "load a w = (rl, w1)" by force
  have v1: "view w1 = view w" by (rule load_frame [OF l])
  then have "coherent (c, w1)" using ok(2) coherent_mono [of c w w1] by simp
  moreover have "v0 (ToLower a) = None" if "rl = Inr None"
    using load_value [OF l [unfolded that]] ok(1) unfolding store_ok_def by (metis not_Some_eq option.map_disc_iff)
  moreover have "view w (ToLower a) = Some (content m)" if "rl = Inr (Some m)" for m
    using load_value [OF l [unfolded that]] by (cases "view w (ToLower a)") auto
  ultimately show ?thesis
    using ok(1) step Uncached l v1
    by (auto simp: NewTokenMetadataService_def split: sum.splits option.splits)
next
  case (Unstored a)
  obtain rf w1 where f: "fetch a w = (rf, w1)" by force
  from asked Unstored have a: "a \<in> A" by simp
  have v1: "view w1 = view w" by (rule steadyD(1) [OF steady a f])
  then have "coherent (c, w1)" using ok(2) coherent_mono [of c w w1] by simp
  then show ?thesis
    using ok step Unstored f v1 steadyD(2) [OF steady a f]
    by (auto simp: NewTokenMetadataService_def split: sum.splits)
next
  case (Fetched a m)
  obtain rs w1 where s: "save m w = (rs, w1)" by force
  have "view w1 = put_view m (view w) \<or> isl rs \<and> view w1 = view w"
    using s save_ok [of m w _ w1] save_error [of m w _ w1] by (cases rs) auto
  with store_ok_put [of v0 truth "view w" m] ok(1,3) Fetched
  have v1: "store_ok v0 truth (view w1)" "view w \<subseteq>\<^sub>m view w1" by auto
  have "view w1 (ToLower a) = Some (content m)" if "rs = Inr u" for u
    using save_ok [OF s [unfolded that]] ok(3) Fetched by (simp add: put_view_def)
  with v1 ok(2) coherent_mono [of c w w1] step Fetched s show ?thesis
    by (auto simp: NewTokenMetadataService_def split: sum.splits)
next
  case (Obtained a m)
  with ok step show ?thesis by (auto simp: cacheMetadata_def coherent_def split: if_splits)
next
  case (Answered a r)
  with ok step show ?thesis by auto
qed

lemma metadata_event_ok:
  assumes steady: "steady A fetch truth"
    and elsewhere: "\<And>f w. e = Elsewhere f \<Longrightarrow> view (f w) = view w" and arrives: "\<And>a. e = Arrives a \<Longrightarrow> a \<in> A"
    and "requests_ok A v0 truth st"
  shows "requests_ok A v0 truth (metadata_event_step (service fetch) e st)"
proof -
  obtain qs c w where st: "st = (qs, c, w)" by (cases st)
  with assms(4) have ok: "store_ok v0 truth (view w)" "coherent (c, w)"
    "\<forall>q \<in> set qs. requested q \<in> A \<and> request_ok v0 truth (view w) q"
    by (simp_all add: requests_ok_def)
  show ?thesis
  proof (cases e)
    case (Arrives a)
    with ok st arrives show ?thesis by (simp add: requests_ok_def)
  next
    case (Elsewhere f)
    with ok st elsewhere [OF Elsewhere, of w] coherent_mono [of c w "f w"] show ?thesis by (simp add: requests_ok_def)
  next
    case (Moves i)
    obtain q c' w' where step: "request_step (service fetch) (qs ! i) (c, w) = (q, c', w')" by (metis prod_cases3)
    show ?thesis
    proof (cases "i < length qs")
      case True
      with ok(3) have this_one: "requested (qs ! i) \<in> A" "request_ok v0 truth (view w) (qs ! i)" by simp_all
      note new = request_step_ok [OF steady this_one(1) ok(1,2) this_one(2) step]
      have "requested q \<in> A" using request_step_requested [of "service fetch" "qs ! i" "(c, w)"] step this_one(1) by simp
      then have "\<forall>p \<in> set (qs[i := q]). requested p \<in> A \<and> request_ok v0 truth (view w') p"
        using new ok(3) request_ok_mono set_update_subset_insert [of qs i q] by blast
      with new step True Moves st show ?thesis by (simp add: requests_ok_def)
    qed (use assms(4) Moves st in simp)
  qed
qed

lemma metadata_requests_ok:
  assumes steady: "steady A fetch truth"
    and elsewhere: "\<And>f w. Elsewhere f \<in> set es \<Longrightarrow> view (f w) = view w" and arrives: "\<And>a. Arrives a \<in> set es \<Longrightarrow> a \<in> A"
    and "requests_ok A v0 truth st"
  shows "requests_ok A v0 truth (metadata_requests (service fetch) es st)"
  using assms(2-4)
proof (induction es arbitrary: st)
  case (Cons e es)
  have "requests_ok A v0 truth (metadata_event_step (service fetch) e st)"
    by (rule metadata_event_ok [OF steady]) (use Cons.prems in auto)
  then show ?case using Cons by simp
qed simp

end

section \<open>The indexer beside the requests\<close>

text \<open>
  The indexer runs in another goroutine on the same database. Its operations are oblivious of the table
  of token metadata: they neither read it nor write it, so that they commute with every change the
  requests make to it and may stand anywhere in a schedule.
\<close>

definition with_metadata :: "(string \<rightharpoonup> string \<times> string \<times> int) \<Rightarrow> db \<times> 'e \<Rightarrow> db \<times> 'e" where
  "with_metadata t w = ((fst w)\<lparr>token_metadata := t\<rparr>, snd w)"

definition oblivious :: "(db \<times> 'e \<Rightarrow> (go_error, 'a, db \<times> 'e) outcome) \<Rightarrow> bool" where
  "oblivious f \<longleftrightarrow> (\<forall>t w. f (with_metadata t w) = (fst (f w), with_metadata t (snd (f w))))"

definition oblivious_sql :: "(db \<Rightarrow> (go_error, 'a, db) outcome) \<Rightarrow> bool" where
  "oblivious_sql stmt \<longleftrightarrow> (\<forall>t d. stmt (d\<lparr>token_metadata := t\<rparr>) = (fst (stmt d), (snd (stmt d))\<lparr>token_metadata := t\<rparr>))"

lemma oblivious_keeps:
  assumes "oblivious f"
  shows "token_metadata (fst (snd (f w))) = token_metadata (fst w)"
proof -
  have "with_metadata (token_metadata (fst w)) w = w" by (simp add: with_metadata_def)
  with assms have "snd (f w) = with_metadata (token_metadata (fst w)) (snd (f w))"
    unfolding oblivious_def by (metis snd_conv)
  then show ?thesis by (metis db.select_convs(4) db.surjective db.update_convs(4) fst_conv with_metadata_def)
qed

lemma oblivious_commutes:
  assumes "oblivious f"
  shows "with_metadata t (snd (f w)) = snd (f (with_metadata t w)) \<and> fst (f w) = fst (f (with_metadata t w))"
  using assms unfolding oblivious_def by (metis fst_conv snd_conv)

lemma oblivious_statements:
  "oblivious_sql (sql_select_checkpoint name)"
  "oblivious_sql (sql_upsert_checkpoint name n h)"
  "oblivious_sql (sql_insert_transfer row)"
  "oblivious_sql (sql_record_block n h p)"
  "oblivious_sql (sql_select_block_hash n)"
  "oblivious_sql (sql_delete_transfers_above n)"
  "oblivious_sql (sql_delete_blocks_above n)"
  by (auto simp: oblivious_sql_def sql_select_checkpoint_def sql_upsert_checkpoint_def sql_insert_transfer_def
      sql_record_block_def sql_select_block_hash_def sql_delete_transfers_above_def sql_delete_blocks_above_def
      split: option.splits cong: if_cong)

lemma oblivious_run_statement: "oblivious_sql stmt \<Longrightarrow> oblivious (run_statement pg stmt)"
  by (auto simp: oblivious_def oblivious_sql_def run_statement_def with_metadata_def split: prod.splits option.splits)

lemma oblivious_run_auto: "oblivious_sql stmt \<Longrightarrow> oblivious (run_auto pg stmt)"
  by (auto simp: oblivious_def oblivious_sql_def run_auto_def with_metadata_def
      split: prod.splits option.splits sum.splits commit_reply.splits)

lemma oblivious_bind:
  assumes "oblivious f" "\<And>x. oblivious (g x)" "\<And>e. oblivious (h e)"
  shows "oblivious (\<lambda>w. case f w of (Inl e, w') \<Rightarrow> h e w' | (Inr x, w') \<Rightarrow> g x w')"
  using assms by (auto simp: oblivious_def split: prod.splits sum.splits)

lemma oblivious_return [simp]: "oblivious (\<lambda>w. (r, w))"
  by (simp add: oblivious_def)

lemma oblivious_if: "oblivious f \<Longrightarrow> oblivious g \<Longrightarrow> oblivious (\<lambda>w. if b then f w else g w)"
  by (cases b) simp_all

lemma oblivious_map: "oblivious f \<Longrightarrow> oblivious (\<lambda>w. let (r, w') = f w in (k r, w'))"
  by (auto simp: oblivious_def split: prod.splits)

lemma oblivious_in_transaction:
  assumes "oblivious body"
  shows "oblivious (in_transaction pg beginning committing body)"
  using assms unfolding oblivious_def
  by (auto simp: in_transaction_def commit_tx_def with_metadata_def split: prod.splits option.splits sum.splits commit_reply.splits)

lemma oblivious_upsertCheckpoint: "oblivious (upsertCheckpoint (run_statement pg) name checkpoint)"
  unfolding upsertCheckpoint_def [abs_def]
  by (intro oblivious_if oblivious_return oblivious_run_statement oblivious_statements)

lemma oblivious_recordIndexedBlock:
  "oblivious (recordIndexedBlock (run_statement pg) n h p)" "oblivious (recordIndexedBlock (run_auto pg) n h p)"
  unfolding recordIndexedBlock_def [abs_def]
  by (intro oblivious_bind oblivious_if oblivious_return oblivious_run_statement oblivious_run_auto oblivious_statements)+

lemma oblivious_run_hook: "oblivious (run_hook hook)"
  by (auto simp: oblivious_def run_hook_def with_metadata_def split: option.splits prod.splits)

lemma oblivious_insertBlockTransfers: "oblivious (insertBlockTransfers pg index ts)"
proof (induction ts)
  case (Cons transfer ts)
  have run: "oblivious (run_statement pg (sql_insert_transfer row))" for row
    by (rule oblivious_run_statement [OF oblivious_statements(3)])
  show ?case
  proof (cases "tr_Value transfer")
    case (Some x)
    show ?thesis unfolding oblivious_def using run [of "row_of index transfer x"] Cons.IH Some
      by (auto simp: oblivious_def split: prod.splits sum.splits)
  qed (simp add: oblivious_def)
qed (simp add: oblivious_def)

lemma oblivious_save_body: "oblivious (save_body s index)"
  unfolding save_body_def [abs_def]
  by (intro oblivious_bind oblivious_return oblivious_insertBlockTransfers oblivious_recordIndexedBlock
      oblivious_run_hook oblivious_upsertCheckpoint)

lemma oblivious_rollback_body: "oblivious (rollback_body s checkpoint)"
  unfolding rollback_body_def [abs_def]
  by (intro oblivious_bind oblivious_return oblivious_run_statement oblivious_statements oblivious_upsertCheckpoint)

text \<open>What the indexer does to the world: its five database operations and the calls of its client.\<close>

lemma oblivious_indexer:
  "oblivious (bp_Load s)"
  "oblivious (bp_SaveIndexedBlock s index)"
  "oblivious (bp_EnsureIndexedBlock s checkpoint)"
  "oblivious (bp_LoadIndexedBlockHash s n)"
  "oblivious (bp_RollbackTo s checkpoint)"
  "oblivious (on_env call x)"
proof -
  show "oblivious (bp_Load s)"
    unfolding bp_Load_def [abs_def] cs_Load_def [abs_def] by (intro oblivious_map oblivious_run_statement oblivious_statements)
  show "oblivious (bp_LoadIndexedBlockHash s n)"
    unfolding bp_LoadIndexedBlockHash_def [abs_def] by (intro oblivious_map oblivious_run_statement oblivious_statements)
  show "oblivious (bp_SaveIndexedBlock s index)" "oblivious (bp_RollbackTo s checkpoint)"
    unfolding bp_SaveIndexedBlock_def [abs_def] bp_RollbackTo_def [abs_def]
    by (intro oblivious_map oblivious_in_transaction oblivious_save_body oblivious_rollback_body)+
  show "oblivious (bp_EnsureIndexedBlock s checkpoint)"
    unfolding bp_EnsureIndexedBlock_def [abs_def] by (intro oblivious_map oblivious_recordIndexedBlock)
  show "oblivious (on_env call x)"
    by (auto simp: oblivious_def on_env_def with_metadata_def split: prod.splits)
qed

text \<open>What the requests do to the tables is what the indexer expects of others.\<close>

lemma pg_SaveTokenMetadata_others:
  assumes "pg_SaveTokenMetadata pool m w = (r, w')"
  shows "others_run w w'"
proof -
  let ?stmt = "sql_upsert_metadata (normalizeMetadataAddress (md_Address m)) (md_Name m) (md_Symbol m) (uint (md_Decimals m))"
  have stmt: "\<exists>t. snd (?stmt d) = d\<lparr>token_metadata := t\<rparr>" for d
    by (auto simp: sql_upsert_metadata_def intro: exI [of _ "token_metadata d"])
  from assms obtain r0 where "run_auto pool ?stmt w = (r0, w')"
    by (auto simp: pg_SaveTokenMetadata_def split: prod.splits sum.splits)
  then show ?thesis
    using stmt [of "fst w"] by (cases rule: run_auto_cases) (auto simp: others_run_def intro: exI [of _ "token_metadata (fst w)"])
qed

lemma others_run_same: "fst w' = fst w \<Longrightarrow> others_run w w'"
  by (auto simp: others_run_def intro: exI [of _ "token_metadata (fst w)"])

lemma request_step_others:
  assumes "\<And>a w r w'. fetch a w = (r, w') \<Longrightarrow> fst w' = fst w"
    and "request_step (pg_service fetch pool) q (c, w) = (q', c', w')"
  shows "others_run w w'"
  using assms(2)
  by (cases q) (auto simp: NewTokenMetadataService_def intro: others_run_same
      dest: assms(1) pg_LoadTokenMetadata_frame pg_SaveTokenMetadata_others
      split: option.splits prod.splits sum.splits)

section \<open>Every request returns\<close>

lemma metadata_event_length: "length (fst st) \<le> length (fst (metadata_event_step s e st))"
  by (cases st; cases e) (auto split: prod.splits)

lemma metadata_event_left:
  assumes "i < length (fst st)"
  shows "steps_left (fst (metadata_event_step s e st) ! i) \<le> steps_left (fst st ! i) - (if e = Moves i then 1 else 0)"
proof -
  obtain qs c w where st: "st = (qs, c, w)" by (cases st)
  show ?thesis
  proof (cases e)
    case (Moves j)
    obtain q c' w' where step: "request_step s (qs ! j) (c, w) = (q, c', w')" by (metis prod_cases3)
    with request_step_left [of s "qs ! j" "(c, w)"] have "steps_left q \<le> steps_left (qs ! j) - 1" by simp
    with step Moves st assms show ?thesis by (cases "j = i") auto
  qed (use st assms in \<open>auto simp: nth_append\<close>)
qed

text \<open>However the requests interleave, five of its own steps bring a request to its answer.\<close>

lemma metadata_request_returns:
  assumes "i < length (fst st)" "steps_left (fst st ! i) \<le> length (filter (\<lambda>e. e = Moves i) es)"
  shows "\<exists>r. answer_of (fst (metadata_requests s es st) ! i) = Some r"
  using assms
proof (induction es arbitrary: st)
  case Nil
  then show ?case by (simp add: steps_left_0 [symmetric])
next
  case (Cons e es)
  let ?st = "metadata_event_step s e st"
  from Cons.prems(1) metadata_event_length [of st s e] have "i < length (fst ?st)" by simp
  moreover have "steps_left (fst ?st ! i) \<le> length (filter (\<lambda>e. e = Moves i) es)"
    using metadata_event_left [OF Cons.prems(1), of s e] Cons.prems(2) by (auto split: if_splits)
  ultimately show ?case using Cons.IH [of ?st] by simp
qed

section \<open>Properties\<close>

lemma steady_pg:
  fixes e :: "'w EthereumClient"
  assumes "application_fetcher abi e client fetch" "reads_addresses (eth_codec_of e)" "steady_node (eth_client e) reply"
  shows "pg_metadata.steady {a. token_text (eth_codec_of e) a} (on_env fetch)
    (\<lambda>k. contract_says abi reply (HexToAddress (eth_codec_of e) k))"
  unfolding pg_metadata.steady_def
proof (intro ballI allI impI conjI)
  fix a r and w w' :: "db \<times> 'w rpc_world" assume "on_env fetch a w = (r, w')"
  from on_env_frame [OF this] show "metadata_view_of w' = metadata_view_of w" by (simp add: metadata_view_of_def)
next
  fix a r m and w w' :: "db \<times> 'w rpc_world" assume a: "a \<in> {a. token_text (eth_codec_of e) a}" and "on_env fetch a w = (r, w')" "r = Inr m"
  then have run: "on_env fetch a w = (Inr m, w')" by simp
  note read = token_text_read [OF a [simplified] assms(2)]
  show "ToLower (md_Address m) = ToLower a" using application_fetcher_success(1) [OF assms(1) run] read(1) by simp
  show "content m = contract_says abi reply (HexToAddress (eth_codec_of e) (ToLower a))"
    using application_fetcher_success(2) [OF assms(1) run assms(3)] read(2) by simp
qed

text \<open>
  C7. Concurrent requests for token metadata agree, for a node that is steady: all it ever answers to a
  call of a contract's method is the same. The fetcher is the application's, the resilient client over
  \<^verbatim>\<open>EthereumClient.FetchTokenMetadata\<close>, each call under a context of its own, and the requests are for
  addresses as go-ethereum writes them, in any letter case, as the stored transfers have them. Requests
  may arrive at any time and interleave in every way with each other and with whatever leaves the
  metadata table alone (the indexer does, \<open>oblivious_indexer\<close>), and the node and the database may fail
  any of them. Then every successful answer is what PostgreSQL holds for the token, and for a token it
  did not hold at the start it is what the contract says; any two answers for a token agree, in
  whichever letter case they were asked; the cache holds nothing that PostgreSQL does not; and no
  stored entry is ever changed. (With a node that is not steady: \<open>unsteady_node_diverges\<close>.)
\<close>
theorem concurrent_metadata_agree:
  assumes fetcher: "application_fetcher abi node client fetch" "reads_addresses (eth_codec_of node)"
    and steady: "steady_node (eth_client node) reply"
    and arrives: "\<And>a. Arrives a \<in> set es \<Longrightarrow> token_text (eth_codec_of node) a"
    and elsewhere: "\<And>f w. Elsewhere f \<in> set es \<Longrightarrow> token_metadata (fst (f w)) = token_metadata (fst w)"
    and start: "cache_coherent c d"
    and run: "metadata_requests (pg_service (on_env fetch) pool) es ([], c, (d, e)) = (qs, c', (d', e'))"
  shows "cache_coherent c' d' \<and> metadata_view_of (d, e) \<subseteq>\<^sub>m metadata_view_of (d', e') \<and>
    (\<forall>q \<in> set qs. \<forall>m. answer_of q = Some (Inr m) \<longrightarrow>
       metadata_view_of (d', e') (ToLower (requested q)) = Some (content m) \<and>
       (metadata_view_of (d, e) (ToLower (requested q)) = None \<longrightarrow>
          content m = contract_says abi reply (HexToAddress (eth_codec_of node) (requested q)))) \<and>
    (\<forall>p \<in> set qs. \<forall>q \<in> set qs. \<forall>m n. answer_of p = Some (Inr m) \<longrightarrow> answer_of q = Some (Inr n) \<longrightarrow>
       ToLower (requested p) = ToLower (requested q) \<longrightarrow> content m = content n)"
proof -
  let ?A = "{a. token_text (eth_codec_of node) a}" and ?v = "metadata_view_of (d, e)" and ?v' = "metadata_view_of (d', e')"
  let ?truth = "\<lambda>k. contract_says abi reply (HexToAddress (eth_codec_of node) k)"
  have "pg_metadata.requests_ok ?A ?v ?truth ([], c, (d, e))"
    using start by (simp add: pg_metadata.requests_ok_def store_ok_start cache_coherent_iff [symmetric])
  then have "pg_metadata.requests_ok ?A ?v ?truth (metadata_requests (pg_service (on_env fetch) pool) es ([], c, (d, e)))"
    by (intro pg_metadata.metadata_requests_ok [OF steady_pg [OF fetcher steady]])
      (use elsewhere arrives in \<open>simp_all add: metadata_view_of_def\<close>)
  then have ok: "store_ok ?v ?truth ?v'" "cache_coherent c' d'"
    "\<forall>q \<in> set qs. requested q \<in> ?A \<and> request_ok ?v ?truth ?v' q"
    unfolding run by (simp_all add: pg_metadata.requests_ok_def cache_coherent_iff [symmetric])
  have stored: "?v' (ToLower (requested q)) = Some (content m)" if "q \<in> set qs" "answer_of q = Some (Inr m)" for q m
    using ok(3) that by (cases q) auto
  have fresh: "content m = ?truth (requested q)"
    if "q \<in> set qs" "answer_of q = Some (Inr m)" "?v (ToLower (requested q)) = None" for q m
  proof -
    from ok(1) stored [OF that(1,2)] that(3) have "content m = ?truth (ToLower (requested q))"
      unfolding store_ok_def by (metis option.distinct(1) option.inject)
    with token_text_read(2) [OF _ fetcher(2), of "requested q"] ok(3) that(1) show ?thesis by simp
  qed
  show ?thesis using stored fresh ok(2) store_ok_le [OF ok(1)] by (metis option.inject)
qed

text \<open>Two requests for one token in two spellings race past the cache and the store; both fetch, both
  save, while the indexer persists a block.\<close>

definition race_store :: "(bool rpc_world) PostgresBlockPersistence" where
  "race_store = NewPostgresBlockPersistence metadata_server ''ethereum_erc20''"

definition sample_race :: "(db \<times> bool rpc_world) metadata_event list" where
  "sample_race = [Arrives token_a, Arrives token_b, Moves 0, Moves 1,
     Elsewhere (\<lambda>w. snd (bp_SaveIndexedBlock race_store sample_index w)), Moves 1, Moves 0, Moves 0, Moves 1, Moves 1, Moves 0, Moves 0, Moves 1]"

lemma race_save: "bp_SaveIndexedBlock race_store sample_index (empty_db, s) =
   (Inr (), (\<lparr>checkpoints = [''ethereum_erc20'' \<mapsto> (7, ''h7'')],
      erc20_transfers = rows_of sample_index (ix_Transfers sample_index),
      indexed_blocks = [7 \<mapsto> (''h7'', ''h6'')], token_metadata = Map.empty\<rparr>, s))"
  by (simp add: pg_run_simps rows_of_def race_store_def metadata_server_def)

lemma sample_race_run:
  "\<exists>c d s. metadata_requests (pg_service (on_env token_fetch) metadata_server) sample_race
       ([], Map.empty, (empty_db, (sample_limiter 2, NewMetrics, False))) =
     ([Answered token_a (Inr (token_metadata_of token_a)), Answered token_b (Inr (token_metadata_of token_a))], c, (d, s))"
  by (simp add: sample_race_def race_save NewTokenMetadataService_def pg_LoadTokenMetadata_def pg_SaveTokenMetadata_def
      run_statement_def run_auto_def sql_select_metadata_def sql_upsert_metadata_def metadata_server_def on_env_def
      token_fetch_run cacheMetadata_def normalizeMetadataAddress_def token_addresses) (rule exI [of _ False], simp)

theorem concurrent_metadata_agree_witness:
  "\<exists>qs c d s. metadata_requests (pg_service (on_env token_fetch) metadata_server) sample_race
       ([], Map.empty, (empty_db, (sample_limiter 2, NewMetrics, False))) = (qs, c, (d, s)) \<and>
     map answer_of qs = [Some (Inr (token_metadata_of token_a)), Some (Inr (token_metadata_of token_a))] \<and> cache_coherent c d"
proof -
  from sample_race_run obtain c d s where run:
    "metadata_requests (pg_service (on_env token_fetch) metadata_server) sample_race
       ([], Map.empty, (empty_db, (sample_limiter 2, NewMetrics, False))) =
     ([Answered token_a (Inr (token_metadata_of token_a)), Answered token_b (Inr (token_metadata_of token_a))], c, (d, s))" by blast
  have elsewhere: "token_metadata (fst (f w)) = token_metadata (fst w)" if "Elsewhere f \<in> set sample_race" for f w
    using that oblivious_keeps [OF oblivious_indexer(2), of race_store sample_index w] by (auto simp: sample_race_def)
  have codec: "eth_codec_of token_node = hex_codec" by (simp add: token_node_def)
  have arrives: "token_text hex_codec a" if "Arrives a \<in> set sample_race" for a
    using that token_addresses(5,6) by (auto simp: sample_race_def)
  have start: "cache_coherent Map.empty empty_db" by (simp add: cache_coherent_def)
  have "cache_coherent c d"
    by (rule conjunct1 [OF concurrent_metadata_agree [OF token_fetcher _ token_node_steady _ _ start run]])
      (simp_all add: codec hex_codec_reads arrives elsewhere)
  with run show ?thesis by (cases s) simp
qed

text \<open>The node has to be steady: of two requests that fetched different answers, one may save last and the
  other write the cache last.\<close>

definition changing_fetch :: "Address \<Rightarrow> db \<times> nat \<Rightarrow> (go_error, TokenMetadata, db \<times> nat) outcome" where
  "changing_fetch a w = (Inr \<lparr>md_Address = a, md_Name = ''Token'', md_Symbol = (if snd w = 0 then ''OLD'' else ''NEW''),
     md_Decimals = 18\<rparr>, (fst w, Suc (snd w)))"

definition counting_server :: "nat postgres" where
  "counting_server = \<lparr>pg_begin = (\<lambda>e. (None, e)), pg_statement = (\<lambda>e. (None, e)), pg_commit = (\<lambda>e. (Committed, e))\<rparr>"

lemma unsteady_node_diverges:
  "case metadata_requests (pg_service changing_fetch counting_server)
     [Arrives ''0x1'', Arrives ''0x1'', Moves 0, Moves 1, Moves 0, Moves 1, Moves 0, Moves 1, Moves 0, Moves 1, Moves 1, Moves 0]
     ([], Map.empty, (empty_db, 0)) of (qs, c, (d, e)) \<Rightarrow> \<not> cache_coherent c d"
proof -
  have lower: "ToLower ''0x1'' = ''0x1''" by code_simp
  show ?thesis
    by (simp add: NewTokenMetadataService_def pg_LoadTokenMetadata_def pg_SaveTokenMetadata_def
      run_statement_def run_auto_def sql_select_metadata_def sql_upsert_metadata_def counting_server_def
      changing_fetch_def cacheMetadata_def normalizeMetadataAddress_def cache_coherent_def content_def empty_db_def lower)
qed

end
