(* ===== verification/Token_Amount.thy ===== *)
theory Token_Amount
  imports Prelude
begin

text \<open>
  \<^verbatim>\<open>FormatTokenAmount\<close> of \<^verbatim>\<open>internal/metadata/token_amount.go\<close>: the decimal text of a raw token value
  with a given number of decimals, and a reader of such texts to state its exactness against.
\<close>

section \<open>Formatting\<close>

definition TrimRightZeros :: "string \<Rightarrow> string" where
  "TrimRightZeros s = rev (dropWhile (\<lambda>c. c = CHR ''0'') (rev s))"

definition FormatTokenAmount :: "int option \<Rightarrow> u8 \<Rightarrow> string" where
  "FormatTokenAmount value decimals =
     (case value of
        None \<Rightarrow> ''0''
      | Some v \<Rightarrow>
          if decimals = 0 then show_int v
          else
            let negative = v < 0;
                absolute = \<bar>v\<bar>;
                digits0 = show_int absolute;
                decimalCount = unat decimals;
                digits = (if length digits0 \<le> decimalCount
                          then replicate (decimalCount - length digits0 + 1) (CHR ''0'') @ digits0 else digits0);
                split = length digits - decimalCount;
                whole = take split digits;
                fraction = TrimRightZeros (drop split digits);
                result = (if fraction \<noteq> [] then whole @ ''.'' @ fraction else whole)
            in if negative then ''-'' @ result else result)"

section \<open>Reading an amount back\<close>

definition read_amount :: "nat \<Rightarrow> string \<Rightarrow> int option" where
  "read_amount decimals s =
     (let negative = (take 1 s = ''-'');
          body = (if negative then drop 1 s else s);
          whole = takeWhile (\<lambda>c. c \<noteq> CHR ''.'') body;
          fraction = drop 1 (dropWhile (\<lambda>c. c \<noteq> CHR ''.'') body)
      in case (read_nat whole, read_digits 0 (fraction @ replicate (decimals - length fraction) (CHR ''0''))) of
           (Some w, Some f) \<Rightarrow> Some ((if negative then -1 else 1) * int (w * 10 ^ decimals + f))
         | _ \<Rightarrow> None)"

section \<open>Facts about digits\<close>

lemma digit_val_0 [simp]: "digit_val CHR ''0'' = Some 0"
  by code_simp

lemma read_digits_shift: "read_digits acc s = map_option (\<lambda>x. acc * 10 ^ length s + x) (read_digits 0 s)"
proof (induction s arbitrary: acc)
  case (Cons c cs)
  show ?case
  proof (cases "digit_val c")
    case (Some d)
    have "read_digits (10 * acc + d) cs = map_option (\<lambda>x. (10 * acc + d) * 10 ^ length cs + x) (read_digits 0 cs)"
      by (rule Cons.IH)
    moreover have "read_digits d cs = map_option (\<lambda>x. d * 10 ^ length cs + x) (read_digits 0 cs)" by (rule Cons.IH)
    ultimately show ?thesis using Some by (simp add: option.map_comp o_def algebra_simps)
  qed simp
qed simp

lemma read_digits_zeros: "read_digits 0 (replicate k (CHR ''0'') @ s) = read_digits 0 s"
  by (induction k) simp_all

lemma TrimRightZeros_pad: "s = TrimRightZeros s @ replicate (length s - length (TrimRightZeros s)) (CHR ''0'')"
proof -
  let ?z = "takeWhile (\<lambda>c. c = CHR ''0'') (rev s)"
  have z: "?z = replicate (length ?z) (CHR ''0'')"
    by (rule replicate_eqI) (auto dest: set_takeWhileD)
  have s: "s = TrimRightZeros s @ rev ?z"
    unfolding TrimRightZeros_def by (metis rev_append rev_rev_ident takeWhile_dropWhile_id)
  then have "length s - length (TrimRightZeros s) = length ?z" by (metis add_diff_cancel_left' length_append length_rev)
  moreover have "rev ?z = replicate (length ?z) (CHR ''0'')" by (subst z) simp
  ultimately show ?thesis using s by simp
qed

lemma TrimRightZeros_idem [simp]: "TrimRightZeros (TrimRightZeros s) = TrimRightZeros s"
  by (simp add: TrimRightZeros_def dropWhile_idem)

lemma TrimRightZeros_length: "length (TrimRightZeros s) \<le> length s"
  by (simp add: TrimRightZeros_def) (metis length_dropWhile_le length_rev)

lemma show_nat_take: "d < length (show_nat n) \<Longrightarrow> take (length (show_nat n) - d) (show_nat n) = show_nat (n div 10 ^ d)"
proof (induction d arbitrary: n)
  case (Suc d)
  from Suc.prems have "\<not> n < 10" by (auto simp: show_nat.simps [of n])
  then have n: "show_nat n = show_nat (n div 10) @ [digit_char (n mod 10)]" by (simp add: show_nat.simps [of n])
  with Suc.prems have "d < length (show_nat (n div 10))" by simp
  from Suc.IH [OF this] n show ?case by (simp add: div_mult2_eq)
qed simp

lemma show_nat_short: "length (show_nat n) \<le> d \<Longrightarrow> n < 10 ^ d"
  using read_digits_bound [OF read_digits_show_nat, of n]
  by (metis add.commute le_less_trans mult_1 not_less one_le_numeral plus_nat.add_0 power_increasing)

text \<open>The digits, padded so that at least one stands before the point.\<close>

definition padded :: "nat \<Rightarrow> nat \<Rightarrow> string" where
  "padded d n =
     (if length (show_nat n) \<le> d then replicate (d - length (show_nat n) + 1) (CHR ''0'') @ show_nat n
      else show_nat n)"

lemma padded_length: "d < length (padded d n)"
  by (simp add: padded_def)

lemma padded_digits: "\<forall>c \<in> set (padded d n). is_digit c"
  using show_nat_digits [of n] by (auto simp: padded_def)

lemma padded_value: "read_digits 0 (padded d n) = Some n"
  by (simp add: padded_def read_digits_zeros read_digits_show_nat)

lemma padded_whole: "take (length (padded d n) - d) (padded d n) = show_nat (n div 10 ^ d)"
proof (cases "length (show_nat n) \<le> d")
  case True
  then have "length (padded d n) - d = 1" by (simp add: padded_def)
  moreover have "take 1 (padded d n) = ''0''" using True by (simp add: padded_def)
  moreover have "show_nat (n div 10 ^ d) = ''0''"
    using show_nat_short [OF True] by (simp add: show_nat.simps [of 0] digit_char_0)
  ultimately show ?thesis by simp
next
  case False
  then show ?thesis using show_nat_take [of d n] by (simp add: padded_def)
qed

lemma FormatTokenAmount_parts:
  fixes v :: int
  assumes "decimals \<noteq> 0"
  defines "d \<equiv> unat decimals" and "n \<equiv> nat \<bar>v\<bar>"
  shows "FormatTokenAmount (Some v) decimals =
    (if v < 0 then ''-'' else []) @ show_nat (n div 10 ^ d) @
    (let fraction = TrimRightZeros (drop (length (padded d n) - d) (padded d n))
     in if fraction = [] then [] else ''.'' @ fraction)"
proof -
  have abs: "show_int \<bar>v\<bar> = show_nat n" by (simp add: show_int_def n_def)
  show ?thesis
    unfolding FormatTokenAmount_def option.case Let_def abs d_def padded_def [symmetric] padded_whole
    using assms(1) by simp
qed

section \<open>Properties\<close>

lemma read_amount_parts:
  assumes "\<forall>c \<in> set whole. is_digit c" "whole \<noteq> []" "read_digits 0 whole = Some w"
    and "read_digits 0 (fraction @ replicate (d - length fraction) (CHR ''0'')) = Some f"
  shows "read_amount d ((if neg then ''-'' else []) @ whole @ (if fraction = [] then [] else ''.'' @ fraction)) =
    Some ((if neg then -1 else 1) * int (w * 10 ^ d + f))"
proof -
  let ?body = "whole @ (if fraction = [] then [] else ''.'' @ fraction)"
  have dot: "\<forall>c \<in> set whole. c \<noteq> CHR ''.''" using assms(1) not_digit_signs(3) by metis
  then have "takeWhile (\<lambda>c. c \<noteq> CHR ''.'') ?body = whole" by (simp add: takeWhile_append2)
  moreover have "drop 1 (dropWhile (\<lambda>c. c \<noteq> CHR ''.'') ?body) = fraction" using dot by (simp add: dropWhile_append2)
  moreover obtain c cs where c: "whole = c # cs" using assms(2) by (cases whole) auto
  then have "c \<noteq> CHR ''-''" using assms(1) not_digit_signs(1) by auto
  then have "take 1 ?body \<noteq> ''-''" using c by simp
  ultimately show ?thesis
    using assms(2-4) by (cases neg) (simp_all add: read_amount_def read_nat_def Let_def)
qed

text \<open>
  C24. Formatting is exact: reading the text back with the same number of decimals gives the raw
  value, for every value and every number of decimals; so no two values share a text.
\<close>
theorem FormatTokenAmount_exact:
  "read_amount (unat decimals) (FormatTokenAmount (Some v) decimals) = Some v"
proof -
  let ?d = "unat decimals" and ?n = "nat \<bar>v\<bar>"
  have sign: "(if v < 0 then -1 else 1) * int ?n = v" by simp
  show ?thesis
  proof (cases "decimals = 0")
    case True
    have "read_amount 0 ((if v < 0 then ''-'' else []) @ show_nat ?n @ (if [] = ([] :: string) then [] else ''.'' @ [])) =
        Some ((if v < 0 then -1 else 1) * int (?n * 10 ^ 0 + 0))"
      by (rule read_amount_parts) (simp_all add: show_nat_digits read_digits_show_nat)
    with True sign show ?thesis by (cases "v < 0") (simp_all add: FormatTokenAmount_def show_int_def)
  next
    case False
    let ?fr = "drop (length (padded ?d ?n) - ?d) (padded ?d ?n)"
    let ?fraction = "TrimRightZeros ?fr"
    have len: "length ?fr = ?d" using padded_length [of ?d ?n] by simp
    have eq: "padded ?d ?n = show_nat (?n div 10 ^ ?d) @ ?fr"
      using padded_whole [of ?d ?n] append_take_drop_id [of "length (padded ?d ?n) - ?d" "padded ?d ?n"] by simp
    have "read_digits 0 (show_nat (?n div 10 ^ ?d) @ ?fr) = Some ?n" by (simp only: eq [symmetric] padded_value)
    then have "read_digits (?n div 10 ^ ?d) ?fr = Some ?n" by (simp add: read_digits_append read_digits_show_nat)
    then have "map_option (\<lambda>x. (?n div 10 ^ ?d) * 10 ^ length ?fr + x) (read_digits 0 ?fr) = Some ?n"
      by (simp only: read_digits_shift [of "?n div 10 ^ ?d" ?fr])
    then obtain f where f: "read_digits 0 ?fr = Some f" "(?n div 10 ^ ?d) * 10 ^ ?d + f = ?n"
      unfolding map_option_eq_Some len by blast
    have pad: "?fraction @ replicate (?d - length ?fraction) (CHR ''0'') = ?fr"
      using TrimRightZeros_pad [of ?fr] unfolding len by (rule sym)
    have "read_digits 0 (?fraction @ replicate (?d - length ?fraction) (CHR ''0'')) = Some f"
      unfolding pad by (rule f(1))
    note parts = read_amount_parts [OF show_nat_digits show_nat_nonempty read_digits_show_nat this]
    show ?thesis unfolding FormatTokenAmount_parts [OF False] Let_def parts f(2) sign by (rule refl)
  qed
qed

text \<open>
  The text is canonical: a sign for negative values only, the whole part without leading
  zeros, and a fraction of at most the given number of digits without trailing zeros, whose
  point is left out when it is empty.
\<close>
lemma FormatTokenAmount_canonical:
  "\<exists>fraction. FormatTokenAmount (Some v) decimals =
      (if v < 0 then ''-'' else []) @ show_nat (nat \<bar>v\<bar> div 10 ^ unat decimals) @
      (if fraction = [] then [] else ''.'' @ fraction) \<and>
    length fraction \<le> unat decimals \<and> TrimRightZeros fraction = fraction \<and> list_all is_digit fraction"
proof (cases "decimals = 0")
  case True
  then show ?thesis
    by (intro exI [of _ "[]"], cases "v < 0") (simp_all add: FormatTokenAmount_def show_int_def TrimRightZeros_def)
next
  case False
  let ?d = "unat decimals" and ?n = "nat \<bar>v\<bar>"
  let ?fr = "drop (length (padded ?d ?n) - ?d) (padded ?d ?n)"
  have "length ?fr = ?d" using padded_length [of ?d ?n] by simp
  moreover have "set (TrimRightZeros ?fr) \<subseteq> set (padded ?d ?n)"
    by (auto simp: TrimRightZeros_def dest!: set_dropWhileD in_set_dropD)
  ultimately show ?thesis
    unfolding FormatTokenAmount_parts [OF False] Let_def
    using TrimRightZeros_length [of ?fr] padded_digits [of ?d ?n]
    by (intro exI [of _ "TrimRightZeros ?fr"]) (auto simp: list_all_iff)
qed

end
