(* ===== verification/Http_Api.thy ===== *)
theory Http_Api
  imports Http_Observability Token_Amount
begin

text \<open>
  The HTTP API of \<^verbatim>\<open>internal/api\<close>: \<^verbatim>\<open>public_error.go\<close>, \<^verbatim>\<open>api_transfer.go\<close> and \<^verbatim>\<open>http_server.go\<close>. The
  transfer reader and the metadata provider are the interfaces of \<^verbatim>\<open>transfer_reader.go\<close>: operations on the
  world that return, fail or panic. The two functions of go-ethereum that normalise an address are
  parameters. Request paths are taken as \<^verbatim>\<open>net/http\<close> hands them over, already cleaned.
\<close>

section \<open>Errors and payloads\<close>

definition NewBadInputError :: "string \<Rightarrow> go_error \<Rightarrow> go_error" where
  "NewBadInputError message cause =
     PublicError 400 message (NewDomainError (Some (Sentinel ErrBadInput)) ''validate API input'' (Some cause))"

record APITokenMetadata =
  am_Name :: string
  am_Symbol :: string
  am_Decimals :: u8

record APITransfer =
  at_BlockNumber :: u64
  at_BlockHash :: string
  at_TransactionHash :: string
  at_LogIndex :: u64
  at_Token :: string
  at_From :: string
  at_To :: string
  at_Value :: string
  at_FormattedValue :: "string option"
  at_TokenMetadata :: "APITokenMetadata option"

definition apiTransferFromStored :: "StoredERC20Transfer \<Rightarrow> APITransfer" where
  "apiTransferFromStored transfer =
     \<lparr>at_BlockNumber = st_BlockNumber transfer, at_BlockHash = st_BlockHash transfer,
      at_TransactionHash = st_TransactionHash transfer, at_LogIndex = st_LogIndex transfer, at_Token = st_Token transfer,
      at_From = st_From transfer, at_To = st_To transfer,
      at_Value = (case st_Value transfer of None \<Rightarrow> ''0'' | Some v \<Rightarrow> show_int v),
      at_FormattedValue = None, at_TokenMetadata = None\<rparr>"

definition enrichAPITransferWithMetadata :: "APITransfer \<Rightarrow> StoredERC20Transfer \<Rightarrow> TokenMetadata \<Rightarrow> APITransfer" where
  "enrichAPITransferWithMetadata apiTransfer transfer tokenMetadata =
     apiTransfer\<lparr>at_FormattedValue := Some (FormatTokenAmount (st_Value transfer) (md_Decimals tokenMetadata)),
       at_TokenMetadata := Some \<lparr>am_Name = md_Name tokenMetadata, am_Symbol = md_Symbol tokenMetadata,
         am_Decimals = md_Decimals tokenMetadata\<rparr>\<rparr>"

text \<open>\<^verbatim>\<open>json.Marshal\<close> of the payload structs by their tags; \<^verbatim>\<open>omitempty\<close> drops a nil pointer.\<close>

definition metadata_json :: "APITokenMetadata \<Rightarrow> json" where
  "metadata_json m = JObject [(''name'', JString (am_Name m)), (''symbol'', JString (am_Symbol m)),
     (''decimals'', JNumber (show_nat (unat (am_Decimals m))))]"

definition transfer_json :: "APITransfer \<Rightarrow> json" where
  "transfer_json t =
     JObject ([(''blockNumber'', JNumber (show_u64 (at_BlockNumber t))), (''blockHash'', JString (at_BlockHash t)),
        (''transactionHash'', JString (at_TransactionHash t)), (''logIndex'', JNumber (show_u64 (at_LogIndex t))),
        (''token'', JString (at_Token t)), (''from'', JString (at_From t)), (''to'', JString (at_To t)),
        (''value'', JString (at_Value t))] @
       (case at_FormattedValue t of None \<Rightarrow> [] | Some f \<Rightarrow> [(''formattedValue'', JString f)]) @
       (case at_TokenMetadata t of None \<Rightarrow> [] | Some m \<Rightarrow> [(''tokenMetadata'', metadata_json m)]))"

record APIPagination =
  ap_Limit :: int
  ap_HasMore :: bool
  ap_NextCursor :: "string option"

record APITransferPage =
  tp_Data :: "APITransfer list"
  tp_Pagination :: APIPagination

definition page_json :: "APITransferPage \<Rightarrow> json" where
  "page_json p =
     JObject [(''data'', JArray (map transfer_json (tp_Data p))),
       (''pagination'', JObject [(''limit'', JNumber (show_int (ap_Limit (tp_Pagination p)))),
          (''hasMore'', JBool (ap_HasMore (tp_Pagination p))),
          (''nextCursor'', (case ap_NextCursor (tp_Pagination p) of None \<Rightarrow> JNull | Some c \<Rightarrow> JString c))])]"

section \<open>Query parsing\<close>

record address_codec =
  ac_IsHexAddress :: "string \<Rightarrow> bool"
  ac_Canonical :: "string \<Rightarrow> string"

text \<open>\<^verbatim>\<open>url.Values.Get\<close>\<close>

definition values_Get :: "request \<Rightarrow> string \<Rightarrow> string" where
  "values_Get r key = (case rq_Query r key of [] \<Rightarrow> [] | v # _ \<Rightarrow> v)"

definition parse_block :: "string \<Rightarrow> TransferQuery \<Rightarrow> go_error + TransferQuery" where
  "parse_block rawBlock q =
     (if rawBlock = [] then Inr q
      else case strconv_ParseUint64 rawBlock of
        Inl err \<Rightarrow> Inl (NewBadInputError ''invalid block'' err)
      | Inr blockNumber \<Rightarrow> Inr (q\<lparr>q_BlockNumber := Some blockNumber\<rparr>))"

definition parse_token :: "address_codec \<Rightarrow> string \<Rightarrow> TransferQuery \<Rightarrow> go_error + TransferQuery" where
  "parse_token codec rawToken q =
     (if rawToken = [] then Inr q
      else if \<not> ac_IsHexAddress codec rawToken then
        Inl (NewBadInputError ''invalid token address'' (Sentinel ErrInvalidTokenAddress))
      else Inr (q\<lparr>q_Token := Some (ac_Canonical codec rawToken)\<rparr>))"

definition parse_address :: "address_codec \<Rightarrow> string \<Rightarrow> TransferQuery \<Rightarrow> go_error + TransferQuery" where
  "parse_address codec rawAddress q =
     (if rawAddress = [] then Inr q
      else if \<not> ac_IsHexAddress codec rawAddress then
        Inl (NewBadInputError ''invalid transfer address'' (Sentinel ErrInvalidTokenAddress))
      else Inr (q\<lparr>q_Address := Some (ac_Canonical codec rawAddress)\<rparr>))"

definition parse_limit :: "string \<Rightarrow> TransferQuery \<Rightarrow> go_error + TransferQuery" where
  "parse_limit rawLimit q =
     (if rawLimit = [] then Inr q
      else case strconv_Atoi rawLimit of
        Inl err \<Rightarrow> Inl (NewBadInputError ''invalid limit'' (Anonymous ''limit must be a positive integer''))
      | Inr limit \<Rightarrow>
          if limit \<le> 0 then Inl (NewBadInputError ''invalid limit'' (Anonymous ''limit must be a positive integer''))
          else if 1000 < limit then Inl (NewBadInputError ''limit cannot exceed 1000'' (Anonymous ''limit exceeds maximum''))
          else Inr (q\<lparr>q_Limit := limit\<rparr>))"

definition parse_cursor :: "string \<Rightarrow> TransferQuery \<Rightarrow> go_error + TransferQuery" where
  "parse_cursor rawCursor q =
     (if rawCursor = [] then Inr q
      else case DecodeTransferCursor rawCursor of
        Inl err \<Rightarrow> Inl (NewBadInputError ''invalid transfer cursor'' err)
      | Inr cursor \<Rightarrow> Inr (q\<lparr>q_Cursor := Some cursor\<rparr>))"

definition and_then :: "'e + 'a \<Rightarrow> ('a \<Rightarrow> 'e + 'b) \<Rightarrow> 'e + 'b" where
  "and_then r f = (case r of Inl e \<Rightarrow> Inl e | Inr x \<Rightarrow> f x)"

definition parseTransferQuery :: "address_codec \<Rightarrow> request \<Rightarrow> go_error + TransferQuery" where
  "parseTransferQuery codec r =
     (let query = \<lparr>q_BlockNumber = None, q_Token = None, q_Address = None, q_Limit = 100, q_Cursor = None\<rparr>
      in and_then (and_then (and_then (and_then
           (parse_block (values_Get r ''block'') query)
           (parse_token codec (values_Get r ''token'')))
           (parse_address codec (values_Get r ''address'')))
           (parse_limit (values_Get r ''limit'')))
           (parse_cursor (values_Get r ''cursor'')))"

section \<open>Handlers\<close>

text \<open>A call of a collaborator returns its result or panics.\<close>

datatype 'a called = Returned "go_error + 'a" | Panicked string

record 'w HTTPServer =
  srv_transferReader :: "TransferQuery \<Rightarrow> 'w \<Rightarrow> TransferPage called \<times> 'w"
  srv_tokenMetadataProvider :: "(Address \<Rightarrow> 'w \<Rightarrow> TokenMetadata called \<times> 'w) option"
  srv_codec :: address_codec

definition as_PublicError :: "go_error \<Rightarrow> (int \<times> string) option" where
  "as_PublicError e = (case e of PublicError status message _ \<Rightarrow> Some (status, message) | _ \<Rightarrow> None)"

text \<open>Status, code and message of the answer to an error.\<close>

definition error_answer :: "go_error \<Rightarrow> int \<times> string \<times> string" where
  "error_answer err =
     (case errors_as as_PublicError err of
        Some (status, message) \<Rightarrow> (status, if status = 400 then ''bad_request'' else ''internal_error'', message)
      | None \<Rightarrow>
          if errors_is err ErrNotFound then (404, ''not_found'', ''resource not found'')
          else if errors_is err ErrTemporaryDependency then (503, ''service_unavailable'', ''service temporarily unavailable'')
          else (500, ''internal_error'', ''internal server error''))"

definition writeHTTPError :: "request \<Rightarrow> go_error \<Rightarrow> statusRecorder \<Rightarrow> statusRecorder" where
  "writeHTTPError r err w = (case error_answer err of (status, code, message) \<Rightarrow> writeAPIError r status code message w)"

definition writeMethodNotAllowed :: "request \<Rightarrow> statusRecorder \<Rightarrow> statusRecorder" where
  "writeMethodNotAllowed r w =
     writeAPIError r 405 ''method_not_allowed'' ''method not allowed'' (sr_Header_Set ''Allow'' ''GET'' w)"

definition handleHealth :: "(statusRecorder, 'w) handler" where
  "handleHealth r s =
     (case s of (w, m, e) \<Rightarrow>
        if rq_Method r \<noteq> ''GET'' then (None, (writeMethodNotAllowed r w, m, e))
        else (None, (writeJSON 200 (JObject [(''status'', JString ''ok'')]) w, m, e)))"

definition handleMetrics :: "(statusRecorder, 'w) handler" where
  "handleMetrics r s =
     (case s of (w, m, e) \<Rightarrow>
        if rq_Method r \<noteq> ''GET'' then (None, (writeMethodNotAllowed r w, m, e))
        else
          (None, (snd (WritePrometheus m (\<lambda>t v. (None, sr_Write (TextPart t) v))
                    (sr_Header_Set ''Content-Type'' ''text/plain; version=0.0.4; charset=utf-8'' w)), m, e)))"

text \<open>The loop over the page: a transfer whose metadata is unavailable is counted and left as it is.\<close>

fun enrich_transfers :: "(Address \<Rightarrow> 'w \<Rightarrow> TokenMetadata called \<times> 'w) option \<Rightarrow> StoredERC20Transfer list \<Rightarrow> APITransfer list \<Rightarrow>
    Metrics \<times> 'w \<Rightarrow> (string + APITransfer list) \<times> Metrics \<times> 'w" where
  "enrich_transfers provider [] data s = (Inr data, s)"
| "enrich_transfers provider (transfer # transfers) data (m, w) =
     (let apiTransfer = apiTransferFromStored transfer in
      case provider of
        None \<Rightarrow> enrich_transfers provider transfers (data @ [apiTransfer]) (m, w)
      | Some lookup \<Rightarrow>
          (case lookup (st_Token transfer) w of
             (Panicked p, w1) \<Rightarrow> (Inl p, (m, w1))
           | (Returned (Inl err), w1) \<Rightarrow>
               enrich_transfers provider transfers (data @ [apiTransfer]) (RecordTokenMetadataError m, w1)
           | (Returned (Inr metadata), w1) \<Rightarrow>
               enrich_transfers provider transfers
                 (data @ [enrichAPITransferWithMetadata apiTransfer transfer metadata]) (m, w1)))"

definition handleTransfers :: "'w HTTPServer \<Rightarrow> (statusRecorder, 'w) handler" where
  "handleTransfers srv r s =
     (case s of (w, m, e) \<Rightarrow>
        if rq_Method r \<noteq> ''GET'' then (None, (writeMethodNotAllowed r w, m, e))
        else
          (case parseTransferQuery (srv_codec srv) r of
             Inl err \<Rightarrow> (None, (writeHTTPError r err w, m, e))
           | Inr query \<Rightarrow>
               (case srv_transferReader srv query e of
                  (Panicked p, e1) \<Rightarrow> (Some p, (w, m, e1))
                | (Returned (Inl err), e1) \<Rightarrow> (None, (writeHTTPError r err w, m, e1))
                | (Returned (Inr page), e1) \<Rightarrow>
                    (case enrich_transfers (srv_tokenMetadataProvider srv) (pg_Transfers page) [] (m, e1) of
                       (Inl p, (m2, e2)) \<Rightarrow> (Some p, (w, m2, e2))
                     | (Inr data, (m2, e2)) \<Rightarrow>
                         (case (case pg_NextCursor page of
                                  None \<Rightarrow> Inr None
                                | Some cursor \<Rightarrow> (case EncodeTransferCursor cursor of Inl err \<Rightarrow> Inl err | Inr c \<Rightarrow> Inr (Some c))) of
                            Inl err \<Rightarrow> (None, (writeHTTPError r err w, m2, e2))
                          | Inr nextCursor \<Rightarrow>
                              (None, (writeJSON 200
                                 (page_json \<lparr>tp_Data = data, tp_Pagination =
                                    \<lparr>ap_Limit = q_Limit query, ap_HasMore = (pg_NextCursor page \<noteq> None),
                                     ap_NextCursor = nextCursor\<rparr>\<rparr>) w, m2, e2)))))))"

text \<open>The three routes; the multiplexer answers every other path itself.\<close>

definition serve_mux :: "'w HTTPServer \<Rightarrow> (statusRecorder, 'w) handler" where
  "serve_mux srv r s =
     (if rq_Path r = ''/health'' then handleHealth r s
      else if rq_Path r = ''/transfers'' then handleTransfers srv r s
      else if rq_Path r = ''/metrics'' then handleMetrics r s
      else
        (case s of (w, m, e) \<Rightarrow>
           (None, (sr_Write (TextPart (''404 page not found'' @ newline))
              (sr_WriteHeader 404 (sr_Header_Set ''X-Content-Type-Options'' ''nosniff''
                (sr_Header_Set ''Content-Type'' ''text/plain; charset=utf-8'' w))), m, e))))"

text \<open>\<^verbatim>\<open>NewProfilingHandler\<close> of \<^verbatim>\<open>internal/observability/profiling.go\<close>: which handler of \<^verbatim>\<open>net/http/pprof\<close> serves a
  path. The first pattern names a subtree, the others single paths; for the rest the multiplexer
  answers itself.\<close>

record 'h pprof_handlers =
  pprof_Index :: 'h
  pprof_Cmdline :: 'h
  pprof_Profile :: 'h
  pprof_Symbol :: 'h
  pprof_Trace :: 'h

definition NewProfilingHandler :: "'h pprof_handlers \<Rightarrow> string \<Rightarrow> 'h option" where
  "NewProfilingHandler pprof path =
     (if path = ''/debug/pprof/cmdline'' then Some (pprof_Cmdline pprof)
      else if path = ''/debug/pprof/profile'' then Some (pprof_Profile pprof)
      else if path = ''/debug/pprof/symbol'' then Some (pprof_Symbol pprof)
      else if path = ''/debug/pprof/trace'' then Some (pprof_Trace pprof)
      else if take (length ''/debug/pprof/'') path = ''/debug/pprof/'' then Some (pprof_Index pprof)
      else None)"

definition http_Handler :: "'w http_env \<Rightarrow> 'w HTTPServer \<Rightarrow> request \<Rightarrow> u64 \<Rightarrow> response \<times> Metrics \<times> 'w \<Rightarrow>
    string option \<times> u64 \<times> response \<times> Metrics \<times> 'w" where
  "http_Handler env srv =
     requestIDMiddleware env (observabilityMiddleware env (recoveryMiddleware (serve_mux srv)))"

text \<open>The constructors; logging goes nowhere when no logger is given.\<close>

definition NewHTTPServerWithObservability :: "(TransferQuery \<Rightarrow> 'w \<Rightarrow> TransferPage called \<times> 'w) \<Rightarrow>
    (Address \<Rightarrow> 'w \<Rightarrow> TokenMetadata called \<times> 'w) option \<Rightarrow> address_codec \<Rightarrow> Metrics option \<Rightarrow> 'w HTTPServer \<times> Metrics" where
  "NewHTTPServerWithObservability transferReader tokenMetadataProvider codec metrics =
     (\<lparr>srv_transferReader = transferReader, srv_tokenMetadataProvider = tokenMetadataProvider, srv_codec = codec\<rparr>,
      case metrics of None \<Rightarrow> NewMetrics | Some m \<Rightarrow> m)"

definition NewHTTPServer :: "(TransferQuery \<Rightarrow> 'w \<Rightarrow> TransferPage called \<times> 'w) \<Rightarrow>
    (Address \<Rightarrow> 'w \<Rightarrow> TokenMetadata called \<times> 'w) option \<Rightarrow> address_codec \<Rightarrow> 'w HTTPServer \<times> Metrics" where
  "NewHTTPServer transferReader tokenMetadataProvider codec =
     NewHTTPServerWithObservability transferReader tokenMetadataProvider codec (Some NewMetrics)"

text \<open>The public server serves none of the profiling paths: it answers them with 404.\<close>

lemma profiling_not_public:
  assumes "NewProfilingHandler pprof (rq_Path r) = Some h"
  shows "\<exists>w'. serve_mux srv r (w, m, e) = (None, (w', m, e)) \<and>
    (\<not> sr_wroteResponse w \<longrightarrow> sr_status w' = 404)"
proof -
  have "rq_Path r \<noteq> ''/health''" "rq_Path r \<noteq> ''/transfers''" "rq_Path r \<noteq> ''/metrics''"
    using assms by (auto simp: NewProfilingHandler_def)
  then show ?thesis by (simp add: serve_mux_def sr_Write_def sr_WriteHeader_def sr_Header_Set_def Let_def)
qed

section \<open>Query parsing is sound\<close>

lemma and_then_Inr: "and_then r f = Inr y \<longleftrightarrow> (\<exists>x. r = Inr x \<and> f x = Inr y)"
  by (cases r) (auto simp: and_then_def)

lemma and_then_Inl: "and_then r f = Inl e \<longleftrightarrow> r = Inl e \<or> (\<exists>x. r = Inr x \<and> f x = Inl e)"
  by (cases r) (auto simp: and_then_def)

lemmas parse_defs = parse_block_def parse_token_def parse_address_def parse_limit_def parse_cursor_def

definition input_messages :: "string list" where
  "input_messages = [''invalid block'', ''invalid token address'', ''invalid transfer address'', ''invalid limit'',
     ''limit cannot exceed 1000'', ''invalid transfer cursor'']"

definition bad_input :: "go_error \<Rightarrow> bool" where
  "bad_input e \<longleftrightarrow> (\<exists>message cause. message \<in> set input_messages \<and> e = NewBadInputError message cause)"

lemma bad_inputI: "message \<in> set input_messages \<Longrightarrow> bad_input (NewBadInputError message cause)"
  by (auto simp: bad_input_def)

lemma parse_error:
  "parse_block s q = Inl e \<Longrightarrow> bad_input e" "parse_token codec s q = Inl e \<Longrightarrow> bad_input e"
  "parse_address codec s q = Inl e \<Longrightarrow> bad_input e" "parse_limit s q = Inl e \<Longrightarrow> bad_input e"
  "parse_cursor s q = Inl e \<Longrightarrow> bad_input e"
  by (auto simp: parse_defs input_messages_def split: if_splits sum.splits intro!: bad_inputI)

lemma parseTransferQuery_error: "parseTransferQuery codec r = Inl e \<Longrightarrow> bad_input e"
  by (auto simp: parseTransferQuery_def Let_def and_then_Inl dest: parse_error)

text \<open>What a parsed query looks like.\<close>

definition query_ok :: "address_codec \<Rightarrow> request \<Rightarrow> TransferQuery \<Rightarrow> bool" where
  "query_ok codec r q \<longleftrightarrow>
     1 \<le> q_Limit q \<and> q_Limit q \<le> 1000 \<and>
     (if values_Get r ''limit'' = [] then q_Limit q = 100 else strconv_Atoi (values_Get r ''limit'') = Inr (q_Limit q)) \<and>
     (q_BlockNumber q = None \<longleftrightarrow> values_Get r ''block'' = []) \<and>
     (\<forall>n. q_BlockNumber q = Some n \<longrightarrow> strconv_ParseUint64 (values_Get r ''block'') = Inr n) \<and>
     q_Token q = (if values_Get r ''token'' = [] then None else Some (ac_Canonical codec (values_Get r ''token''))) \<and>
     q_Address q = (if values_Get r ''address'' = [] then None else Some (ac_Canonical codec (values_Get r ''address''))) \<and>
     (values_Get r ''token'' \<noteq> [] \<longrightarrow> ac_IsHexAddress codec (values_Get r ''token'')) \<and>
     (values_Get r ''address'' \<noteq> [] \<longrightarrow> ac_IsHexAddress codec (values_Get r ''address'')) \<and>
     (q_Cursor q = None \<longleftrightarrow> values_Get r ''cursor'' = []) \<and>
     (\<forall>c. q_Cursor q = Some c \<longrightarrow> DecodeTransferCursor (values_Get r ''cursor'') = Inr c)"

lemma parse_block_Inr: "parse_block s q = Inr q' \<Longrightarrow> \<exists>b. q' = q\<lparr>q_BlockNumber := b\<rparr> \<and>
    (if s = [] then b = q_BlockNumber q else \<exists>n. b = Some n \<and> strconv_ParseUint64 s = Inr n)"
  by (cases q) (auto simp: parse_block_def split: if_splits sum.splits)

lemma parse_token_Inr: "parse_token codec s q = Inr q' \<Longrightarrow>
    q' = q\<lparr>q_Token := (if s = [] then q_Token q else Some (ac_Canonical codec s))\<rparr> \<and> (s \<noteq> [] \<longrightarrow> ac_IsHexAddress codec s)"
  by (cases q) (auto simp: parse_token_def split: if_splits)

lemma parse_address_Inr: "parse_address codec s q = Inr q' \<Longrightarrow>
    q' = q\<lparr>q_Address := (if s = [] then q_Address q else Some (ac_Canonical codec s))\<rparr> \<and> (s \<noteq> [] \<longrightarrow> ac_IsHexAddress codec s)"
  by (cases q) (auto simp: parse_address_def split: if_splits)

lemma parse_limit_Inr: "parse_limit s q = Inr q' \<Longrightarrow> \<exists>l. q' = q\<lparr>q_Limit := l\<rparr> \<and>
    (if s = [] then l = q_Limit q else strconv_Atoi s = Inr l \<and> 1 \<le> l \<and> l \<le> 1000)"
  by (cases q) (auto simp: parse_limit_def split: if_splits sum.splits)

lemma parse_cursor_Inr: "parse_cursor s q = Inr q' \<Longrightarrow> \<exists>c. q' = q\<lparr>q_Cursor := c\<rparr> \<and>
    (if s = [] then c = q_Cursor q else \<exists>x. c = Some x \<and> DecodeTransferCursor s = Inr x)"
  by (cases q) (auto simp: parse_cursor_def split: if_splits sum.splits)

lemma parseTransferQuery_ok:
  assumes "parseTransferQuery codec r = Inr q"
  shows "query_ok codec r q"
proof -
  let ?q0 = "\<lparr>q_BlockNumber = None, q_Token = None, q_Address = None, q_Limit = 100, q_Cursor = None\<rparr>"
  from assms obtain q1 q2 q3 q4 where steps: "parse_block (values_Get r ''block'') ?q0 = Inr q1"
    "parse_token codec (values_Get r ''token'') q1 = Inr q2" "parse_address codec (values_Get r ''address'') q2 = Inr q3"
    "parse_limit (values_Get r ''limit'') q3 = Inr q4" "parse_cursor (values_Get r ''cursor'') q4 = Inr q"
    by (auto simp only: parseTransferQuery_def Let_def and_then_Inr)
  from parse_block_Inr [OF steps(1)] obtain b where b: "q1 = ?q0\<lparr>q_BlockNumber := b\<rparr>"
    "if values_Get r ''block'' = [] then b = None else \<exists>n. b = Some n \<and> strconv_ParseUint64 (values_Get r ''block'') = Inr n" by auto
  from parse_limit_Inr [OF steps(4)] obtain l where l: "q4 = q3\<lparr>q_Limit := l\<rparr>"
    "if values_Get r ''limit'' = [] then l = q_Limit q3 else strconv_Atoi (values_Get r ''limit'') = Inr l \<and> 1 \<le> l \<and> l \<le> 1000" by blast
  from parse_cursor_Inr [OF steps(5)] obtain c where c: "q = q4\<lparr>q_Cursor := c\<rparr>"
    "if values_Get r ''cursor'' = [] then c = q_Cursor q4 else \<exists>x. c = Some x \<and> DecodeTransferCursor (values_Get r ''cursor'') = Inr x" by blast
  note t = parse_token_Inr [OF steps(2)] parse_address_Inr [OF steps(3)]
  show ?thesis
    using b(2) l(2) c(2) t unfolding c(1) l(1) query_ok_def
    by (simp add: b(1) split: if_splits)
qed

text \<open>
  C32. A transfer query that is accepted is well-formed: the limit is the one given (100 when
  none is) and lies between 1 and 1000, filters are set exactly when they were given, addresses are valid and in canonical form, the block and the cursor
  are what the text says. Anything else is refused as bad input, with status 400 and one of six fixed
  messages.
\<close>
theorem parseTransferQuery_well_formed:
  "case parseTransferQuery codec r of
     Inr q \<Rightarrow> query_ok codec r q
   | Inl e \<Rightarrow> bad_input e \<and> errors_is e ErrBadInput \<and> fst (error_answer e) = 400"
proof (cases "parseTransferQuery codec r")
  case (Inl e)
  from parseTransferQuery_error [OF this] show ?thesis using Inl
    by (auto simp: bad_input_def NewBadInputError_def NewDomainError_def error_answer_def errors_as.simps as_PublicError_def)
next
  case (Inr q)
  with parseTransferQuery_ok [OF Inr] show ?thesis by simp
qed


section \<open>Every request is answered once\<close>

text \<open>A recorder that has sent nothing, and what one answer makes of it: a status, headers that keep the
  request identifier, one body.\<close>

definition fresh :: "statusRecorder \<Rightarrow> bool" where
  "fresh w \<longleftrightarrow> \<not> sr_wroteResponse w \<and> rs_status (sr_ResponseWriter w) = None \<and> rs_body (sr_ResponseWriter w) = []"

definition answered_once :: "statusRecorder \<Rightarrow> int \<Rightarrow> body_part \<Rightarrow> statusRecorder \<Rightarrow> bool" where
  "answered_once w status part w' \<longleftrightarrow>
     sr_status w' = status \<and> sr_wroteResponse w' \<and> rs_status (sr_ResponseWriter w') = Some status \<and>
     rs_body (sr_ResponseWriter w') = [part] \<and>
     rs_header (sr_ResponseWriter w') ''X-Request-ID'' = rs_header (sr_ResponseWriter w) ''X-Request-ID''"

lemmas recorder_defs = sr_Write_def sr_WriteHeader_def sr_Header_Set_def rw_Write_def rw_WriteHeader_def rw_SetHeader_def Let_def

lemma writeJSON_answered: "fresh w \<Longrightarrow> answered_once w status (JSONPart v) (writeJSON status v w)"
  by (simp add: fresh_def answered_once_def writeJSON_def recorder_defs)

lemma writeAPIError_answered:
  "fresh w \<Longrightarrow> answered_once w status (JSONPart (api_error_json code message (requestIDFromContext r))) (writeAPIError r status code message w)"
  by (simp add: writeAPIError_def writeJSON_answered)

lemma writeMethodNotAllowed_answered:
  "fresh w \<Longrightarrow> answered_once w 405 (JSONPart (api_error_json ''method_not_allowed'' ''method not allowed'' (requestIDFromContext r)))
     (writeMethodNotAllowed r w)"
  by (simp add: fresh_def answered_once_def writeMethodNotAllowed_def writeAPIError_def writeJSON_def recorder_defs)

lemma writeHTTPError_answered:
  assumes "fresh w" "error_answer err = (status, code, message)"
  shows "answered_once w status (JSONPart (api_error_json code message (requestIDFromContext r))) (writeHTTPError r err w)"
  using writeAPIError_answered [OF assms(1)] assms(2) by (simp add: writeHTTPError_def)

text \<open>The handlers change no counter but the one of metadata errors.\<close>

definition same_http :: "Metrics \<Rightarrow> Metrics \<Rightarrow> bool" where
  "same_http m m' \<longleftrightarrow> (\<exists>n. m' = m\<lparr>tokenMetadataErrors := n\<rparr>)"

lemma same_http_refl [simp]: "same_http m m"
  by (auto simp: same_http_def intro: exI [of _ "tokenMetadataErrors m"])

lemma same_http_trans: "same_http a b \<Longrightarrow> same_http b c \<Longrightarrow> same_http a c"
  by (auto simp: same_http_def)

lemma enrich_same_http: "enrich_transfers provider ts acc (m, e) = (out, (m', e')) \<Longrightarrow> same_http m m'"
proof (induction ts arbitrary: acc m e)
  case (Cons t ts)
  have more: "same_http m (RecordTokenMetadataError m)" by (auto simp: same_http_def RecordTokenMetadataError_def)
  from Cons.prems Cons.IH same_http_trans [OF more] show ?case
    by (auto simp: Let_def split: option.splits prod.splits called.splits sum.splits)
qed (auto)

text \<open>What a handler does to a recorder that has sent nothing: it answers once, or it panics and has sent
  nothing.\<close>

definition handled :: "statusRecorder \<times> Metrics \<times> 'w \<Rightarrow> string option \<times> statusRecorder \<times> Metrics \<times> 'w \<Rightarrow> bool" where
  "handled s out \<longleftrightarrow>
     (case (s, out) of ((w, m, e), (p, (w', m', e'))) \<Rightarrow>
        same_http m m' \<and> (case p of None \<Rightarrow> (\<exists>status part. answered_once w status part w') | Some _ \<Rightarrow> w' = w))"

lemma handleHealth_handled: "fresh w \<Longrightarrow> handled (w, m, e) (handleHealth r (w, m, e))"
  by (auto simp: handled_def handleHealth_def intro: writeMethodNotAllowed_answered writeJSON_answered)

lemma handleMetrics_handled:
  assumes "fresh w"
  shows "handled (w, m, e) (handleMetrics r (w, m, e))"
proof (cases "rq_Method r = ''GET''")
  case True
  with assms show ?thesis
    by (simp add: handled_def handleMetrics_def WritePrometheus_def answered_once_def fresh_def recorder_defs)
next
  case False
  with writeMethodNotAllowed_answered [OF assms, of r] show ?thesis by (auto simp: handled_def handleMetrics_def)
qed

lemma handleTransfers_handled:
  assumes "fresh w"
  shows "handled (w, m, e) (handleTransfers srv r (w, m, e))"
proof -
  have err: "\<exists>status part. answered_once w status part (writeHTTPError r x w)" for x
    using writeHTTPError_answered [OF assms] by (metis prod_cases3)
  have ok: "\<exists>status part. answered_once w status part (writeJSON s v w)" for s v
    using writeJSON_answered [OF assms] by blast
  have no: "\<exists>status part. answered_once w status part (writeMethodNotAllowed r w)"
    using writeMethodNotAllowed_answered [OF assms] by blast
  show ?thesis
    unfolding handleTransfers_def handled_def
    by (auto simp: err ok no split: sum.splits prod.splits called.splits option.splits dest: enrich_same_http)
qed

lemma serve_mux_handled: "fresh w \<Longrightarrow> handled (w, m, e) (serve_mux srv r (w, m, e))"
  using handleHealth_handled [of w m e r] handleMetrics_handled [of w m e r] handleTransfers_handled [of w m e srv r]
  by (auto simp: serve_mux_def) (auto simp: handled_def answered_once_def fresh_def recorder_defs)


definition hex_chars :: "char set" where
  "hex_chars = set ''0123456789abcdef''"

lemma hex_digit_cases: "d < 16 \<Longrightarrow> hex_digit d \<in> hex_chars"
proof -
  have "\<forall>d \<in> set [0..<16]. hex_digit d \<in> hex_chars" by code_simp
  then show "d < 16 \<Longrightarrow> ?thesis" by auto
qed

lemma hex_EncodeToString_length: "length (hex_EncodeToString bs) = 2 * length bs"
  by (induction bs) (simp_all add: hex_EncodeToString_def)

lemma hex_digits_length [simp]: "length (hex_digits k n) = k"
  by (induction k arbitrary: n) simp_all

lemma hex_digits_hex: "set (hex_digits k n) \<subseteq> hex_chars"
  by (induction k arbitrary: n) (auto simp: hex_digit_cases)

lemma hex_EncodeToString_hex: "set (hex_EncodeToString bs) \<subseteq> hex_chars"
proof -
  have "unat (b :: u8) div 16 < 16" for b
    using unsigned_less [of b, where ?'a = nat] by (simp add: less_mult_imp_div_less)
  then show ?thesis by (auto simp: hex_EncodeToString_def hex_digit_cases)
qed

definition request_id :: "string \<Rightarrow> bool" where
  "request_id i \<longleftrightarrow> length i = 32 \<and> set i \<subseteq> hex_chars"

text \<open>\<^verbatim>\<open>rand.Read\<close> fills the whole array or fails.\<close>

definition fills :: "'w http_env \<Rightarrow> bool" where
  "fills env \<longleftrightarrow> (\<forall>w v w'. rand_Read env w = (Some v, w') \<longrightarrow> length v = 16)"

lemma newRequestID_form:
  assumes "fills env" "newRequestID env (c, w) = (i, c', w')"
  shows "request_id i"
proof -
  obtain b w1 where b: "rand_Read env w = (b, w1)" by (rule prod.exhaust)
  obtain t w2 where t: "UnixNano env w1 = (t, w2)" by (rule prod.exhaust)
  show ?thesis
  proof (cases b)
    case None
    with assms(2) b t have "i = hex_digits 16 (unat (uint64_of t)) @ hex_digits 16 (unat (c + 1))"
      by (auto simp: newRequestID_def show_hex16_def)
    then show ?thesis using hex_digits_hex by (simp add: request_id_def)
  next
    case (Some v)
    with assms(1) b have "length v = 16" unfolding fills_def by blast
    moreover from Some assms(2) b have "i = hex_EncodeToString v" by (simp add: newRequestID_def)
    ultimately show ?thesis using hex_EncodeToString_hex by (simp add: request_id_def hex_EncodeToString_length)
  qed
qed

text \<open>Under the recovery middleware every request is answered once and nothing panics.\<close>

lemma recovered:
  assumes "fresh w"
  obtains w' m' e' status part where "recoveryMiddleware (serve_mux srv) r (w, m, e) = (None, (w', m', e'))"
    "answered_once w status part w'" "same_http m m'"
proof -
  obtain q w2 m2 e2 where mux: "serve_mux srv r (w, m, e) = (q, (w2, m2, e2))" by (metis prod_cases4)
  note handled = serve_mux_handled [OF assms, of m e srv r, unfolded mux]
  show thesis
  proof (cases q)
    case None
    with handled obtain status part where "answered_once w status part w2" "same_http m m2" by (auto simp: handled_def)
    with None mux show thesis by (intro that [of w2 m2 e2 status part]) (simp_all add: recoveryMiddleware_def)
  next
    case (Some x)
    with handled have eq: "w2 = w" "same_http m m2" by (simp_all add: handled_def)
    let ?m = "markStatus 500 w"
    have "fresh ?m" using assms by (simp add: fresh_def markStatus_def)
    from writeAPIError_answered [OF this, of 500 "''internal_error''" "''internal server error''" r]
    have "answered_once w 500 (JSONPart (api_error_json ''internal_error'' ''internal server error'' (requestIDFromContext r)))
        (writeAPIError r 500 ''internal_error'' ''internal server error'' ?m)"
      by (simp add: answered_once_def markStatus_def)
    moreover have "recoveryMiddleware (serve_mux srv) r (w, m, e) =
        (None, (writeAPIError r 500 ''internal_error'' ''internal server error'' ?m, m2, e2))"
      using assms Some mux eq(1) by (simp add: recoveryMiddleware_def responseStarted_def fresh_def)
    ultimately show thesis using eq(2) that by blast
  qed
qed

text \<open>
  C6. Whatever the request and whatever the reader and the metadata provider do, panics included, the
  handler returns and the client gets exactly one response: one status, one body and an identifier of
  thirty-two hexadecimal digits. The request is counted once, and as an error exactly when the status
  sent is 500 or above.
\<close>
theorem http_Handler_answers:
  assumes "fills env" "http_Handler env srv r c (empty_response, m, e) = (p, c', (resp, m', e'))"
  shows "p = None \<and> (\<exists>status part i. rs_status resp = Some status \<and> rs_body resp = [part] \<and>
      rs_header resp ''X-Request-ID'' = Some i \<and> request_id i \<and> httpRequests m' = httpRequests m + 1 \<and>
      httpErrors m' = httpErrors m + (if 500 \<le> status then 1 else 0))"
proof -
  obtain i c1 e1 where i: "newRequestID env (c, e) = (i, c1, e1)" by (rule prod_cases3)
  obtain t e2 where t: "UnixNano env e1 = (t, e2)" by (rule prod.exhaust)
  let ?w = "\<lparr>sr_status = 200, sr_wroteResponse = False, sr_ResponseWriter = rw_SetHeader ''X-Request-ID'' i empty_response\<rparr>"
  have fresh: "fresh ?w" by (simp add: fresh_def rw_SetHeader_def empty_response_def)
  have header: "rs_header (sr_ResponseWriter ?w) ''X-Request-ID'' = Some i"
    by (simp add: rw_SetHeader_def empty_response_def)
  obtain w3 m2 e3 status part where
    run: "recoveryMiddleware (serve_mux srv) (r\<lparr>rq_requestID := Some i\<rparr>) (?w, m, e2) = (None, (w3, m2, e3))"
    and sent: "answered_once ?w status part w3" and same: "same_http m m2"
    by (rule recovered [OF fresh])
  obtain f e4 where f: "UnixNano env e3 = (f, e4)" by (rule prod.exhaust)
  from assms(2) i t run f have out: "p = None" "resp = sr_ResponseWriter w3" "m' = ObserveHTTPRequest (sr_status w3) (f - t) m2"
    by (simp_all add: http_Handler_def requestIDMiddleware_def observabilityMiddleware_def)
  from same have "httpRequests m2 = httpRequests m" "httpErrors m2 = httpErrors m" by (auto simp: same_http_def)
  with sent out header newRequestID_form [OF assms(1) i] show ?thesis
    by (auto simp: answered_once_def ObserveHTTPRequest_def Let_def)
qed


definition zero_env :: "unit http_env" where
  "zero_env = \<lparr>rand_Read = (\<lambda>w. (Some (replicate 16 0), w)), UnixNano = (\<lambda>w. (0, w))\<rparr>"

definition panicking_server :: "unit HTTPServer" where
  "panicking_server = \<lparr>srv_transferReader = (\<lambda>q w. (Panicked ''nil map'', w)), srv_tokenMetadataProvider = None,
     srv_codec = \<lparr>ac_IsHexAddress = (\<lambda>s. False), ac_Canonical = (\<lambda>s. s)\<rparr>\<rparr>"

definition transfers_request :: request where
  "transfers_request = \<lparr>rq_Method = ''GET'', rq_Path = ''/transfers'', rq_Query = (\<lambda>k. []), rq_requestID = None\<rparr>"

definition panic_outcome :: "string option \<times> u64 \<times> response \<times> Metrics \<times> unit" where
  "panic_outcome = http_Handler zero_env panicking_server transfers_request 0 (empty_response, NewMetrics, ())"

lemma panic_status: "rs_status (fst (snd (snd panic_outcome))) = Some 500"
  by code_simp

theorem http_Handler_answers_witness:
  "fst panic_outcome = None \<and> rs_status (fst (snd (snd panic_outcome))) = Some 500 \<and>
   length (rs_body (fst (snd (snd panic_outcome)))) = 1 \<and> httpErrors (fst (snd (snd (snd panic_outcome)))) = 1"
proof -
  obtain p c resp m e where out: "panic_outcome = (p, c, (resp, m, e))" by (rule prod_cases5)
  have "fills zero_env" by (simp add: fills_def zero_env_def)
  from http_Handler_answers [OF this out [unfolded panic_outcome_def]] panic_status show ?thesis
    by (auto simp: out NewMetrics_def)
qed

end
