(* ===== verification/Transfer_Reader.thy ===== *)
theory Transfer_Reader
  imports Postgres_Database "HOL-Library.Product_Lexorder" "HOL-Library.Multiset"
begin

text \<open>
  \<^verbatim>\<open>PostgresTransferReader\<close> of \<^verbatim>\<open>internal/store/postgres_transfer_reader.go\<close>: keyset pagination over
  the transfers table. The query the code assembles is one function of the table; rows with the
  same block number and log index come in an order the statement leaves open (here the physical
  one). \<^verbatim>\<open>LOWER\<close> is the ASCII lower case, as on the hexadecimal addresses the program stores.
\<close>

section \<open>The query\<close>

definition effective_limit :: "int \<Rightarrow> int" where
  "effective_limit l = (let l1 = (if l \<le> 0 then 100 else l) in if l1 > 1000 then 1000 else l1)"

text \<open>The \<^verbatim>\<open>WHERE\<close> clause: every filter that is set, then the cursor.\<close>

definition filters_match :: "TransferQuery \<Rightarrow> transfer_row \<Rightarrow> bool" where
  "filters_match query row \<longleftrightarrow>
     (case q_BlockNumber query of None \<Rightarrow> True | Some n \<Rightarrow> r_block_number row = int64_of n) \<and>
     (case q_Token query of None \<Rightarrow> True | Some token \<Rightarrow> ToLower (r_token_address row) = ToLower token) \<and>
     (case q_Address query of None \<Rightarrow> True
      | Some address \<Rightarrow> ToLower (r_from_address row) = ToLower address \<or> ToLower (r_to_address row) = ToLower address)"

definition cursor_matches :: "TransferCursor option \<Rightarrow> transfer_row \<Rightarrow> bool" where
  "cursor_matches cursor row \<longleftrightarrow>
     (case cursor of None \<Rightarrow> True
      | Some c \<Rightarrow> r_block_number row < int64_of (cur_BlockNumber c) \<or>
          r_block_number row = int64_of (cur_BlockNumber c) \<and> r_log_index row < int64_of (cur_LogIndex c))"

text \<open>\<^verbatim>\<open>ORDER BY block_number DESC, log_index DESC\<close>.\<close>

abbreviation page_key :: "transfer_row \<Rightarrow> int \<times> int" where
  "page_key row \<equiv> (- r_block_number row, - r_log_index row)"

definition sql_select_transfers :: "TransferQuery \<Rightarrow> int \<Rightarrow> db \<Rightarrow> (go_error, transfer_row list, db) outcome" where
  "sql_select_transfers query queryLimit d =
     (if (case q_Cursor query of None \<Rightarrow> False
          | Some c \<Rightarrow> \<not> (- (2 ^ 31) \<le> int64_of (cur_LogIndex c) \<and> int64_of (cur_LogIndex c) < 2 ^ 31)) then
        (Inl (Anonymous ''log_index is out of range for INTEGER''), d)
      else (Inr (take (nat queryLimit) (sort_key page_key
              (filter (\<lambda>row. filters_match query row \<and> cursor_matches (q_Cursor query) row) (erc20_transfers d)))), d))"

section \<open>Reading rows\<close>

text \<open>\<^verbatim>\<open>NUMERIC(78, 0)\<close> is scanned as its decimal text and parsed again.\<close>

definition scan_row :: "transfer_row \<Rightarrow> go_error + StoredERC20Transfer" where
  "scan_row row =
     (if r_block_number row < 0 then
        Inl (Anonymous (''invalid negative block number: '' @ show_int (r_block_number row)))
      else if r_log_index row < 0 then
        Inl (Anonymous (''invalid negative log index: '' @ show_int (r_log_index row)))
      else
        (case read_int (show_int (r_value row)) of
           None \<Rightarrow> Inl (Anonymous (''invalid transfer value '' @ quoted (show_int (r_value row))))
         | Some value \<Rightarrow>
             Inr \<lparr>st_BlockNumber = uint64_of (r_block_number row), st_BlockHash = r_block_hash row,
                  st_TransactionHash = r_transaction_hash row, st_LogIndex = uint64_of (r_log_index row),
                  st_Token = r_token_address row, st_From = r_from_address row, st_To = r_to_address row,
                  st_Value = Some value\<rparr>))"

fun scan_rows :: "transfer_row list \<Rightarrow> go_error + StoredERC20Transfer list" where
  "scan_rows [] = Inr []"
| "scan_rows (row # rows) =
     (case scan_row row of
        Inl err \<Rightarrow> Inl err
      | Inr transfer \<Rightarrow> (case scan_rows rows of Inl err \<Rightarrow> Inl err | Inr transfers \<Rightarrow> Inr (transfer # transfers)))"

definition page_of :: "int \<Rightarrow> StoredERC20Transfer list \<Rightarrow> TransferPage" where
  "page_of limit transfers =
     (if int (length transfers) > limit then
        let kept = take (nat limit) transfers
        in \<lparr>pg_Transfers = kept,
            pg_NextCursor = Some (TransferCursor (st_BlockNumber (last kept)) (st_LogIndex (last kept)))\<rparr>
      else \<lparr>pg_Transfers = transfers, pg_NextCursor = None\<rparr>)"

text \<open>The server may also fail while the rows are read.\<close>

definition ListTransfers :: "'e postgres \<Rightarrow> TransferQuery \<Rightarrow> db \<times> 'e \<Rightarrow> (go_error, TransferPage, db \<times> 'e) outcome" where
  "ListTransfers pool query w =
     (let limit = effective_limit (q_Limit query);
          (r, w') =
            (case run_statement pool (sql_select_transfers query (limit + 1)) w of
               (Inl err, w1) \<Rightarrow> (Inl (Wrapf ''failed to query transfers'' err), w1)
             | (Inr rows, w1) \<Rightarrow>
                 (case scan_rows rows of
                    Inl err \<Rightarrow> (Inl err, w1)
                  | Inr transfers \<Rightarrow>
                      (case pg_statement pool (snd w1) of
                         (Some f, e) \<Rightarrow> (Inl (Wrapf ''failed while reading transfers'' (fault_error f)), (fst w1, e))
                       | (None, e) \<Rightarrow> (Inr (page_of limit transfers), (fst w1, e)))))
      in (classified ErrDatabase ''list transfers'' r, w'))"

section \<open>Facts about pages\<close>

definition stored :: "transfer_row \<Rightarrow> StoredERC20Transfer" where
  "stored row = \<lparr>st_BlockNumber = uint64_of (r_block_number row), st_BlockHash = r_block_hash row,
     st_TransactionHash = r_transaction_hash row, st_LogIndex = uint64_of (r_log_index row),
     st_Token = r_token_address row, st_From = r_from_address row, st_To = r_to_address row,
     st_Value = Some (r_value row)\<rparr>"

text \<open>What a query without cursor selects, in order.\<close>

definition matching_rows :: "TransferQuery \<Rightarrow> db \<Rightarrow> transfer_row list" where
  "matching_rows query d = sort_key page_key (filter (filters_match query) (erc20_transfers d))"

lemma effective_limit_range: "1 \<le> effective_limit l" "effective_limit l \<le> 1000"
  by (auto simp: effective_limit_def Let_def)

lemma scan_rows_stored:
  "(\<forall>row \<in> set rows. 0 \<le> r_block_number row \<and> 0 \<le> r_log_index row) \<Longrightarrow> scan_rows rows = Inr (map stored rows)"
  by (induction rows) (auto simp: scan_row_def stored_def read_int_show_int)

lemma scan_rows_Inr: "scan_rows rows = Inr ts \<Longrightarrow> ts = map stored rows"
  by (induction rows arbitrary: ts)
    (auto simp: scan_row_def stored_def read_int_show_int split: sum.splits if_splits)

lemma select_rows:
  "sort_key page_key (filter (\<lambda>row. filters_match query row \<and> cursor_matches cursor row) rows) =
     filter (cursor_matches cursor) (sort_key page_key (filter (filters_match query) rows))"
  by (simp add: filter_sort conj_commute)

lemma ListTransfers_Inr:
  assumes "ListTransfers pool query w = (Inr page, w')"
  shows "fst w' = fst w" "page = page_of (effective_limit (q_Limit query))
    (map stored (take (nat (effective_limit (q_Limit query) + 1))
      (filter (cursor_matches (q_Cursor query)) (matching_rows query (fst w)))))"
proof -
  let ?l = "effective_limit (q_Limit query)"
  from assms obtain rows w1 ts e where q: "run_statement pool (sql_select_transfers query (?l + 1)) w = (Inr rows, w1)"
    and ts: "scan_rows rows = Inr ts" "page = page_of ?l ts" and w': "w' = (fst w1, e)"
    by (auto simp: ListTransfers_def Let_def split: prod.splits sum.splits option.splits)
  from q have "fst (sql_select_transfers query (?l + 1) (fst w)) = Inr rows \<and> fst w1 = fst w"
    by (cases rule: run_statement_cases) (auto simp: sql_select_transfers_def split: if_splits)
  then have "rows = take (nat (?l + 1)) (filter (cursor_matches (q_Cursor query)) (matching_rows query (fst w)))"
    and "fst w1 = fst w"
    by (auto simp: sql_select_transfers_def matching_rows_def select_rows split: if_splits)
  with w' ts scan_rows_Inr show "fst w' = fst w" "page = page_of ?l (map stored (take (nat (?l + 1))
      (filter (cursor_matches (q_Cursor query)) (matching_rows query (fst w)))))"
    by (simp, blast)
qed

section \<open>Pagination\<close>

text \<open>Reading page after page with the cursor each page returns, at most \<open>fuel\<close> of them.\<close>

fun read_pages :: "nat \<Rightarrow> 'e postgres \<Rightarrow> TransferQuery \<Rightarrow> db \<times> 'e \<Rightarrow> (go_error + StoredERC20Transfer list) option" where
  "read_pages 0 pool query w = None"
| "read_pages (Suc fuel) pool query w =
     (case ListTransfers pool query w of
        (Inl err, w') \<Rightarrow> Some (Inl err)
      | (Inr page, w') \<Rightarrow>
          (case pg_NextCursor page of
             None \<Rightarrow> Some (Inr (pg_Transfers page))
           | Some c \<Rightarrow> map_option (map_sum id (\<lambda>rest. pg_Transfers page @ rest))
               (read_pages fuel pool (query\<lparr>q_Cursor := Some c\<rparr>) w')))"

lemma ListTransfers_calm:
  assumes "\<And>e. pg_statement pool e = (None, e)"
    and "\<forall>row \<in> set (erc20_transfers (fst w)). 0 \<le> r_block_number row \<and> 0 \<le> r_log_index row"
    and "\<forall>c. q_Cursor query = Some c \<longrightarrow> unat (cur_LogIndex c) < 2 ^ 31"
  shows "ListTransfers pool query w = (Inr (page_of (effective_limit (q_Limit query))
      (map stored (take (nat (effective_limit (q_Limit query) + 1))
        (filter (cursor_matches (q_Cursor query)) (matching_rows query (fst w)))))), w)"
proof -
  let ?rows = "take (nat (effective_limit (q_Limit query) + 1))
      (filter (cursor_matches (q_Cursor query)) (matching_rows query (fst w)))"
  have small: "- (2 ^ 31) \<le> int64_of (cur_LogIndex c) \<and> int64_of (cur_LogIndex c) < 2 ^ 31" if "q_Cursor query = Some c" for c
  proof -
    from assms(3) that have lt: "unat (cur_LogIndex c) < 2 ^ 31" by blast
    then have "int (unat (cur_LogIndex c)) < int (2 ^ 31)" by (simp only: of_nat_less_iff)
    then have "int (unat (cur_LogIndex c)) < 2 ^ 31" by (simp only: of_nat_power of_nat_numeral)
    moreover have "int64_of (cur_LogIndex c) = int (unat (cur_LogIndex c))" using lt by (intro int64_of_nonneg) simp
    moreover have "0 \<le> int (unat (cur_LogIndex c))" by (rule of_nat_0_le_iff)
    ultimately show ?thesis by (intro conjI; linarith)
  qed
  have q: "sql_select_transfers query l (fst w) = (Inr (take (nat l) (filter (cursor_matches (q_Cursor query))
      (matching_rows query (fst w)))), fst w)" for l
    using small by (auto simp: sql_select_transfers_def matching_rows_def select_rows split: option.splits)
  have "\<forall>row \<in> set ?rows. 0 \<le> r_block_number row \<and> 0 \<le> r_log_index row"
    using assms(2) by (auto simp: matching_rows_def dest!: in_set_takeD)
  from scan_rows_stored [OF this] show ?thesis
    by (simp add: ListTransfers_def run_statement_def assms(1) q Let_def)
qed

text \<open>The rows after the last row of a page, in the order of strictly increasing keys.\<close>

lemma rows_after:
  assumes "sorted_wrt (<) (map page_key (pre @ row # rest))"
    and "0 \<le> r_block_number row" "r_block_number row < 2 ^ 63" "0 \<le> r_log_index row" "r_log_index row < 2 ^ 31"
  shows "filter (cursor_matches (Some (TransferCursor (uint64_of (r_block_number row)) (uint64_of (r_log_index row)))))
     (pre @ row # rest) = rest"
proof -
  have same: "int64_of (uint64_of (r_block_number row)) = r_block_number row"
    "int64_of (uint64_of (r_log_index row)) = r_log_index row"
    using assms(2-5) by (simp_all add: int64_of_uint64_of)
  have "cursor_matches (Some (TransferCursor (uint64_of (r_block_number row)) (uint64_of (r_log_index row)))) r \<longleftrightarrow>
      page_key row < page_key r" for r
    by (auto simp: cursor_matches_def same)
  then have "filter (cursor_matches (Some (TransferCursor (uint64_of (r_block_number row)) (uint64_of (r_log_index row)))))
     (pre @ row # rest) = filter (\<lambda>r. page_key row < page_key r) (pre @ row # rest)" by presburger
  also have "\<dots> = rest"
    using assms(1) by (auto simp: sorted_wrt_append filter_empty_conv filter_id_conv)
  finally show ?thesis .
qed

lemma matching_rows_strict:
  assumes "distinct (map page_key (erc20_transfers d))"
  shows "sorted_wrt (<) (map page_key (matching_rows query d))"
proof -
  have "mset (matching_rows query d) = mset (filter (filters_match query) (erc20_transfers d))"
    by (simp add: matching_rows_def)
  then have "mset (map page_key (matching_rows query d)) = mset (map page_key (filter (filters_match query) (erc20_transfers d)))"
    by simp
  moreover have "distinct (map page_key (filter (filters_match query) (erc20_transfers d)))"
    using assms by (rule distinct_map_filter)
  ultimately have "distinct (map page_key (matching_rows query d))" by (metis mset_eq_imp_distinct_iff)
  moreover have "sorted (map page_key (matching_rows query d))" unfolding matching_rows_def by (rule sorted_sort_key)
  ultimately show ?thesis by (simp add: strict_sorted_iff)
qed

lemma matching_rows_cursor [simp]: "matching_rows (query\<lparr>q_Cursor := c\<rparr>) d = matching_rows query d"
proof -
  have "filters_match (query\<lparr>q_Cursor := c\<rparr>) = filters_match query" by (rule ext) (simp add: filters_match_def)
  then show ?thesis by (simp add: matching_rows_def)
qed

text \<open>Transfers as the chain gives them: the columns in range and the log index unique within a height.\<close>

definition rows_ok :: "transfer_row list \<Rightarrow> bool" where
  "rows_ok rows \<longleftrightarrow> (\<forall>row \<in> set rows. 0 \<le> r_block_number row \<and> r_block_number row < 2 ^ 63 \<and>
     0 \<le> r_log_index row \<and> r_log_index row < 2 ^ 31) \<and> distinct (map page_key rows)"

lemma rows_okI:
  assumes "db_ok d" and "\<forall>row \<in> set (erc20_transfers d). 0 \<le> r_log_index row"
    and "distinct (map (\<lambda>row. (r_block_number row, r_log_index row)) (erc20_transfers d))"
  shows "rows_ok (erc20_transfers d)"
proof -
  have "distinct (map page_key (erc20_transfers d))" using assms(3) by (auto simp: distinct_map inj_on_def)
  with assms(1,2) show ?thesis unfolding rows_ok_def db_ok_def by blast
qed

text \<open>One page over a suffix of the matching rows: everything, or the first \<open>k\<close> rows and a cursor that
  selects exactly the others.\<close>

definition at_suffix :: "TransferQuery \<Rightarrow> db \<Rightarrow> transfer_row list \<Rightarrow> bool" where
  "at_suffix query d rest \<longleftrightarrow>
     (\<forall>c. q_Cursor query = Some c \<longrightarrow> unat (cur_LogIndex c) < 2 ^ 31) \<and>
     filter (cursor_matches (q_Cursor query)) (matching_rows query d) = rest \<and>
     (\<exists>pre. matching_rows query d = pre @ rest)"

lemma at_suffix_start: "q_Cursor query = None \<Longrightarrow> at_suffix query d (matching_rows query d)"
  by (simp add: at_suffix_def cursor_matches_def)

lemma ListTransfers_step:
  assumes calm: "\<And>e. pg_statement pool e = (None, e)" and ok: "rows_ok (erc20_transfers d)"
    and here: "at_suffix query d rest"
  obtains "\<forall>e. ListTransfers pool query (d, e) = (Inr \<lparr>pg_Transfers = map stored rest, pg_NextCursor = None\<rparr>, (d, e))"
  | k c where "\<forall>e. ListTransfers pool query (d, e) = (Inr \<lparr>pg_Transfers = map stored (take k rest), pg_NextCursor = Some c\<rparr>, (d, e))"
      "1 \<le> k" "k < length rest" "at_suffix (query\<lparr>q_Cursor := Some c\<rparr>) d (drop k rest)"
proof -
  let ?l = "effective_limit (q_Limit query)"
  let ?k = "nat ?l"
  note l = effective_limit_range [of "q_Limit query"]
  from ok have rows: "\<forall>row \<in> set (erc20_transfers d). 0 \<le> r_block_number row \<and> r_block_number row < 2 ^ 63 \<and>
      0 \<le> r_log_index row \<and> r_log_index row < 2 ^ 31" and keys: "distinct (map page_key (erc20_transfers d))"
    unfolding rows_ok_def by blast+
  from here obtain pre where cursor: "\<forall>c. q_Cursor query = Some c \<longrightarrow> unat (cur_LogIndex c) < 2 ^ 31"
    and rest: "filter (cursor_matches (q_Cursor query)) (matching_rows query d) = rest"
    and pre: "matching_rows query d = pre @ rest" unfolding at_suffix_def by blast
  have page: "\<forall>e. ListTransfers pool query (d, e) = (Inr (page_of ?l (map stored (take (nat (?l + 1)) rest))), (d, e))"
    using ListTransfers_calm [OF calm _ cursor, of "(d, _)"] rows rest by simp
  show thesis
  proof (cases "int (length rest) \<le> ?l")
    case True
    then have "take (nat (?l + 1)) rest = rest" by simp
    with page True show thesis by (intro that(1)) (simp add: page_of_def)
  next
    case False
    let ?row = "rest ! (?k - 1)"
    from False l have k: "?k < length rest" "?k \<ge> 1" "take ?k (take (nat (?l + 1)) rest) = take ?k rest"
      by (auto simp: min_def)
    from k have tk: "take ?k rest = take (?k - 1) rest @ [?row]"
      by (metis Suc_pred' le_simps(3) less_imp_diff_less not_less_eq_eq order_less_le_trans take_Suc_conv_app_nth zero_less_one)
    then have split: "rest = take (?k - 1) rest @ ?row # drop ?k rest" by (metis append.assoc append_Cons append_Nil append_take_drop_id)
    let ?c = "TransferCursor (uint64_of (r_block_number ?row)) (uint64_of (r_log_index ?row))"
    have next_page: "page_of ?l (map stored (take (nat (?l + 1)) rest)) =
        \<lparr>pg_Transfers = map stored (take ?k rest), pg_NextCursor = Some ?c\<rparr>"
      using False k l tk by (simp add: page_of_def take_map Let_def stored_def)
    have "?row \<in> set (matching_rows query d)" using pre k by auto
    then have row: "?row \<in> set (erc20_transfers d)" by (auto simp: matching_rows_def)
    have all: "matching_rows query d = (pre @ take (?k - 1) rest) @ ?row # drop ?k rest" using pre split by simp
    have after: "filter (cursor_matches (Some ?c)) (matching_rows query d) = drop ?k rest"
      unfolding all using matching_rows_strict [OF keys, of query] rows row
      by (intro rows_after) (auto simp: all)
    have log: "unat (cur_LogIndex ?c) < 2 ^ 31"
    proof -
      from rows row have "0 \<le> r_log_index ?row" "r_log_index ?row < 2 ^ 31" by blast+
      then show ?thesis by (simp add: uint64_of_def unat_eq_nat_uint uint_word_of_int)
    qed
    from log after all have "at_suffix (query\<lparr>q_Cursor := Some ?c\<rparr>) d (drop ?k rest)"
      by (auto simp: at_suffix_def)
    with page next_page k show thesis by (intro that(2)) simp_all
  qed
qed

lemma read_pages_rest:
  assumes "\<And>e. pg_statement pool e = (None, e)" "rows_ok (erc20_transfers d)"
    "at_suffix query d rest" "length rest < fuel"
  shows "read_pages fuel pool query (d, e) = Some (Inr (map stored rest))"
  using assms(3,4)
proof (induction fuel arbitrary: query rest)
  case (Suc fuel)
  from assms(1,2) Suc.prems(1) show ?case
  proof (cases rule: ListTransfers_step)
    case (2 k c)
    from 2 Suc.prems(2) have "read_pages fuel pool (query\<lparr>q_Cursor := Some c\<rparr>) (d, e) = Some (Inr (map stored (drop k rest)))"
      by (intro Suc.IH) auto
    with 2 show ?thesis by (simp add: map_append [symmetric] del: map_append)
  qed simp
qed simp

section \<open>Paging while the table changes\<close>

text \<open>The indexer adds blocks and rolls them back while a client reads: page after page, each from the
  next world of the list.\<close>

fun read_changing :: "'e postgres \<Rightarrow> TransferQuery \<Rightarrow> (db \<times> 'e) list \<Rightarrow> (go_error + StoredERC20Transfer list) option" where
  "read_changing pool query [] = None"
| "read_changing pool query (w # ws) =
     (case ListTransfers pool query w of
        (Inl err, w') \<Rightarrow> Some (Inl err)
      | (Inr page, w') \<Rightarrow>
          (case pg_NextCursor page of
             None \<Rightarrow> Some (Inr (pg_Transfers page))
           | Some c \<Rightarrow> map_option (map_sum id (\<lambda>rest. pg_Transfers page @ rest))
               (read_changing pool (query\<lparr>q_Cursor := Some c\<rparr>) ws)))"

lemma map_sum_Inr_iff: "map_sum id f z = Inr y \<longleftrightarrow> (\<exists>x. z = Inr x \<and> y = f x)"
  by (cases z) auto

lemma cursor_matches_trans: "cursor_matches cursor row \<Longrightarrow> page_key row < page_key r \<Longrightarrow> cursor_matches cursor r"
  by (auto simp: cursor_matches_def split: option.splits)

lemma cursor_of_row:
  assumes "rows_ok rows" "row \<in> set rows"
  shows "cursor_matches (Some (TransferCursor (uint64_of (r_block_number row)) (uint64_of (r_log_index row)))) r \<longleftrightarrow>
    page_key row < page_key r"
proof -
  from assms have "0 \<le> r_block_number row" "r_block_number row < 2 ^ 63" "0 \<le> r_log_index row" "r_log_index row < 2 ^ 31"
    unfolding rows_ok_def by blast+
  then have "int64_of (uint64_of (r_block_number row)) = r_block_number row"
    "int64_of (uint64_of (r_log_index row)) = r_log_index row"
    by (simp_all add: int64_of_uint64_of)
  then show ?thesis by (auto simp: cursor_matches_def)
qed

text \<open>A page of any table: all rows after the cursor, or some of them and a cursor at the last.\<close>

lemma ListTransfers_page_cases:
  assumes run: "ListTransfers pool query w = (Inr page, w')" and ok: "rows_ok (erc20_transfers (fst w))"
    and rest: "rest = filter (cursor_matches (q_Cursor query)) (matching_rows query (fst w))"
  obtains (final) "pg_Transfers page = map stored rest" "pg_NextCursor page = None"
  | (more) pre row post c where "rest = pre @ row # post" "pg_Transfers page = map stored (pre @ [row])"
      "pg_NextCursor page = Some c" "\<And>r. cursor_matches (Some c) r \<longleftrightarrow> page_key row < page_key r"
proof -
  let ?l = "effective_limit (q_Limit query)"
  let ?k = "nat ?l"
  note l = effective_limit_range [of "q_Limit query"]
  have page: "page = page_of ?l (map stored (take (nat (?l + 1)) rest))"
    using ListTransfers_Inr(2) [OF run] rest by simp
  show thesis
  proof (cases "int (length rest) \<le> ?l")
    case True
    then have "take (nat (?l + 1)) rest = rest" by simp
    with page True show thesis by (intro final) (simp_all add: page_of_def)
  next
    case False
    let ?row = "rest ! (?k - 1)"
    from False l have k: "?k - 1 < length rest" "Suc (?k - 1) = ?k" "take ?k (take (nat (?l + 1)) rest) = take ?k rest"
      by (auto simp: min_def)
    then have tk: "take ?k rest = take (?k - 1) rest @ [?row]" using take_Suc_conv_app_nth [OF k(1)] by simp
    have "rest = take (?k - 1) rest @ ?row # drop ?k rest" using id_take_nth_drop [OF k(1)] k(2) by simp
    moreover have "page = \<lparr>pg_Transfers = map stored (take ?k rest),
        pg_NextCursor = Some (TransferCursor (uint64_of (r_block_number ?row)) (uint64_of (r_log_index ?row)))\<rparr>"
      using False k l tk page by (simp add: page_of_def take_map Let_def stored_def)
    moreover have "?row \<in> set (erc20_transfers (fst w))"
      using nth_mem [OF k(1)] unfolding rest by (simp add: matching_rows_def)
    ultimately show thesis using cursor_of_row [OF ok] tk by (intro more) auto
  qed
qed

definition read_ok :: "TransferQuery \<Rightarrow> db list \<Rightarrow> transfer_row list \<Rightarrow> bool" where
  "read_ok query ds rows \<longleftrightarrow>
     sorted_wrt (<) (map page_key rows) \<and>
     (\<forall>row \<in> set rows. filters_match query row \<and> (\<exists>d \<in> set ds. row \<in> set (erc20_transfers d))) \<and>
     (\<forall>row. filters_match query row \<and> cursor_matches (q_Cursor query) row \<and> (\<forall>d \<in> set ds. row \<in> set (erc20_transfers d)) \<longrightarrow>
        row \<in> set rows)"

lemma filters_match_cursor [simp]: "filters_match (query\<lparr>q_Cursor := c\<rparr>) = filters_match query"
  by (rule ext) (simp add: filters_match_def)

lemma read_ok_final:
  assumes "sorted_wrt (<) (map page_key rest)"
    and "\<And>row. row \<in> set rest \<longleftrightarrow> row \<in> set (erc20_transfers d) \<and> filters_match query row \<and> cursor_matches (q_Cursor query) row"
  shows "read_ok query (d # ds) rest"
  unfolding read_ok_def using assms by simp

lemma read_ok_more:
  assumes strict: "sorted_wrt (<) (map page_key (pre @ row # post))"
    and mem: "\<And>r. r \<in> set (pre @ row # post) \<longleftrightarrow>
      r \<in> set (erc20_transfers d) \<and> filters_match query r \<and> cursor_matches (q_Cursor query) r"
    and c: "\<And>r. cursor_matches (Some c) r \<longleftrightarrow> page_key row < page_key r"
    and rows: "read_ok (query\<lparr>q_Cursor := Some c\<rparr>) ds rows" "\<forall>r \<in> set rows. page_key row < page_key r"
  shows "read_ok query (d # ds) (pre @ row # rows)"
  unfolding read_ok_def
proof (intro conjI allI impI ballI)
  from strict have pre: "sorted_wrt (<) (map page_key pre)" "\<forall>r \<in> set pre. page_key r < page_key row"
    by (auto simp: sorted_wrt_append)
  then have "\<forall>r \<in> set pre. \<forall>r' \<in> set rows. page_key r < page_key r'" using rows(2) by (meson order.strict_trans)
  with pre rows show "sorted_wrt (<) (map page_key (pre @ row # rows))"
    by (simp add: sorted_wrt_append read_ok_def del: less_prod_simp)
next
  fix r assume "r \<in> set (pre @ row # rows)"
  then consider "r \<in> set (pre @ row # post)" | "r \<in> set rows" by auto
  then show "filters_match query r" "\<exists>d \<in> set (d # ds). r \<in> set (erc20_transfers d)"
    using mem [of r] rows(1) by (cases; simp add: read_ok_def)+
next
  fix r assume r: "filters_match query r \<and> cursor_matches (q_Cursor query) r \<and> (\<forall>d \<in> set (d # ds). r \<in> set (erc20_transfers d))"
  with mem [of r] consider "r \<in> set (pre @ [row])" | "r \<in> set post" by auto
  then show "r \<in> set (pre @ row # rows)"
  proof cases
    case 2
    with strict have "cursor_matches (Some c) r" unfolding c by (auto simp: sorted_wrt_append)
    with r rows(1) show ?thesis by (simp add: read_ok_def)
  qed auto
qed

lemma read_changing_ok:
  assumes "read_changing pool query ws = Some (Inr ts)" "\<forall>w \<in> set ws. rows_ok (erc20_transfers (fst w))"
  shows "\<exists>rows. ts = map stored rows \<and> read_ok query (map fst ws) rows \<and>
    (\<forall>row \<in> set rows. cursor_matches (q_Cursor query) row)"
  using assms
proof (induction pool query ws arbitrary: ts rule: read_changing.induct)
  case (2 pool query w ws)
  let ?rest = "filter (cursor_matches (q_Cursor query)) (matching_rows query (fst w))"
  have ok: "rows_ok (erc20_transfers (fst w))" using "2.prems"(2) by simp
  then have strict: "sorted_wrt (<) (map page_key ?rest)"
    using matching_rows_strict [of "fst w" query] by (auto simp: rows_ok_def sorted_wrt_map intro: sorted_wrt_filter)
  have mem: "row \<in> set ?rest \<longleftrightarrow> row \<in> set (erc20_transfers (fst w)) \<and> filters_match query row \<and> cursor_matches (q_Cursor query) row"
    for row by (auto simp: matching_rows_def)
  obtain page w' where run: "ListTransfers pool query w = (Inr page, w')"
    using "2.prems"(1) by (auto split: prod.splits sum.splits)
  from run ok refl show ?case
  proof (cases rule: ListTransfers_page_cases)
    case final
    with "2.prems"(1) run read_ok_final [OF strict mem] mem show ?thesis by (intro exI [of _ ?rest]) simp
  next
    case (more pre row post c)
    let ?q = "query\<lparr>q_Cursor := Some c\<rparr>"
    from "2.prems"(1) run more(2,3) obtain us where us: "read_changing pool ?q ws = Some (Inr us)"
      "ts = map stored (pre @ [row]) @ us" by (auto simp: map_sum_Inr_iff)
    from "2.IH" [OF run [symmetric] refl more(3) us(1)] "2.prems"(2) obtain rows where
      rows: "us = map stored rows" "read_ok ?q (map fst ws) rows" "\<forall>r \<in> set rows. page_key row < page_key r"
      using more(4) by auto
    have first: "sorted_wrt (<) (map page_key (pre @ row # post))" using strict unfolding more(1) .
    have row: "cursor_matches (q_Cursor query) row" using mem [of row] unfolding more(1) by simp
    have "read_ok query (map fst (w # ws)) (pre @ row # rows)"
      using read_ok_more [OF first mem [unfolded more(1)] more(4) rows(2,3)] by simp
    moreover have "\<forall>r \<in> set (pre @ row # rows). cursor_matches (q_Cursor query) r"
      using mem rows(3) row cursor_matches_trans unfolding more(1) by auto
    ultimately show ?thesis using us(2) rows(1) by (intro exI [of _ "pre @ row # rows"]) simp
  qed
qed simp

section \<open>Properties\<close>

text \<open>A page in terms of the rows the statement selects.\<close>

lemma ListTransfers_rows:
  assumes "ListTransfers pool query (d, e) = (Inr page, (d', e'))"
  shows "let limit = nat (effective_limit (q_Limit query));
             rest = filter (cursor_matches (q_Cursor query)) (matching_rows query d)
         in d' = d \<and> 1 \<le> limit \<and> limit \<le> 1000 \<and> pg_Transfers page = map stored (take limit rest) \<and>
            pg_NextCursor page = (if length rest \<le> limit then None
              else Some (TransferCursor (uint64_of (r_block_number (rest ! (limit - 1))))
                                        (uint64_of (r_log_index (rest ! (limit - 1))))))"
proof -
  let ?l = "effective_limit (q_Limit query)"
  let ?rest = "filter (cursor_matches (q_Cursor query)) (matching_rows query d)"
  note l = effective_limit_range [of "q_Limit query"]
  note page = ListTransfers_Inr [OF assms]
  from page(1) have d: "d' = d" by simp
  have nat_l: "1 \<le> nat ?l" "nat ?l \<le> 1000" using l by linarith+
  show ?thesis
  proof (cases "length ?rest \<le> nat ?l")
    case True
    then have all: "take (nat (?l + 1)) ?rest = ?rest" "take (nat ?l) ?rest = ?rest" by auto
    from True l have "\<not> int (length ?rest) > ?l" by linarith
    with page(2) all have "page = \<lparr>pg_Transfers = map stored ?rest, pg_NextCursor = None\<rparr>" by (simp add: page_of_def)
    with True nat_l d all show ?thesis by (simp add: Let_def)
  next
    case False
    with l have more: "int (length (map stored (take (nat (?l + 1)) ?rest))) > ?l"
      and take: "take (nat ?l) (take (nat (?l + 1)) ?rest) = take (nat ?l) ?rest" by (auto simp: min_def)
    have "take (nat ?l) ?rest \<noteq> []" using False l by auto
    then have last: "last (map stored (take (nat ?l) ?rest)) = stored (?rest ! (nat ?l - 1))"
      using False by (simp add: last_map last_conv_nth min_def)
    have "page = \<lparr>pg_Transfers = map stored (take (nat ?l) ?rest),
        pg_NextCursor = Some (TransferCursor (st_BlockNumber (stored (?rest ! (nat ?l - 1))))
          (st_LogIndex (stored (?rest ! (nat ?l - 1)))))\<rparr>"
      using page(2) unfolding fst_conv page_of_def if_P [OF more] Let_def take_map take last [unfolded take_map] .
    with False nat_l d show ?thesis by (simp add: stored_def Let_def)
  qed
qed

text \<open>What a caller asks for, on the numbers of the chain and not on the columns' bit patterns: the filters
  that are set hold, addresses compared without case, and the row lies before the cursor in the order
  of block number and log index.\<close>

definition wanted :: "TransferQuery \<Rightarrow> transfer_row \<Rightarrow> bool" where
  "wanted query row \<longleftrightarrow>
     (\<forall>n. q_BlockNumber query = Some n \<longrightarrow> r_block_number row = int (unat n)) \<and>
     (\<forall>token. q_Token query = Some token \<longrightarrow> ToLower (r_token_address row) = ToLower token) \<and>
     (\<forall>address. q_Address query = Some address \<longrightarrow>
        ToLower address \<in> {ToLower (r_from_address row), ToLower (r_to_address row)}) \<and>
     (\<forall>n i. q_Cursor query = Some (TransferCursor n i) \<longrightarrow>
        (r_block_number row, r_log_index row) < (int (unat n), int (unat i)))"

lemma wanted_selected:
  assumes "0 \<le> r_block_number row" "r_block_number row < 2 ^ 63"
    and "\<forall>n i. q_Cursor query = Some (TransferCursor n i) \<longrightarrow> unat n < 2 ^ 63 \<and> unat i < 2 ^ 63"
  shows "filters_match query row \<and> cursor_matches (q_Cursor query) row \<longleftrightarrow> wanted query row"
proof -
  have block: "r_block_number row = int64_of n \<longleftrightarrow> r_block_number row = int (unat n)" for n
  proof (cases "unat n < 2 ^ 63")
    case False
    then have "int64_of n < 0" "2 ^ 63 \<le> int (unat n)"
      using int64_of_neg_iff [of n] by (simp_all only: not_less flip: of_nat_le_iff [where ?'a = int]) simp_all
    with assms(1,2) show ?thesis by linarith
  qed (simp only: int64_of_nonneg)
  have cursor: "cursor_matches (q_Cursor query) row \<longleftrightarrow>
      (\<forall>n i. q_Cursor query = Some (TransferCursor n i) \<longrightarrow> (r_block_number row, r_log_index row) < (int (unat n), int (unat i)))"
  proof (cases "q_Cursor query")
    case (Some c)
    obtain n i where c: "c = TransferCursor n i" by (cases c)
    with Some assms(3) have "int64_of n = int (unat n)" "int64_of i = int (unat i)"
      by (blast intro: int64_of_nonneg)+
    moreover have "(a, b) < (x, y) \<longleftrightarrow> a < x \<or> a = x \<and> b < y" for a b x y :: int by auto
    ultimately show ?thesis using Some c by (simp only: cursor_matches_def option.simps TransferCursor.sel TransferCursor.inject) blast
  qed (simp add: cursor_matches_def)
  show ?thesis
    unfolding filters_match_def wanted_def cursor
    by (cases "q_BlockNumber query"; cases "q_Token query"; cases "q_Address query") (auto simp only: block option.simps)
qed

text \<open>
  C23. A page is what the caller asked for. Of the rows of the table that pass the filters and lie before
  the cursor, ordered newest first, it holds the first ones: all of them, without a next cursor, if
  they are no more than the limit (100 if none is asked for, 1000 at most); otherwise as many as the
  limit, with a next cursor that names the last row of the page. The table is not changed. The cursor
  is one below \<open>2^63\<close>, as those of the pages are (a greater one is \<open>cursor_above_int64_hides_rows\<close>).
\<close>
theorem ListTransfers_page:
  assumes "ListTransfers pool query (d, e) = (Inr page, (d', e'))" "db_ok d"
    and "\<forall>n i. q_Cursor query = Some (TransferCursor n i) \<longrightarrow> unat n < 2 ^ 63 \<and> unat i < 2 ^ 63"
  shows "d' = d \<and> (\<exists>rows rest. let limit = if q_Limit query \<le> 0 then 100 else min 1000 (nat (q_Limit query)) in
    mset (rows @ rest) = filter_mset (wanted query) (mset (erc20_transfers d)) \<and>
    sorted_wrt (\<lambda>a b. (r_block_number b, r_log_index b) \<le> (r_block_number a, r_log_index a)) (rows @ rest) \<and>
    pg_Transfers page = map stored rows \<and>
    (if rest = [] then length rows \<le> limit \<and> pg_NextCursor page = None
     else length rows = limit \<and>
       pg_NextCursor page = Some (TransferCursor (uint64_of (r_block_number (last rows))) (uint64_of (r_log_index (last rows))))))"
proof -
  let ?k = "nat (effective_limit (q_Limit query))"
  let ?all = "filter (cursor_matches (q_Cursor query)) (matching_rows query d)"
  have k: "?k = (if q_Limit query \<le> 0 then 100 else min 1000 (nat (q_Limit query)))"
    by (auto simp: effective_limit_def Let_def min_def)
  note page = ListTransfers_rows [OF assms(1), unfolded Let_def]
  have "filter_mset (\<lambda>row. filters_match query row \<and> cursor_matches (q_Cursor query) row) (mset (erc20_transfers d)) =
      filter_mset (wanted query) (mset (erc20_transfers d))"
    using assms(2) wanted_selected [OF _ _ assms(3)] by (intro filter_mset_cong) (auto simp: db_ok_def)
  then have all: "mset ?all = filter_mset (wanted query) (mset (erc20_transfers d))"
    by (simp add: matching_rows_def filter_filter_mset conj_commute)
  have "sorted_wrt (\<lambda>a b. page_key a \<le> page_key b) ?all"
    using sorted_sort_key [of page_key] unfolding matching_rows_def sorted_map by (intro sorted_wrt_filter)
  then have order: "sorted_wrt (\<lambda>a b. (r_block_number b, r_log_index b) \<le> (r_block_number a, r_log_index a)) ?all"
    by (rule sorted_wrt_mono_rel [rotated]) auto
  have last: "last (take ?k ?all) = ?all ! (?k - 1)" if "?k < length ?all"
    using that page by (subst last_conv_nth) auto
  show ?thesis
    using page all order last k
    by (intro conjI exI [of _ "take ?k ?all"] exI [of _ "drop ?k ?all"]) (auto simp: Let_def)
qed

definition reader_server :: "unit postgres" where
  "reader_server = \<lparr>pg_begin = (\<lambda>e. (None, e)), pg_statement = (\<lambda>e. (None, e)), pg_commit = (\<lambda>e. (Committed, e))\<rparr>"

definition reader_row :: "int \<Rightarrow> int \<Rightarrow> transfer_row" where
  "reader_row n i = \<lparr>r_transaction_hash = ''x'', r_log_index = i, r_block_number = n, r_block_hash = ''h'',
     r_token_address = ''T'', r_from_address = ''A'', r_to_address = ''B'', r_value = 5\<rparr>"

definition reader_db :: db where
  "reader_db = empty_db\<lparr>erc20_transfers := [reader_row 5 0, reader_row 7 1, reader_row 7 2]\<rparr>"

definition reader_query :: TransferQuery where
  "reader_query = \<lparr>q_BlockNumber = None, q_Token = Some ''t'', q_Address = None, q_Limit = 1, q_Cursor = None\<rparr>"

lemma reader_token: "ToLower ''T'' = ''t''" "ToLower ''t'' = ''t''"
  by code_simp+

lemma reader_rows: "matching_rows reader_query reader_db = [reader_row 7 2, reader_row 7 1, reader_row 5 0]"
  by (simp add: matching_rows_def reader_db_def filters_match_def reader_query_def reader_row_def reader_token)

lemma reader_page: "ListTransfers reader_server reader_query (reader_db, ()) =
   (Inr \<lparr>pg_Transfers = [stored (reader_row 7 2)], pg_NextCursor = Some (TransferCursor 7 2)\<rparr>, (reader_db, ()))"
proof -
  have cursor: "filter (cursor_matches (q_Cursor reader_query)) (matching_rows reader_query reader_db) =
      matching_rows reader_query reader_db" by (simp add: reader_query_def cursor_matches_def)
  have "effective_limit (q_Limit reader_query) = 1" by (simp add: reader_query_def effective_limit_def)
  then show ?thesis
    using ListTransfers_calm [of reader_server "(reader_db, ())" reader_query] cursor
    by (simp add: reader_server_def reader_rows)
      (simp add: reader_db_def reader_row_def reader_query_def page_of_def stored_def uint64_of_def)
qed

theorem ListTransfers_page_witness:
  "\<exists>rows rest. [stored (reader_row 7 2)] = map stored rows \<and> rest \<noteq> [] \<and>
     mset (rows @ rest) = filter_mset (wanted reader_query) (mset (erc20_transfers reader_db))"
proof -
  have ok: "db_ok reader_db" by (simp add: db_ok_def reader_db_def empty_db_def reader_row_def)
  have "\<forall>n i. q_Cursor reader_query = Some (TransferCursor n i) \<longrightarrow> unat n < 2 ^ 63 \<and> unat i < 2 ^ 63"
    by (simp add: reader_query_def)
  from ListTransfers_page [OF reader_page ok this, unfolded Let_def, THEN conjunct2]
  show ?thesis by (elim exE conjE) (rule exI, rule exI, intro conjI; (assumption | force split: if_splits))
qed

text \<open>
  Paging is complete: following the next cursors over an unchanged table returns every
  matching row exactly once, newest first, and ends. It needs the log index to be unique within a
  block height (as on Ethereum), since the cursor is just the pair of both.
\<close>
lemma pagination_complete:
  assumes "\<And>e. pg_statement pool e = (None, e)" and "db_ok d"
    and "\<forall>row \<in> set (erc20_transfers d). 0 \<le> r_log_index row"
    and "distinct (map (\<lambda>row. (r_block_number row, r_log_index row)) (erc20_transfers d))"
    and "q_Cursor query = None"
  shows "read_pages (length (erc20_transfers d) + 1) pool query (d, e) = Some (Inr (map stored (matching_rows query d))) \<and>
    mset (matching_rows query d) = filter_mset (filters_match query) (mset (erc20_transfers d)) \<and>
    sorted_wrt (\<lambda>a b. (r_block_number b, r_log_index b) < (r_block_number a, r_log_index a)) (matching_rows query d)"
proof (intro conjI)
  have ok: "rows_ok (erc20_transfers d)" using assms(2-4) by (rule rows_okI)
  then have keys: "distinct (map page_key (erc20_transfers d))" by (simp add: rows_ok_def)
  have len: "length (matching_rows query d) \<le> length (erc20_transfers d)" by (simp add: matching_rows_def)
  show "read_pages (length (erc20_transfers d) + 1) pool query (d, e) = Some (Inr (map stored (matching_rows query d)))"
    by (rule read_pages_rest [OF assms(1)]) (use ok len at_suffix_start [OF assms(5)] in simp_all)
  show "mset (matching_rows query d) = filter_mset (filters_match query) (mset (erc20_transfers d))"
    by (simp add: matching_rows_def)
  show "sorted_wrt (\<lambda>a b. (r_block_number b, r_log_index b) < (r_block_number a, r_log_index a)) (matching_rows query d)"
    using matching_rows_strict [OF keys, of query] unfolding sorted_wrt_map
    by (rule sorted_wrt_mono_rel [rotated]) auto
qed

lemma pagination_complete_sample:
  "read_pages 4 reader_server reader_query (reader_db, ()) =
     Some (Inr [stored (reader_row 7 2), stored (reader_row 7 1), stored (reader_row 5 0)])"
proof -
  have "db_ok reader_db" by (simp add: db_ok_def reader_db_def empty_db_def reader_row_def)
  from pagination_complete [of reader_server, OF _ this, of reader_query "()"] show ?thesis
    unfolding reader_rows by (simp add: reader_server_def reader_db_def reader_row_def reader_query_def numeral_eq_Suc)
qed

text \<open>
  C22. Paging is exact while the indexer works. Whatever happens to the table between one page and the
  next (blocks added, blocks rolled back), a client that follows the cursors to the end receives rows
  newest first and no position twice, each of them a matching row of a table it was read from, and
  every matching row that was there all along.
\<close>
theorem pagination_while_indexing:
  assumes "\<forall>w \<in> set ws. rows_ok (erc20_transfers (fst w))" and "q_Cursor query = None"
    and "read_changing pool query ws = Some (Inr ts)"
  shows "\<exists>rows. ts = map stored rows \<and>
    sorted_wrt (\<lambda>a b. (r_block_number b, r_log_index b) < (r_block_number a, r_log_index a)) rows \<and>
    (\<forall>row \<in> set rows. filters_match query row \<and> (\<exists>w \<in> set ws. row \<in> set (erc20_transfers (fst w)))) \<and>
    (\<forall>row. filters_match query row \<and> (\<forall>w \<in> set ws. row \<in> set (erc20_transfers (fst w))) \<longrightarrow> row \<in> set rows)"
proof -
  from read_changing_ok [OF assms(3,1)] obtain rows where rows: "ts = map stored rows" "read_ok query (map fst ws) rows"
    by blast
  have "sorted_wrt (\<lambda>a b. (r_block_number b, r_log_index b) < (r_block_number a, r_log_index a)) rows"
    using rows(2) unfolding read_ok_def sorted_wrt_map by (auto elim!: sorted_wrt_mono_rel [rotated])
  with rows assms(2) show ?thesis by (intro exI [of _ rows]) (simp add: read_ok_def cursor_matches_def)
qed

text \<open>Block 9 arrives after the first page, and a row of block 7 is gone before the second.\<close>

definition reader_later :: db where
  "reader_later = empty_db\<lparr>erc20_transfers := [reader_row 5 0, reader_row 7 2, reader_row 9 0]\<rparr>"

lemma reader_changes:
  "read_changing reader_server reader_query [(reader_db, ()), (reader_later, ())] =
     Some (Inr [stored (reader_row 7 2), stored (reader_row 5 0)])"
proof -
  let ?q = "reader_query\<lparr>q_Cursor := Some (TransferCursor 7 2)\<rparr>"
  have rows: "matching_rows reader_query reader_later = [reader_row 9 0, reader_row 7 2, reader_row 5 0]"
    by (simp add: matching_rows_def reader_later_def filters_match_def reader_query_def reader_row_def reader_token)
  have "ListTransfers reader_server ?q (reader_later, ()) =
     (Inr \<lparr>pg_Transfers = [stored (reader_row 5 0)], pg_NextCursor = None\<rparr>, (reader_later, ()))"
    using ListTransfers_calm [of reader_server "(reader_later, ())" ?q]
    by (simp add: reader_server_def rows)
      (simp add: reader_later_def reader_row_def reader_query_def effective_limit_def page_of_def cursor_matches_def int64_of_def)
  then show ?thesis by (simp add: reader_page)
qed

theorem pagination_while_indexing_witness:
  "read_changing reader_server reader_query [(reader_db, ()), (reader_later, ())] =
     Some (Inr [stored (reader_row 7 2), stored (reader_row 5 0)]) \<and>
   (\<exists>rows. [stored (reader_row 7 2), stored (reader_row 5 0)] = map stored rows \<and> reader_row 5 0 \<in> set rows)"
proof -
  have ok: "\<forall>w \<in> set [(reader_db, ()), (reader_later, ())]. rows_ok (erc20_transfers (fst w))"
    by (simp add: rows_ok_def reader_db_def reader_later_def reader_row_def)
  have start: "q_Cursor reader_query = None" by (simp add: reader_query_def)
  obtain rows where rows: "[stored (reader_row 7 2), stored (reader_row 5 0)] = map stored rows"
    "\<forall>row. filters_match reader_query row \<and> (\<forall>w \<in> set [(reader_db, ()), (reader_later, ())]. row \<in> set (erc20_transfers (fst w))) \<longrightarrow>
       row \<in> set rows"
    by (rule exE [OF pagination_while_indexing [OF ok start reader_changes]]) (elim conjE, rule that)
  have "reader_row 5 0 \<in> set rows"
    by (rule rows(2) [rule_format]) (simp add: filters_match_def reader_query_def reader_row_def reader_token reader_db_def reader_later_def)
  with rows(1) reader_changes show ?thesis by (intro conjI exI [of _ rows])
qed

text \<open>
  A cursor whose block number has the top bit set becomes negative in the query, so that the
  page is empty although every stored row lies before that cursor.
\<close>
lemma cursor_above_int64_hides_rows:
  assumes "db_ok d" and "q_Cursor query = Some (TransferCursor n i)" and "2 ^ 63 \<le> unat n"
    and "ListTransfers pool query (d, e) = (Inr page, (d', e'))"
  shows "pg_Transfers page = [] \<and> pg_NextCursor page = None"
proof -
  from assms(3) int64_of_neg_iff [of n] have neg: "int64_of n < 0" by simp
  have "\<not> cursor_matches (q_Cursor query) row" if "row \<in> set (matching_rows query d)" for row
  proof -
    from that assms(1) have "0 \<le> r_block_number row" by (auto simp: matching_rows_def db_ok_def)
    with neg show ?thesis by (simp add: cursor_matches_def assms(2))
  qed
  then have "filter (cursor_matches (q_Cursor query)) (matching_rows query d) = []" by (simp add: filter_empty_conv)
  with ListTransfers_Inr(2) [OF assms(4)] effective_limit_range [of "q_Limit query"] show ?thesis by (simp add: page_of_def)
qed

lemma cursor_above_int64_hides_rows_witness:
  "let query = reader_query\<lparr>q_Cursor := Some (TransferCursor (2 ^ 63) 0)\<rparr>
   in pg_Transfers (projr (fst (ListTransfers reader_server query (reader_db, ())))) = [] \<and>
      matching_rows query reader_db \<noteq> []"
proof -
  let ?q = "reader_query\<lparr>q_Cursor := Some (TransferCursor (2 ^ 63) 0)\<rparr>"
  have ok: "db_ok reader_db" by (simp add: db_ok_def reader_db_def empty_db_def reader_row_def)
  have "\<exists>page. ListTransfers reader_server ?q (reader_db, ()) = (Inr page, (reader_db, ()))"
    using ListTransfers_calm [of reader_server "(reader_db, ())" ?q]
    by (simp add: reader_server_def reader_db_def reader_row_def)
  then obtain page where run: "ListTransfers reader_server ?q (reader_db, ()) = (Inr page, (reader_db, ()))" by blast
  from cursor_above_int64_hides_rows [OF ok _ _ run] run show ?thesis by (simp add: Let_def reader_rows)
qed

end
