(* ===== verification/Http_Paging.thy ===== *)
theory Http_Paging
  imports Http_Api Transfer_Reader Token_Metadata Chain_Persistence
begin

text \<open>
  The transfers endpoint as \<^verbatim>\<open>app.Run\<close> puts it together: the handler of \<^verbatim>\<open>internal/api\<close> over
  \<^verbatim>\<open>PostgresTransferReader\<close> and \<^verbatim>\<open>TokenMetadataService\<close>. The API relies on its reader through a contract,
  the locale \<open>paged_reader\<close>, under which a client that follows \<^verbatim>\<open>nextCursor\<close> receives every matching
  transfer once; the reader over PostgreSQL fulfils it.
\<close>

section \<open>The server and a client of it\<close>

text \<open>The world of the API: the metadata cache, the database and what lies outside.\<close>

type_synonym 'e api_world = "metadata_cache \<times> db \<times> 'e"

definition reader_calls :: "'e postgres \<Rightarrow> TransferQuery \<Rightarrow> 'e api_world \<Rightarrow> TransferPage called \<times> 'e api_world" where
  "reader_calls pool query cw =
     (case cw of (cache, w) \<Rightarrow> (case ListTransfers pool query w of (r, w') \<Rightarrow> (Returned r, (cache, w'))))"

definition metadata_calls :: "(db \<times> 'e) TokenMetadataService \<Rightarrow> Address \<Rightarrow> 'e api_world \<Rightarrow> TokenMetadata called \<times> 'e api_world" where
  "metadata_calls service address cw = (case GetTokenMetadata service address cw of (r, cw') \<Rightarrow> (Returned r, cw'))"

definition app_http_server :: "'e postgres \<Rightarrow> (Address \<Rightarrow> 'e \<Rightarrow> (go_error, TokenMetadata, 'e) outcome) \<Rightarrow> address_codec \<Rightarrow>
    Metrics \<Rightarrow> 'e api_world HTTPServer \<times> Metrics" where
  "app_http_server pool fetch codec metrics =
     (let tokenMetadataStore = \<lparr>LoadTokenMetadata = pg_LoadTokenMetadata pool, SaveTokenMetadata = pg_SaveTokenMetadata pool\<rparr>;
          tokenMetadataService = fst (NewTokenMetadataService (on_env fetch) tokenMetadataStore)
      in NewHTTPServerWithObservability (reader_calls pool) (Some (metadata_calls tokenMetadataService)) codec (Some metrics))"

text \<open>What a client reads in a response: the transfers and the next cursor of a page.\<close>

fun client_page :: "response \<Rightarrow> (json list \<times> string option) option" where
  "client_page r =
     (case (rs_status r, rs_body r) of
        (Some status, [JSONPart (JObject [(_, JArray xs), (_, JObject [_, _, (_, c)])])]) \<Rightarrow>
          (if status = 200 then Some (xs, case c of JString t \<Rightarrow> Some t | _ \<Rightarrow> None) else None)
      | _ \<Rightarrow> None)"

declare client_page.simps [simp del]

definition with_cursor :: "request \<Rightarrow> string \<Rightarrow> request" where
  "with_cursor r c = r\<lparr>rq_Query := (rq_Query r)(''cursor'' := [c])\<rparr>"

text \<open>Request after request with the cursor of the last page, at most \<open>fuel\<close> of them.\<close>

fun http_pages :: "nat \<Rightarrow> 'w http_env \<Rightarrow> 'w HTTPServer \<Rightarrow> request \<Rightarrow> u64 \<Rightarrow> Metrics \<times> 'w \<Rightarrow> json list option" where
  "http_pages 0 env srv r counter s = None"
| "http_pages (Suc fuel) env srv r counter s =
     (case http_Handler env srv r counter (empty_response, s) of
        (p, counter', (resp, s')) \<Rightarrow>
          (case client_page resp of
             None \<Rightarrow> None
           | Some (xs, None) \<Rightarrow> Some xs
           | Some (xs, Some c) \<Rightarrow> map_option (\<lambda>ys. xs @ ys) (http_pages fuel env srv (with_cursor r c) counter' s')))"

section \<open>One page\<close>

text \<open>The rendering of a stored transfer: plain, or with the metadata the provider knew.\<close>

definition renders :: "StoredERC20Transfer \<Rightarrow> json \<Rightarrow> bool" where
  "renders t j \<longleftrightarrow> j = transfer_json (apiTransferFromStored t) \<or>
     (\<exists>md. j = transfer_json (enrichAPITransferWithMetadata (apiTransferFromStored t) t md))"

text \<open>A provider that returns, and sources of randomness and time, that keep to a relation between worlds.\<close>

definition well_behaved :: "('w \<Rightarrow> 'w \<Rightarrow> bool) \<Rightarrow> (Address \<Rightarrow> 'w \<Rightarrow> TokenMetadata called \<times> 'w) option \<Rightarrow> bool" where
  "well_behaved same provider \<longleftrightarrow> (\<forall>lookup token w out w'. provider = Some lookup \<longrightarrow> lookup token w = (out, w') \<longrightarrow>
     (\<exists>r. out = Returned r) \<and> same w w')"

definition keeps :: "('w \<Rightarrow> 'w \<Rightarrow> bool) \<Rightarrow> 'w http_env \<Rightarrow> bool" where
  "keeps same env \<longleftrightarrow> (\<forall>w. same w (snd (rand_Read env w))) \<and> (\<forall>w. same w (snd (UnixNano env w)))"

lemma enrich_renders:
  assumes "well_behaved same provider" "reflp same" "transp same"
  shows "\<exists>ts' m' w'. enrich_transfers provider ts acc (m, w) = (Inr (acc @ ts'), (m', w')) \<and>
     list_all2 renders ts (map transfer_json ts') \<and> same w w'"
proof (induction ts arbitrary: acc m w)
  case Nil
  then show ?case using assms(2) by (auto dest: reflpD)
next
  case (Cons t ts)
  have next_row: "\<exists>ts' m' w'. enrich_transfers provider ts (acc @ [a]) (m1, w1) = (Inr (acc @ ts'), (m', w')) \<and>
      list_all2 renders (t # ts) (map transfer_json ts') \<and> same w w'"
    if "renders t (transfer_json a)" "same w w1" for a m1 w1
  proof -
    from Cons.IH [of "acc @ [a]" m1 w1] obtain ts' m' w' where
      "enrich_transfers provider ts (acc @ [a]) (m1, w1) = (Inr ((acc @ [a]) @ ts'), (m', w'))"
      "list_all2 renders ts (map transfer_json ts')" "same w1 w'" by blast
    with that transpD [OF assms(3)] show ?thesis by (intro exI [of _ "a # ts'"] exI [of _ m'] exI [of _ w']) auto
  qed
  have plain: "renders t (transfer_json (apiTransferFromStored t))"
    "renders t (transfer_json (enrichAPITransferWithMetadata (apiTransferFromStored t) t md))" for md
    by (auto simp: renders_def)
  show ?case
  proof (cases provider)
    case None
    with next_row [OF plain(1) reflpD [OF assms(2)]] show ?thesis by (simp add: Let_def)
  next
    case (Some lookup)
    obtain out w1 where call: "lookup (st_Token t) w = (out, w1)" by (rule prod.exhaust)
    with assms(1) Some obtain r where "out = Returned r" "same w w1" unfolding well_behaved_def by blast
    with next_row [OF plain(1)] next_row [OF plain(2)] Some call show ?thesis by (cases r) (simp_all add: Let_def)
  qed
qed

lemma values_Get_with_cursor [simp]:
  "values_Get (with_cursor r c) k = (if k = ''cursor'' then c else values_Get r k)"
  "values_Get (r\<lparr>rq_requestID := i\<rparr>) k = values_Get r k"
  by (simp_all add: values_Get_def with_cursor_def)

lemma with_cursor_simps [simp]: "rq_Method (with_cursor r c) = rq_Method r" "rq_Path (with_cursor r c) = rq_Path r"
  by (simp_all add: with_cursor_def)

lemma parseTransferQuery_requestID [simp]:
  "parseTransferQuery codec (r\<lparr>rq_requestID := i\<rparr>) = parseTransferQuery codec r"
  by (simp add: parseTransferQuery_def)

lemma parseTransferQuery_with_cursor:
  assumes "parseTransferQuery codec r = Inr q" "DecodeTransferCursor t = Inr c" "t \<noteq> []"
  shows "parseTransferQuery codec (with_cursor r t) = Inr (q\<lparr>q_Cursor := Some c\<rparr>)"
proof -
  from assms(1) obtain q4 where q4: "parse_cursor (values_Get r ''cursor'') q4 = Inr q"
    and parse: "parseTransferQuery codec (with_cursor r t) = parse_cursor t q4"
    by (auto simp add: parseTransferQuery_def Let_def and_then_Inr) (simp add: and_then_def)
  from parse_cursor_Inr [OF q4] obtain x where "q = q4\<lparr>q_Cursor := x\<rparr>" by blast
  with assms(2,3) parse show ?thesis by (simp add: parse_cursor_def)
qed

text \<open>A request for transfers whose query the reader answers with a page.\<close>

definition transfers_query :: "'w HTTPServer \<Rightarrow> request \<Rightarrow> TransferQuery \<Rightarrow> bool" where
  "transfers_query srv r q \<longleftrightarrow>
     rq_Method r = ''GET'' \<and> rq_Path r = ''/transfers'' \<and> parseTransferQuery (srv_codec srv) r = Inr q"

lemma transfers_query_cursor:
  assumes "transfers_query srv r q" "DecodeTransferCursor t = Inr c" "t \<noteq> []"
  shows "transfers_query srv (with_cursor r t) (q\<lparr>q_Cursor := Some c\<rparr>)"
  using assms parseTransferQuery_with_cursor by (simp add: transfers_query_def)

lemma recovery_none: "next r s = (None, s') \<Longrightarrow> recoveryMiddleware next r s = (None, s')"
  by (simp add: recoveryMiddleware_def)

lemma client_page_json:
  "rs_status resp = Some 200 \<Longrightarrow> rs_body resp = [JSONPart (page_json p)] \<Longrightarrow>
   client_page resp = Some (map transfer_json (tp_Data p), ap_NextCursor (tp_Pagination p))"
  by (simp add: client_page.simps page_json_def split: option.split)

lemma handleTransfers_page:
  assumes "transfers_query srv r q" "srv_transferReader srv q w = (Returned (Inr page), w1)"
    and "enrich_transfers (srv_tokenMetadataProvider srv) (pg_Transfers page) [] (m, w1) = (Inr xs, (m2, w2))"
    and "fresh s"
  obtains s' c where "serve_mux srv (r\<lparr>rq_requestID := i\<rparr>) (s, m, w) = (None, (s', m2, w2))"
    "client_page (sr_ResponseWriter s') = Some (map transfer_json xs, c)"
    "map_option DecodeTransferCursor c = map_option Inr (pg_NextCursor page)" "c \<noteq> Some []"
proof -
  obtain c where c: "(case pg_NextCursor page of None \<Rightarrow> Inr None
      | Some cursor \<Rightarrow> (case EncodeTransferCursor cursor of Inl err \<Rightarrow> Inl err | Inr t \<Rightarrow> Inr (Some t))) = Inr c"
    "map_option DecodeTransferCursor c = map_option Inr (pg_NextCursor page)" "c \<noteq> Some []"
  proof (cases "pg_NextCursor page")
    case (Some cursor)
    obtain t where "EncodeTransferCursor cursor = Inr t" "DecodeTransferCursor t = Inr cursor" "t \<noteq> []" by (rule cursor_text)
    with Some show ?thesis by (intro that [of "Some t"]) simp_all
  qed (auto intro: that [of None])
  let ?p = "\<lparr>tp_Data = xs, tp_Pagination = \<lparr>ap_Limit = q_Limit q, ap_HasMore = (pg_NextCursor page \<noteq> None), ap_NextCursor = c\<rparr>\<rparr>"
  let ?s = "writeJSON 200 (page_json ?p) s"
  have "serve_mux srv (r\<lparr>rq_requestID := i\<rparr>) (s, m, w) = (None, (?s, m2, w2))"
    using assms(1-3) c(1) by (simp add: transfers_query_def serve_mux_def handleTransfers_def)
  moreover from writeJSON_answered [OF assms(4), of 200 "page_json ?p"]
  have "client_page (sr_ResponseWriter ?s) = Some (map transfer_json xs, c)"
    by (subst client_page_json [of _ ?p]) (simp_all add: answered_once_def)
  ultimately show thesis using c(2,3) by (rule that)
qed


section \<open>The contract of a transfer reader\<close>

text \<open>
  What the API relies on of \<^verbatim>\<open>TransferReader\<close>. \<open>remaining q w ts\<close> says that in world \<open>w\<close> the query still has
  the transfers \<open>ts\<close> to return: a page returns all of them, or some of them with a cursor for the
  others. \<open>same\<close> relates worlds with the same transfers.
\<close>

locale paged_reader =
  fixes read :: "TransferQuery \<Rightarrow> 'w \<Rightarrow> TransferPage called \<times> 'w"
    and remaining :: "TransferQuery \<Rightarrow> 'w \<Rightarrow> StoredERC20Transfer list \<Rightarrow> bool"
    and same :: "'w \<Rightarrow> 'w \<Rightarrow> bool"
  assumes same_refl: "reflp same" and same_trans: "transp same"
    and remaining_same: "remaining q w ts \<Longrightarrow> same w w' \<Longrightarrow> remaining q w' ts"
    and page: "remaining q w ts \<Longrightarrow> \<exists>k c w'.
      read q w = (Returned (Inr \<lparr>pg_Transfers = take k ts, pg_NextCursor = c\<rparr>), w') \<and> same w w' \<and>
      (case c of None \<Rightarrow> length ts \<le> k | Some c \<Rightarrow> 0 < k \<and> k < length ts \<and> remaining (q\<lparr>q_Cursor := Some c\<rparr>) w' (drop k ts))"
begin

text \<open>The whole handler around one page: identifier and clock keep to \<open>same\<close>.\<close>

lemma handler_page:
  assumes "keeps same env" "well_behaved same (srv_tokenMetadataProvider srv)" "srv_transferReader srv = read"
    and "transfers_query srv r q" "remaining q w ts"
  obtains p n resp m' w' js t k c where
    "http_Handler env srv r counter (empty_response, m, w) = (p, n, (resp, m', w'))" "same w w'"
    "client_page resp = Some (js, t)" "list_all2 renders (take k ts) js"
    "map_option DecodeTransferCursor t = map_option Inr c" "t \<noteq> Some []"
    "case c of None \<Rightarrow> length ts \<le> k | Some c \<Rightarrow> 0 < k \<and> k < length ts \<and> remaining (q\<lparr>q_Cursor := Some c\<rparr>) w' (drop k ts)"
proof -
  note trans = transpD [OF same_trans]
  obtain i n w1 where i: "newRequestID env (counter, w) = (i, n, w1)" by (rule prod_cases3)
  obtain b w2 where b: "UnixNano env w1 = (b, w2)" by (rule prod.exhaust)
  from assms(1) have env: "same v (snd (UnixNano env v))" "same v (snd (rand_Read env v))" for v
    unfolding keeps_def by blast+
  from i have w1: "same w w1" using env(2) [of w] trans [OF env(2) [of w] env(1)]
    by (auto simp: newRequestID_def split: prod.splits option.splits)
  from trans [OF this env(1)] b have w2: "same w w2" by (metis snd_conv)
  from page [OF remaining_same [OF assms(5) w2]] obtain k c w3 where
    p: "read q w2 = (Returned (Inr \<lparr>pg_Transfers = take k ts, pg_NextCursor = c\<rparr>), w3)" "same w2 w3"
    "case c of None \<Rightarrow> length ts \<le> k | Some c \<Rightarrow> 0 < k \<and> k < length ts \<and> remaining (q\<lparr>q_Cursor := Some c\<rparr>) w3 (drop k ts)"
    by blast
  let ?page = "\<lparr>pg_Transfers = take k ts, pg_NextCursor = c\<rparr>"
  let ?s = "\<lparr>sr_status = 200, sr_wroteResponse = False, sr_ResponseWriter = rw_SetHeader ''X-Request-ID'' i empty_response\<rparr>"
  have fresh: "fresh ?s" by (simp add: fresh_def rw_SetHeader_def empty_response_def)
  from enrich_renders [OF assms(2) same_refl same_trans, of "take k ts" "[]" m w3] obtain xs m4 w4 where
    xs: "enrich_transfers (srv_tokenMetadataProvider srv) (pg_Transfers ?page) [] (m, w3) = (Inr xs, (m4, w4))"
    "list_all2 renders (take k ts) (map transfer_json xs)" "same w3 w4" by auto
  obtain s' t where run: "serve_mux srv (r\<lparr>rq_requestID := Some i\<rparr>) (?s, m, w2) = (None, (s', m4, w4))"
    and client: "client_page (sr_ResponseWriter s') = Some (map transfer_json xs, t)"
      "map_option DecodeTransferCursor t = map_option Inr (pg_NextCursor ?page)" "t \<noteq> Some []"
    by (rule handleTransfers_page [OF assms(4) p(1) [folded assms(3)] xs(1) fresh])
  obtain f w5 where f: "UnixNano env w4 = (f, w5)" by (rule prod.exhaust)
  have out: "http_Handler env srv r counter (empty_response, m, w) =
      (None, n, (sr_ResponseWriter s', ObserveHTTPRequest (sr_status s') (f - b) m4, w5))"
    using i b f recovery_none [of "serve_mux srv", OF run]
    by (simp add: http_Handler_def requestIDMiddleware_def observabilityMiddleware_def)
  have w5: "same w3 w5" using trans [OF xs(3) env(1) [of w4]] f by simp
  have "same w w5" using trans [OF trans [OF w2 p(2)] w5] .
  moreover have "case c of None \<Rightarrow> length ts \<le> k
      | Some c \<Rightarrow> 0 < k \<and> k < length ts \<and> remaining (q\<lparr>q_Cursor := Some c\<rparr>) w5 (drop k ts)"
    using p(3) remaining_same [OF _ w5] by (auto split: option.splits)
  ultimately show thesis using out client xs(2) by (intro that [of None n _ _ w5 _ t k c]) simp_all
qed

lemma http_pages_remaining:
  assumes "keeps same env" "well_behaved same (srv_tokenMetadataProvider srv)" "srv_transferReader srv = read"
    and "transfers_query srv r q" "remaining q w ts" "length ts < fuel"
  shows "\<exists>js. http_pages fuel env srv r counter (m, w) = Some js \<and> list_all2 renders ts js"
  using assms(4-6)
proof (induction fuel arbitrary: r q ts w m counter)
  case (Suc fuel)
  obtain p n resp m' w' js t k c where
    out: "http_Handler env srv r counter (empty_response, m, w) = (p, n, (resp, m', w'))"
    and client: "client_page resp = Some (js, t)" "list_all2 renders (take k ts) js"
      "map_option DecodeTransferCursor t = map_option Inr c" "t \<noteq> Some []"
    and rest: "case c of None \<Rightarrow> length ts \<le> k
      | Some c \<Rightarrow> 0 < k \<and> k < length ts \<and> remaining (q\<lparr>q_Cursor := Some c\<rparr>) w' (drop k ts)"
    by (rule handler_page [OF assms(1-3) Suc.prems(1,2)])
  show ?case
  proof (cases c)
    case None
    with client(3) rest have "t = None" "take k ts = ts" by simp_all
    with out client show ?thesis by simp
  next
    case (Some cursor)
    with client(3,4) obtain x where x: "t = Some x" "DecodeTransferCursor x = Inr cursor" "x \<noteq> []" by auto
    from rest Some have more: "remaining (q\<lparr>q_Cursor := Some cursor\<rparr>) w' (drop k ts)" "length (drop k ts) < fuel"
      using Suc.prems(3) by auto
    from Suc.IH [OF transfers_query_cursor [OF Suc.prems(1) x(2,3)] more] obtain ys where
      ys: "http_pages fuel env srv (with_cursor r x) n (m', w') = Some ys" "list_all2 renders (drop k ts) ys" by blast
    from list_all2_appendI [OF client(2) ys(2)] have "list_all2 renders ts (js @ ys)" by simp
    with out client(1) x(1) ys(1) show ?thesis by auto
  qed
qed simp

end

section \<open>The reader over PostgreSQL\<close>

definition pg_remaining :: "'e postgres \<Rightarrow> TransferQuery \<Rightarrow> 'e api_world \<Rightarrow> StoredERC20Transfer list \<Rightarrow> bool" where
  "pg_remaining pool q cw ts \<longleftrightarrow> (\<forall>e. pg_statement pool e = (None, e)) \<and> rows_ok (erc20_transfers (fst (snd cw))) \<and>
     (\<exists>rest. at_suffix q (fst (snd cw)) rest \<and> ts = map stored rest)"

definition same_transfers :: "'e api_world \<Rightarrow> 'e api_world \<Rightarrow> bool" where
  "same_transfers cw cw' \<longleftrightarrow> erc20_transfers (fst (snd cw')) = erc20_transfers (fst (snd cw))"

lemma at_suffix_db: "erc20_transfers d = erc20_transfers d' \<Longrightarrow> at_suffix q d rest \<longleftrightarrow> at_suffix q d' rest"
  by (simp add: at_suffix_def matching_rows_def)

lemma reader_calls_page:
  assumes "pg_remaining pool q w ts"
  shows "\<exists>k c w'. reader_calls pool q w = (Returned (Inr \<lparr>pg_Transfers = take k ts, pg_NextCursor = c\<rparr>), w') \<and> same_transfers w w' \<and>
      (case c of None \<Rightarrow> length ts \<le> k | Some c \<Rightarrow> 0 < k \<and> k < length ts \<and> pg_remaining pool (q\<lparr>q_Cursor := Some c\<rparr>) w' (drop k ts))"
proof -
  obtain cache d e where w: "w = (cache, d, e)" by (rule prod_cases3)
  from assms w obtain rest where calm: "\<And>e. pg_statement pool e = (None, e)" and ok: "rows_ok (erc20_transfers d)"
    and rest: "at_suffix q d rest" "ts = map stored rest" by (auto simp: pg_remaining_def)
  from calm ok rest(1) show ?thesis
  proof (cases rule: ListTransfers_step)
    case 1
    then show ?thesis
      by (intro exI [of _ "length ts"] exI [of _ None] exI [of _ w]) (simp add: w reader_calls_def rest(2) same_transfers_def)
  next
    case (2 k c)
    then show ?thesis using calm ok
      by (intro exI [of _ k] exI [of _ "Some c"] exI [of _ w])
        (auto simp: w reader_calls_def rest(2) same_transfers_def pg_remaining_def take_map drop_map)
  qed
qed

lemma same_transfers_order: "reflp same_transfers" "transp same_transfers"
  by (auto simp: same_transfers_def intro!: reflpI transpI)

interpretation pg_pages: paged_reader "reader_calls pool" "pg_remaining pool" same_transfers
  for pool :: "'e postgres"
proof unfold_locales
  show "pg_remaining pool q w' ts" if "pg_remaining pool q w ts" "same_transfers w w'" for q w ts w'
    using that at_suffix_db [of "fst (snd w')" "fst (snd w)"] by (auto simp: pg_remaining_def same_transfers_def)
qed (rule same_transfers_order reader_calls_page; assumption?)+

text \<open>The metadata service touches no transfer.\<close>

lemma pg_SaveTokenMetadata_transfers:
  assumes "pg_SaveTokenMetadata pool m w = (r, w')"
  shows "erc20_transfers (fst w') = erc20_transfers (fst w)"
proof -
  let ?stmt = "sql_upsert_metadata (normalizeMetadataAddress (md_Address m)) (md_Name m) (md_Symbol m) (uint (md_Decimals m))"
  from assms obtain r0 where "run_auto pool ?stmt w = (r0, w')"
    by (auto simp: pg_SaveTokenMetadata_def split: prod.splits sum.splits)
  then show ?thesis by (cases rule: run_auto_cases) (auto simp: sql_upsert_metadata_def)
qed

lemma metadata_calls_well_behaved:
  "well_behaved same_transfers (srv_tokenMetadataProvider (fst (app_http_server pool fetch codec metrics)))"
proof -
  let ?s = "fst (NewTokenMetadataService (on_env fetch)
      \<lparr>LoadTokenMetadata = pg_LoadTokenMetadata pool, SaveTokenMetadata = pg_SaveTokenMetadata pool\<rparr>)"
  have "same_transfers w w'" if "GetTokenMetadata ?s token w = (r, w')" for token w r w'
    using that
    by (auto simp: GetTokenMetadata_def NewTokenMetadataService_def same_transfers_def Let_def
        split: prod.splits option.splits sum.splits
        dest!: pg_LoadTokenMetadata_frame pg_SaveTokenMetadata_transfers on_env_frame)
  then show ?thesis
    by (auto simp: well_behaved_def metadata_calls_def app_http_server_def NewHTTPServerWithObservability_def
        split: prod.splits)
qed

text \<open>
  C5. Paging through the public API is complete: a client that asks the application's server for
  transfers and then follows \<^verbatim>\<open>nextCursor\<close> receives every matching row exactly once, newest first, and
  comes to an end, whatever limit it asked for and whether or not token metadata could be looked up
  or stored. It rests on the reader's pages, on the text form of cursors and on query parsing
  together. The database answers, no transfers are written meanwhile, and log indices are unique within a
  block height.
\<close>
theorem http_pagination_complete:
  assumes "keeps same_transfers env" and "srv = fst (app_http_server pool fetch codec metrics)"
    and "\<And>e. pg_statement pool e = (None, e)" and "db_ok d"
    and "\<forall>row \<in> set (erc20_transfers d). 0 \<le> r_log_index row"
    and "distinct (map (\<lambda>row. (r_block_number row, r_log_index row)) (erc20_transfers d))"
    and "transfers_query srv r q" "q_Cursor q = None"
  shows "\<exists>js. http_pages (length (erc20_transfers d) + 1) env srv r counter (m, (cache, (d, e))) = Some js \<and>
    list_all2 renders (map stored (matching_rows q d)) js"
proof -
  have len: "length (map stored (matching_rows q d)) < length (erc20_transfers d) + 1"
    by (simp add: matching_rows_def less_Suc_eq_le)
  have provider: "well_behaved same_transfers (srv_tokenMetadataProvider srv)"
    unfolding assms(2) by (rule metadata_calls_well_behaved)
  have reader: "srv_transferReader srv = reader_calls pool"
    by (simp add: assms(2) app_http_server_def NewHTTPServerWithObservability_def Let_def)
  have "pg_remaining pool q (cache, (d, e)) (map stored (matching_rows q d))"
    using assms(3) rows_okI [OF assms(4-6)] at_suffix_start [OF assms(8)] by (auto simp: pg_remaining_def)
  from pg_pages.http_pages_remaining [OF assms(1) provider reader assms(7) this len] show ?thesis .
qed

definition paging_env :: "unit api_world http_env" where
  "paging_env = \<lparr>rand_Read = (\<lambda>w. (Some (replicate 16 0), w)), UnixNano = (\<lambda>w. (0, w))\<rparr>"

definition paging_server :: "unit api_world HTTPServer" where
  "paging_server = fst (app_http_server reader_server (\<lambda>token w. (Inl (Sentinel EthereumNotFound), w))
     \<lparr>ac_IsHexAddress = (\<lambda>s. True), ac_Canonical = (\<lambda>s. s)\<rparr> NewMetrics)"

definition paging_request :: request where
  "paging_request = \<lparr>rq_Method = ''GET'', rq_Path = ''/transfers'',
     rq_Query = (\<lambda>k. [])(''limit'' := [''1''], ''token'' := [''t'']), rq_requestID = None\<rparr>"

lemma paging_query: "transfers_query paging_server paging_request reader_query"
proof -
  have "parseTransferQuery (srv_codec paging_server) paging_request = Inr reader_query" by code_simp
  then show ?thesis by (simp add: transfers_query_def paging_request_def)
qed

theorem http_pagination_complete_witness:
  "\<exists>js. http_pages 4 paging_env paging_server paging_request 0 (NewMetrics, (Map.empty, (reader_db, ()))) = Some js \<and>
     list_all2 renders [stored (reader_row 7 2), stored (reader_row 7 1), stored (reader_row 5 0)] js"
proof -
  have env: "keeps same_transfers paging_env" by (simp add: keeps_def same_transfers_def paging_env_def)
  have calm: "pg_statement reader_server e = (None, e)" for e by (simp add: reader_server_def)
  have rows: "db_ok reader_db" "\<forall>row \<in> set (erc20_transfers reader_db). 0 \<le> r_log_index row"
    "distinct (map (\<lambda>row. (r_block_number row, r_log_index row)) (erc20_transfers reader_db))"
    "length (erc20_transfers reader_db) + 1 = 4"
    by (simp_all add: db_ok_def reader_db_def empty_db_def reader_row_def)
  have first: "q_Cursor reader_query = None" by (simp add: reader_query_def)
  from http_pagination_complete [OF env paging_server_def calm rows(1-3) paging_query first, of 0 NewMetrics Map.empty "()"]
  show ?thesis unfolding reader_rows rows(4) by simp
qed

end
