(* ===== verification/Configuration.thy ===== *)
theory Configuration
  imports Go_Text
begin

text \<open>
  \<^verbatim>\<open>internal/config/config.go\<close>: reading the settings from the environment, their defaults and their
  validation. The environment is a map from names to values; durations are nanoseconds.
\<close>

section \<open>Settings\<close>

record Config =
  cf_EthereumRPCURL :: string
  cf_DatabaseURL :: string
  cf_HTTPAddress :: string
  cf_ProfilingAddress :: string
  cf_WorkerCount :: int
  cf_PollInterval :: int
  cf_ShutdownTimeout :: int
  cf_ReadHeaderTimeout :: int
  cf_ReadTimeout :: int
  cf_WriteTimeout :: int
  cf_IdleTimeout :: int
  cf_ConfirmationDepth :: u64
  cf_MaxReorgDepth :: u64
  cf_RPCMaxAttempts :: int
  cf_RPCInitialBackoff :: int
  cf_RPCMaxBackoff :: int
  cf_RPCRequestsPerSecond :: int
  cf_RPCBurst :: int

record RPCConfig =
  rp_MaxAttempts :: int
  rp_InitialBackoff :: int
  rp_MaxBackoff :: int
  rp_JitterFraction :: float64
  rp_RequestsPerSecond :: int
  rp_Burst :: int

definition RPCConfig_Validate :: "RPCConfig \<Rightarrow> go_error option" where
  "RPCConfig_Validate c =
     (if rp_MaxAttempts c \<le> 0 then Some (Anonymous ''RPC max attempts must be greater than zero'')
      else if rp_InitialBackoff c \<le> 0 then Some (Anonymous ''RPC initial backoff must be greater than zero'')
      else if rp_MaxBackoff c < rp_InitialBackoff c then
        Some (Anonymous ''RPC max backoff must be at least the initial backoff'')
      else if f_less (rp_JitterFraction c) (Finite 0) \<or> f_less (Finite 1) (rp_JitterFraction c) then
        Some (Anonymous ''RPC jitter fraction must be between zero and one'')
      else if rp_RequestsPerSecond c \<le> 0 then Some (Anonymous ''RPC requests per second must be greater than zero'')
      else if rp_Burst c \<le> 0 then Some (Anonymous ''RPC burst must be greater than zero'')
      else None)"

text \<open>The constant \<open>0.2\<close> is the nearest \<^verbatim>\<open>float64\<close>.\<close>

definition Config_RPCConfig :: "Config \<Rightarrow> RPCConfig" where
  "Config_RPCConfig c =
     \<lparr>rp_MaxAttempts = cf_RPCMaxAttempts c, rp_InitialBackoff = cf_RPCInitialBackoff c, rp_MaxBackoff = cf_RPCMaxBackoff c,
      rp_JitterFraction = round64 (1 / 5), rp_RequestsPerSecond = cf_RPCRequestsPerSecond c, rp_Burst = cf_RPCBurst c\<rparr>"

definition validateProfilingAddress :: "string \<Rightarrow> go_error option" where
  "validateProfilingAddress address =
     (case net_SplitHostPort address of
        Inl err \<Rightarrow> Some (Wrapf ''parse profiling address'' err)
      | Inr (host, port) \<Rightarrow>
          if host = [] then Some (Anonymous ''profiling address must specify a loopback host'')
          else
            (case strconv_Atoi port of
               Inl _ \<Rightarrow> Some (Anonymous ''profiling address must specify a numeric port between 1 and 65535'')
             | Inr portNumber \<Rightarrow>
                 if portNumber < 1 \<or> 65535 < portNumber then
                   Some (Anonymous ''profiling address must specify a numeric port between 1 and 65535'')
                 else if EqualFold_localhost host then None
                 else
                   (case net_ParseIP host of
                      None \<Rightarrow> Some (Anonymous ''profiling address must use a loopback host'')
                    | Some ip \<Rightarrow>
                        if IsLoopback ip then None
                        else Some (Anonymous ''profiling address must use a loopback host''))))"

definition config_invalid :: "string \<Rightarrow> go_error" where
  "config_invalid why = NewDomainError (Some (Sentinel ErrValidation)) ''validate configuration'' (Some (Anonymous why))"

definition Config_Validate :: "Config \<Rightarrow> go_error option" where
  "Config_Validate c =
     (if TrimSpace (cf_EthereumRPCURL c) = [] then Some (config_invalid ''ETH_RPC_URL is required'')
      else if TrimSpace (cf_DatabaseURL c) = [] then Some (config_invalid ''DATABASE_URL is required'')
      else if TrimSpace (cf_HTTPAddress c) = [] then Some (config_invalid ''HTTP_ADDRESS must not be empty'')
      else if cf_WorkerCount c \<le> 0 then Some (config_invalid ''WORKER_COUNT must be greater than zero'')
      else if cf_PollInterval c \<le> 0 then Some (config_invalid ''POLL_INTERVAL must be greater than zero'')
      else if cf_ShutdownTimeout c \<le> 0 then Some (config_invalid ''SHUTDOWN_TIMEOUT must be greater than zero'')
      else if cf_ReadHeaderTimeout c \<le> 0 then Some (config_invalid ''READ_HEADER_TIMEOUT must be greater than zero'')
      else if cf_ReadTimeout c \<le> 0 then Some (config_invalid ''READ_TIMEOUT must be greater than zero'')
      else if cf_WriteTimeout c \<le> 0 then Some (config_invalid ''WRITE_TIMEOUT must be greater than zero'')
      else if cf_IdleTimeout c \<le> 0 then Some (config_invalid ''IDLE_TIMEOUT must be greater than zero'')
      else if cf_MaxReorgDepth c = 0 then Some (config_invalid ''MAX_REORG_DEPTH must be greater than zero'')
      else
        (case (if cf_ProfilingAddress c \<noteq> [] then validateProfilingAddress (cf_ProfilingAddress c) else None) of
           Some err \<Rightarrow> Some (NewDomainError (Some (Sentinel ErrValidation)) ''validate PPROF_ADDRESS'' (Some err))
         | None \<Rightarrow>
             (case RPCConfig_Validate (Config_RPCConfig c) of
                Some err \<Rightarrow>
                  Some (NewDomainError (Some (Sentinel ErrValidation)) ''validate RPC resilience configuration'' (Some err))
              | None \<Rightarrow> None)))"

section \<open>Reading the environment\<close>

type_synonym environmentLookup = "string \<rightharpoonup> string"

text \<open>A variable that is unset or blank counts as absent.\<close>

definition optionalEnvironment :: "environmentLookup \<Rightarrow> string \<Rightarrow> string option" where
  "optionalEnvironment lookup name =
     (case lookup name of
        None \<Rightarrow> None
      | Some value \<Rightarrow> let value = TrimSpace value in if value \<noteq> [] then Some value else None)"

definition requiredEnvironment :: "environmentLookup \<Rightarrow> string \<Rightarrow> go_error + string" where
  "requiredEnvironment lookup name =
     (case optionalEnvironment lookup name of
        None \<Rightarrow> Inl (config_invalid (name @ '' is required''))
      | Some value \<Rightarrow> Inr value)"

text \<open>The three typed readers differ in the parser.\<close>

definition parsedEnvironment :: "(string \<Rightarrow> go_error + 'a) \<Rightarrow> environmentLookup \<Rightarrow> string \<Rightarrow> 'a \<Rightarrow> go_error + 'a" where
  "parsedEnvironment parse lookup name defaultValue =
     (case optionalEnvironment lookup name of
        None \<Rightarrow> Inr defaultValue
      | Some value \<Rightarrow>
          (case parse value of
             Inl err \<Rightarrow> Inl (NewDomainError (Some (Sentinel ErrValidation)) (''parse '' @ name) (Some err))
           | Inr parsed \<Rightarrow> Inr parsed))"

definition intEnvironment :: "environmentLookup \<Rightarrow> string \<Rightarrow> int \<Rightarrow> go_error + int" where
  "intEnvironment = parsedEnvironment strconv_Atoi"

definition uint64Environment :: "environmentLookup \<Rightarrow> string \<Rightarrow> u64 \<Rightarrow> go_error + u64" where
  "uint64Environment = parsedEnvironment strconv_ParseUint64"

definition durationEnvironment :: "environmentLookup \<Rightarrow> string \<Rightarrow> int \<Rightarrow> go_error + int" where
  "durationEnvironment = parsedEnvironment time_ParseDuration"

definition default_config :: Config where
  "default_config =
     \<lparr>cf_EthereumRPCURL = [], cf_DatabaseURL = [], cf_HTTPAddress = '':8080'', cf_ProfilingAddress = [],
      cf_WorkerCount = 3, cf_PollInterval = 4000000000, cf_ShutdownTimeout = 5000000000, cf_ReadHeaderTimeout = 5000000000,
      cf_ReadTimeout = 15000000000, cf_WriteTimeout = 30000000000, cf_IdleTimeout = 60000000000, cf_ConfirmationDepth = 12,
      cf_MaxReorgDepth = 64, cf_RPCMaxAttempts = 4, cf_RPCInitialBackoff = 200000000, cf_RPCMaxBackoff = 3000000000,
      cf_RPCRequestsPerSecond = 20, cf_RPCBurst = 10\<rparr>"

text \<open>The assignments of \<^verbatim>\<open>loadConfig\<close> in order: each sets one field or ends with its error.\<close>

definition set_field :: "('a \<Rightarrow> Config \<Rightarrow> Config) \<Rightarrow> go_error + 'a \<Rightarrow> Config \<Rightarrow> go_error + Config" where
  "set_field assign value c = (case value of Inl err \<Rightarrow> Inl err | Inr x \<Rightarrow> Inr (assign x c))"

fun run_assignments :: "(Config \<Rightarrow> go_error + Config) list \<Rightarrow> Config \<Rightarrow> go_error + Config" where
  "run_assignments [] c = Inr c"
| "run_assignments (a # as) c = (case a c of Inl err \<Rightarrow> Inl err | Inr c' \<Rightarrow> run_assignments as c')"

definition config_assignments :: "environmentLookup \<Rightarrow> (Config \<Rightarrow> go_error + Config) list" where
  "config_assignments lookup =
       [\<lambda>c. set_field (\<lambda>x c. c\<lparr>cf_EthereumRPCURL := x\<rparr>) (requiredEnvironment lookup ''ETH_RPC_URL'') c,
        \<lambda>c. set_field (\<lambda>x c. c\<lparr>cf_DatabaseURL := x\<rparr>) (requiredEnvironment lookup ''DATABASE_URL'') c,
        \<lambda>c. set_field (\<lambda>x c. c\<lparr>cf_HTTPAddress := x\<rparr>) (Inr (case optionalEnvironment lookup ''HTTP_ADDRESS'' of None \<Rightarrow> cf_HTTPAddress c | Some value \<Rightarrow> value)) c,
        \<lambda>c. set_field (\<lambda>x c. c\<lparr>cf_ProfilingAddress := x\<rparr>) (Inr (case optionalEnvironment lookup ''PPROF_ADDRESS'' of None \<Rightarrow> cf_ProfilingAddress c | Some value \<Rightarrow> value)) c,
        \<lambda>c. set_field (\<lambda>x c. c\<lparr>cf_WorkerCount := x\<rparr>) (intEnvironment lookup ''WORKER_COUNT'' (cf_WorkerCount c)) c,
        \<lambda>c. set_field (\<lambda>x c. c\<lparr>cf_PollInterval := x\<rparr>) (durationEnvironment lookup ''POLL_INTERVAL'' (cf_PollInterval c)) c,
        \<lambda>c. set_field (\<lambda>x c. c\<lparr>cf_ShutdownTimeout := x\<rparr>) (durationEnvironment lookup ''SHUTDOWN_TIMEOUT'' (cf_ShutdownTimeout c)) c,
        \<lambda>c. set_field (\<lambda>x c. c\<lparr>cf_ReadHeaderTimeout := x\<rparr>) (durationEnvironment lookup ''READ_HEADER_TIMEOUT'' (cf_ReadHeaderTimeout c)) c,
        \<lambda>c. set_field (\<lambda>x c. c\<lparr>cf_ReadTimeout := x\<rparr>) (durationEnvironment lookup ''READ_TIMEOUT'' (cf_ReadTimeout c)) c,
        \<lambda>c. set_field (\<lambda>x c. c\<lparr>cf_WriteTimeout := x\<rparr>) (durationEnvironment lookup ''WRITE_TIMEOUT'' (cf_WriteTimeout c)) c,
        \<lambda>c. set_field (\<lambda>x c. c\<lparr>cf_IdleTimeout := x\<rparr>) (durationEnvironment lookup ''IDLE_TIMEOUT'' (cf_IdleTimeout c)) c,
        \<lambda>c. set_field (\<lambda>x c. c\<lparr>cf_ConfirmationDepth := x\<rparr>) (uint64Environment lookup ''CONFIRMATION_DEPTH'' (cf_ConfirmationDepth c)) c,
        \<lambda>c. set_field (\<lambda>x c. c\<lparr>cf_MaxReorgDepth := x\<rparr>) (uint64Environment lookup ''MAX_REORG_DEPTH'' (cf_MaxReorgDepth c)) c,
        \<lambda>c. set_field (\<lambda>x c. c\<lparr>cf_RPCMaxAttempts := x\<rparr>) (intEnvironment lookup ''RPC_MAX_ATTEMPTS'' (cf_RPCMaxAttempts c)) c,
        \<lambda>c. set_field (\<lambda>x c. c\<lparr>cf_RPCInitialBackoff := x\<rparr>) (durationEnvironment lookup ''RPC_INITIAL_BACKOFF'' (cf_RPCInitialBackoff c)) c,
        \<lambda>c. set_field (\<lambda>x c. c\<lparr>cf_RPCMaxBackoff := x\<rparr>) (durationEnvironment lookup ''RPC_MAX_BACKOFF'' (cf_RPCMaxBackoff c)) c,
        \<lambda>c. set_field (\<lambda>x c. c\<lparr>cf_RPCRequestsPerSecond := x\<rparr>) (intEnvironment lookup ''RPC_REQUESTS_PER_SECOND'' (cf_RPCRequestsPerSecond c)) c,
        \<lambda>c. set_field (\<lambda>x c. c\<lparr>cf_RPCBurst := x\<rparr>) (intEnvironment lookup ''RPC_BURST'' (cf_RPCBurst c)) c]"

definition loadConfig :: "environmentLookup option \<Rightarrow> go_error + Config" where
  "loadConfig lookup =
     (case lookup of
        None \<Rightarrow> Inl (Anonymous ''environment lookup is required'')
      | Some env \<Rightarrow>
          (case run_assignments (config_assignments env) default_config of
             Inl err \<Rightarrow> Inl err
           | Inr config \<Rightarrow> (case Config_Validate config of Some err \<Rightarrow> Inl err | None \<Rightarrow> Inr config)))"

definition LoadConfig :: "environmentLookup \<Rightarrow> go_error + Config" where
  "LoadConfig env =
     (case loadConfig (Some env) of
        Inl err \<Rightarrow> Inl (NewDomainError (Some (Sentinel ErrConfiguration)) ''load environment configuration'' (Some err))
      | Inr config \<Rightarrow> Inr config)"

section \<open>Well-formed configurations\<close>

text \<open>The values Go's types allow: every integer and duration is an \<^verbatim>\<open>int64\<close>.\<close>

definition is_int64 :: "int \<Rightarrow> bool" where
  "is_int64 i \<longleftrightarrow> - (2 ^ 63) \<le> i \<and> i < 2 ^ 63"

definition config_int64 :: "Config \<Rightarrow> bool" where
  "config_int64 c \<longleftrightarrow>
     list_all is_int64
       [cf_WorkerCount c, cf_PollInterval c, cf_ShutdownTimeout c, cf_ReadHeaderTimeout c, cf_ReadTimeout c, cf_WriteTimeout c,
        cf_IdleTimeout c, cf_RPCMaxAttempts c, cf_RPCInitialBackoff c, cf_RPCMaxBackoff c, cf_RPCRequestsPerSecond c, cf_RPCBurst c]"

definition loopback_address :: "string \<Rightarrow> bool" where
  "loopback_address address \<longleftrightarrow>
     (\<exists>host port n. net_SplitHostPort address = Inr (host, port) \<and> strconv_Atoi port = Inr n \<and> 1 \<le> n \<and> n \<le> 65535 \<and>
        (EqualFold_localhost host \<or> (\<exists>ip. net_ParseIP host = Some ip \<and> IsLoopback ip)))"

text \<open>What the rest of the program relies on.\<close>

definition config_ok :: "Config \<Rightarrow> bool" where
  "config_ok c \<longleftrightarrow>
     cf_EthereumRPCURL c \<noteq> [] \<and> cf_DatabaseURL c \<noteq> [] \<and> cf_HTTPAddress c \<noteq> [] \<and>
     list_all (\<lambda>i. 0 < i \<and> i < 2 ^ 63)
       [cf_WorkerCount c, cf_PollInterval c, cf_ShutdownTimeout c, cf_ReadHeaderTimeout c, cf_ReadTimeout c, cf_WriteTimeout c,
        cf_IdleTimeout c, cf_RPCMaxAttempts c, cf_RPCInitialBackoff c, cf_RPCMaxBackoff c, cf_RPCRequestsPerSecond c, cf_RPCBurst c] \<and>
     cf_RPCInitialBackoff c \<le> cf_RPCMaxBackoff c \<and> cf_MaxReorgDepth c \<noteq> 0 \<and>
     (cf_ProfilingAddress c \<noteq> [] \<longrightarrow> loopback_address (cf_ProfilingAddress c))"

lemma validateProfilingAddress_None: "validateProfilingAddress a = None \<Longrightarrow> loopback_address a"
  by (auto simp: validateProfilingAddress_def loopback_address_def split: sum.splits if_splits option.splits)

lemma RPCConfig_Validate_None:
  "RPCConfig_Validate (Config_RPCConfig c) = None \<Longrightarrow>
     0 < cf_RPCMaxAttempts c \<and> 0 < cf_RPCInitialBackoff c \<and> cf_RPCInitialBackoff c \<le> cf_RPCMaxBackoff c \<and>
     0 < cf_RPCRequestsPerSecond c \<and> 0 < cf_RPCBurst c"
  by (auto simp: RPCConfig_Validate_def Config_RPCConfig_def split: if_splits)

lemma Config_Validate_None:
  assumes "Config_Validate c = None" "config_int64 c"
  shows "config_ok c"
proof -
  have rest: "(if cf_ProfilingAddress c \<noteq> [] then validateProfilingAddress (cf_ProfilingAddress c) else None) = None"
    "RPCConfig_Validate (Config_RPCConfig c) = None"
    using assms(1) by (auto simp: Config_Validate_def split: if_splits option.splits)
  have "cf_EthereumRPCURL c \<noteq> []" "cf_DatabaseURL c \<noteq> []" "cf_HTTPAddress c \<noteq> []" "0 < cf_WorkerCount c"
    "0 < cf_PollInterval c" "0 < cf_ShutdownTimeout c" "0 < cf_ReadHeaderTimeout c" "0 < cf_ReadTimeout c"
    "0 < cf_WriteTimeout c" "0 < cf_IdleTimeout c" "cf_MaxReorgDepth c \<noteq> 0"
    using assms(1) by (auto simp: Config_Validate_def split: if_splits)
  with assms(2) rest(1) RPCConfig_Validate_None [OF rest(2)] show ?thesis
    by (simp add: config_ok_def config_int64_def is_int64_def validateProfilingAddress_None split: if_splits)
qed

lemma Config_Validate_Some: "Config_Validate c = Some err \<Longrightarrow> errors_is err ErrValidation"
  by (auto simp: Config_Validate_def config_invalid_def NewDomainError_def split: if_splits option.splits)

lemma parsedEnvironment_Inr:
  "parsedEnvironment parse lookup name d = Inr x \<Longrightarrow> x = d \<or> (\<exists>s. parse s = Inr x)"
  by (auto simp: parsedEnvironment_def split: option.splits sum.splits)

lemma environment_range:
  "intEnvironment lookup name d = Inr i \<Longrightarrow> is_int64 d \<Longrightarrow> is_int64 i"
  "durationEnvironment lookup name d = Inr i \<Longrightarrow> is_int64 d \<Longrightarrow> is_int64 i"
  unfolding intEnvironment_def durationEnvironment_def is_int64_def
  by (blast dest: parsedEnvironment_Inr strconv_Atoi_range time_ParseDuration_range)+

lemma environment_error:
  "requiredEnvironment lookup name = Inl err \<Longrightarrow> errors_is err ErrValidation"
  "parsedEnvironment parse lookup name d = Inl err \<Longrightarrow> errors_is err ErrValidation"
  by (auto simp: requiredEnvironment_def parsedEnvironment_def config_invalid_def NewDomainError_def
      split: option.splits sum.splits)

lemma run_assignments_keeps:
  assumes "run_assignments as c = Inr c'" "P c" "\<forall>a \<in> set as. \<forall>c c'. a c = Inr c' \<longrightarrow> P c \<longrightarrow> P c'"
  shows "P c'"
  using assms by (induction as arbitrary: c) (auto split: sum.splits)

lemma run_assignments_error:
  "run_assignments as c = Inl err \<Longrightarrow> \<exists>a \<in> set as. \<exists>c. a c = Inl err"
  by (induction as arbitrary: c) (auto split: sum.splits)

text \<open>Every assignment keeps the ranges and fails with a validation error only.\<close>

definition assignment_ok :: "(Config \<Rightarrow> go_error + Config) \<Rightarrow> bool" where
  "assignment_ok a \<longleftrightarrow> (\<forall>c. case a c of Inl err \<Rightarrow> errors_is err ErrValidation | Inr c' \<Rightarrow> config_int64 c \<longrightarrow> config_int64 c')"

lemma assignment_okI:
  assumes "\<And>c err. r c = Inl err \<Longrightarrow> errors_is err ErrValidation"
    and "\<And>c x. r c = Inr x \<Longrightarrow> config_int64 c \<Longrightarrow> config_int64 (assign x c)"
  shows "assignment_ok (\<lambda>c. set_field assign (r c) c)"
  using assms by (auto simp: assignment_ok_def set_field_def split: sum.split)

lemma assignment_okD:
  assumes "list_all assignment_ok as" "a \<in> set as"
  shows "a c = Inl err \<Longrightarrow> errors_is err ErrValidation" "a c = Inr c' \<Longrightarrow> config_int64 c \<Longrightarrow> config_int64 c'"
proof -
  from assms have "case a c of Inl err \<Rightarrow> errors_is err ErrValidation | Inr c' \<Rightarrow> config_int64 c \<longrightarrow> config_int64 c'"
    unfolding list_all_iff assignment_ok_def by blast
  then show "a c = Inl err \<Longrightarrow> errors_is err ErrValidation" "a c = Inr c' \<Longrightarrow> config_int64 c \<Longrightarrow> config_int64 c'" by simp_all
qed

lemma config_assignments_ok: "list_all assignment_ok (config_assignments env)"
  unfolding config_assignments_def list.pred_inject
  by (intro conjI list.pred_inject(1); rule assignment_okI)
    (auto simp: config_int64_def intEnvironment_def uint64Environment_def durationEnvironment_def
      intro: environment_error environment_range [unfolded intEnvironment_def durationEnvironment_def])

lemma loadConfig_cases:
  "case LoadConfig env of
     Inr c \<Rightarrow> config_ok c \<and> Config_Validate c = None
   | Inl err \<Rightarrow> errors_is err ErrConfiguration \<and> errors_is err ErrValidation"
proof (cases "run_assignments (config_assignments env) default_config")
  case (Inl err)
  then obtain a c where "a \<in> set (config_assignments env)" "a c = Inl err" by (blast dest: run_assignments_error)
  then have "errors_is err ErrValidation" by (rule assignment_okD(1) [OF config_assignments_ok])
  with Inl show ?thesis by (simp add: LoadConfig_def loadConfig_def NewDomainError_def)
next
  case (Inr c)
  have "config_int64 default_config" by (simp add: config_int64_def default_config_def is_int64_def)
  with Inr have "config_int64 c"
    by (rule run_assignments_keeps) (blast intro: assignment_okD(2) [OF config_assignments_ok])
  then show ?thesis using Inr
    by (auto simp: LoadConfig_def loadConfig_def NewDomainError_def Config_Validate_None
        split: option.splits dest: Config_Validate_Some)
qed

lemma LoadConfig_ok: "LoadConfig env = Inr c \<Longrightarrow> config_ok c \<and> Config_Validate c = None"
  using loadConfig_cases [of env] by simp

text \<open>
  C31. A configuration that loads is well-formed, whatever the environment holds: the required
  settings are present, every count, duration and timeout is positive and fits its type, the backoff
  bounds are ordered, the reorg depth is not zero, and a profiling address is a loopback address with a
  port. A configuration that does not load is refused with a configuration and validation error.
\<close>
theorem LoadConfig_well_formed:
  "case LoadConfig env of
     Inr c \<Rightarrow> config_ok c \<and> Config_Validate c = None
   | Inl err \<Rightarrow> errors_is err ErrConfiguration \<and> errors_is err ErrValidation"
  by (rule loadConfig_cases)

end
