(* ===== verification/Service_Lifecycle.thy ===== *)
theory Service_Lifecycle
  imports Go_Errors
begin

text \<open>
  \<^verbatim>\<open>internal/lifecycle/group.go\<close>: validation of a group of services and \<^verbatim>\<open>Run\<close>, which starts one
  goroutine per service, waits for the first to stop or for the context, cancels the others, runs
  the shutdown hooks concurrently and drains both result channels under a deadline.

  \<^verbatim>\<open>Run\<close> is a step relation. What the environment decides is an event: when a service or a hook
  returns and with which error, when the parent context ends, when the shutdown deadline passes. A
  \<^verbatim>\<open>select\<close> with several ready cases may take any of them, so it is several rules.
\<close>

section \<open>Validation\<close>

text \<open>\<open>sv_Run\<close> and \<open>sv_Shutdown\<close> tell whether the function is there (non-nil); what it does is an event.\<close>

record Service =
  sv_Name :: string
  sv_Run :: bool
  sv_Shutdown :: bool

fun validate_services :: "string list \<Rightarrow> Service list \<Rightarrow> go_error option" where
  "validate_services names [] = None"
| "validate_services names (service # services) =
     (if TrimSpace (sv_Name service) = [] then Some (Anonymous ''service name is required'')
      else if \<not> sv_Run service then Some (Anonymous (''service '' @ quoted (sv_Name service) @ '' has no Run function''))
      else if sv_Name service \<in> set names then Some (Anonymous (''duplicate service name '' @ quoted (sv_Name service)))
      else validate_services (sv_Name service # names) services)"

definition lifecycle_validate :: "bool \<Rightarrow> int \<Rightarrow> Service list \<Rightarrow> go_error option" where
  "lifecycle_validate ctx_is_nil shutdownTimeout services =
     (if ctx_is_nil then Some (Anonymous ''lifecycle context is required'')
      else if shutdownTimeout \<le> 0 then Some (Anonymous ''shutdown timeout must be greater than zero'')
      else if length services = 0 then Some (Anonymous ''at least one service is required'')
      else validate_services [] services)"

definition isContextTermination :: "go_error \<Rightarrow> bool" where
  "isContextTermination err \<longleftrightarrow> errors_is err ContextCanceled \<or> errors_is err ContextDeadlineExceeded"

lemma validate_services_None:
  "validate_services names services = None \<longleftrightarrow>
     (\<forall>s \<in> set services. TrimSpace (sv_Name s) \<noteq> [] \<and> sv_Run s \<and> sv_Name s \<notin> set names) \<and>
     distinct (map sv_Name services)"
  by (induction services arbitrary: names) (auto simp: image_iff)

section \<open>Running a group\<close>

type_synonym serviceResult = "string \<times> go_error option"

datatype group_phase = Waiting | Draining | Stopped "go_error option"

record group_state =
  g_phase :: group_phase
  g_running :: "string list"
  g_runResults :: "serviceResult list"
  g_hooks :: "string list"
  g_shutdownResults :: "serviceResult list"
  g_completed :: nat
  g_shutdownsPending :: nat
  g_runErr :: "go_error option"
  g_ctx_Err :: "go_error option"
  g_cancelled :: bool
  g_deadline :: bool

definition group_start :: "Service list \<Rightarrow> group_state" where
  "group_start services =
     \<lparr>g_phase = Waiting, g_running = map sv_Name services, g_runResults = [], g_hooks = [], g_shutdownResults = [],
      g_completed = 0, g_shutdownsPending = 0, g_runErr = None, g_ctx_Err = None, g_cancelled = False, g_deadline = False\<rparr>"

definition hook_names :: "Service list \<Rightarrow> string list" where
  "hook_names services = map sv_Name (filter sv_Shutdown services)"

text \<open>Cancel the services and start the shutdown hooks.\<close>

definition begin_shutdown :: "Service list \<Rightarrow> group_state \<Rightarrow> group_state" where
  "begin_shutdown services g =
     g\<lparr>g_phase := Draining, g_cancelled := True, g_hooks := hook_names services,
       g_shutdownsPending := length (hook_names services)\<rparr>"

text \<open>The error of the first service that stops, unless the context is done.\<close>

definition first_stop :: "go_error option \<Rightarrow> serviceResult \<Rightarrow> go_error option" where
  "first_stop ctxErr result =
     (if ctxErr \<noteq> None then None
      else case snd result of
        None \<Rightarrow> Some (Wrapf (fst result) (Sentinel ErrServiceStopped))
      | Some err \<Rightarrow> Some (Wrapf (fst result @ '' stopped'') err))"

definition join_stopped :: "go_error option \<Rightarrow> serviceResult \<Rightarrow> go_error option" where
  "join_stopped runErr result =
     (case snd result of
        None \<Rightarrow> runErr
      | Some err \<Rightarrow>
          if isContextTermination err then runErr
          else errors_Join [runErr, Some (Wrapf (fst result @ '' stopped'') err)])"

definition join_shutdown :: "go_error option \<Rightarrow> serviceResult \<Rightarrow> go_error option" where
  "join_shutdown runErr result =
     (case snd result of
        None \<Rightarrow> runErr
      | Some err \<Rightarrow> errors_Join [runErr, Some (Wrapf (''shut down '' @ fst result) err)])"

definition timed_out :: "Service list \<Rightarrow> group_state \<Rightarrow> go_error option" where
  "timed_out services g =
     errors_Join [g_runErr g,
       Some (Wrapf (''wait for services ('' @ show_nat (length services - g_completed g) @ '' running, '' @
           show_nat (g_shutdownsPending g) @ '' shutting down)'') (Sentinel ContextDeadlineExceeded))]"

definition draining :: "Service list \<Rightarrow> group_state \<Rightarrow> bool" where
  "draining services g \<longleftrightarrow> g_completed g < length services \<or> 0 < g_shutdownsPending g"

datatype group_event =
    ServiceReturned string "go_error option"
  | HookReturned string "go_error option"
  | ContextEnded go_error
  | DeadlinePassed
  | Internal

inductive group_step :: "Service list \<Rightarrow> group_state \<Rightarrow> group_event \<Rightarrow> group_state \<Rightarrow> bool"
  for services :: "Service list"
where
  service_returns: "name \<in> set (g_running g) \<Longrightarrow>
    group_step services g (ServiceReturned name err)
      (g\<lparr>g_running := remove1 name (g_running g), g_runResults := g_runResults g @ [(name, err)]\<rparr>)"
| hook_returns: "name \<in> set (g_hooks g) \<Longrightarrow>
    group_step services g (HookReturned name err)
      (g\<lparr>g_hooks := remove1 name (g_hooks g), g_shutdownResults := g_shutdownResults g @ [(name, err)]\<rparr>)"
| context_ends: "g_ctx_Err g = None \<Longrightarrow> err \<in> {Sentinel ContextCanceled, Sentinel ContextDeadlineExceeded} \<Longrightarrow>
    group_step services g (ContextEnded err) (g\<lparr>g_ctx_Err := Some err\<rparr>)"
| deadline_passes: "g_phase g = Draining \<Longrightarrow> \<not> g_deadline g \<Longrightarrow>
    group_step services g DeadlinePassed (g\<lparr>g_deadline := True\<rparr>)"
| select_done: "g_phase g = Waiting \<Longrightarrow> g_ctx_Err g \<noteq> None \<Longrightarrow>
    group_step services g Internal (begin_shutdown services g)"
| select_first: "g_phase g = Waiting \<Longrightarrow> g_runResults g = result # rest \<Longrightarrow>
    group_step services g Internal
      (begin_shutdown services
        (g\<lparr>g_runResults := rest, g_completed := g_completed g + 1, g_runErr := first_stop (g_ctx_Err g) result\<rparr>))"
| drain_run: "g_phase g = Draining \<Longrightarrow> draining services g \<Longrightarrow> g_runResults g = result # rest \<Longrightarrow>
    group_step services g Internal
      (g\<lparr>g_runResults := rest, g_completed := g_completed g + 1, g_runErr := join_stopped (g_runErr g) result\<rparr>)"
| drain_shutdown: "g_phase g = Draining \<Longrightarrow> draining services g \<Longrightarrow> g_shutdownResults g = result # rest \<Longrightarrow>
    group_step services g Internal
      (g\<lparr>g_shutdownResults := rest, g_shutdownsPending := g_shutdownsPending g - 1,
         g_runErr := join_shutdown (g_runErr g) result\<rparr>)"
| drain_timeout: "g_phase g = Draining \<Longrightarrow> draining services g \<Longrightarrow> g_deadline g \<Longrightarrow>
    group_step services g Internal (g\<lparr>g_phase := Stopped (timed_out services g)\<rparr>)"
| drain_complete: "g_phase g = Draining \<Longrightarrow> \<not> draining services g \<Longrightarrow>
    group_step services g Internal (g\<lparr>g_phase := Stopped (g_runErr g)\<rparr>)"

inductive group_run :: "Service list \<Rightarrow> group_event list \<Rightarrow> group_state \<Rightarrow> bool"
  for services :: "Service list"
where
  group_init: "group_run services [] (group_start services)"
| group_more: "group_run services es g \<Longrightarrow> group_step services g e g' \<Longrightarrow> group_run services (es @ [e]) g'"

text \<open>The results \<^verbatim>\<open>Run\<close> may give.\<close>

definition lifecycle_Run :: "bool \<Rightarrow> int \<Rightarrow> Service list \<Rightarrow> go_error option \<Rightarrow> bool" where
  "lifecycle_Run ctx_is_nil shutdownTimeout services result \<longleftrightarrow>
     (case lifecycle_validate ctx_is_nil shutdownTimeout services of
        Some err \<Rightarrow> result = Some err
      | None \<Rightarrow> (\<exists>es g. group_run services es g \<and> g_phase g = Stopped result))"

inductive_cases group_stepE: "group_step services g e g'"

lemmas group_simps = begin_shutdown_def first_stop_def join_stopped_def join_shutdown_def draining_def

section \<open>Every execution ends\<close>

definition group_phase_weight :: "Service list \<Rightarrow> group_state \<Rightarrow> nat" where
  "group_phase_weight services g =
     (case g_phase g of
        Waiting \<Rightarrow> 2 * length (hook_names services) + 3
      | Draining \<Rightarrow> if g_deadline g then 1 else 2
      | Stopped _ \<Rightarrow> 0)"

definition group_weight :: "Service list \<Rightarrow> group_state \<Rightarrow> nat" where
  "group_weight services g =
     2 * length (g_running g) + length (g_runResults g) + 2 * length (g_hooks g) + length (g_shutdownResults g) +
     (if g_ctx_Err g = None then 1 else 0) + group_phase_weight services g"

lemma length_remove1_mem: "x \<in> set xs \<Longrightarrow> length xs = Suc (length (remove1 x xs))"
  using length_pos_if_in_set [of x xs] by (simp add: length_remove1)

lemma group_step_weight: "group_step services g e g' \<Longrightarrow> group_weight services g' < group_weight services g"
  by (induction rule: group_step.induct)
    (auto simp: group_weight_def group_phase_weight_def begin_shutdown_def split: group_phase.splits dest: length_remove1_mem)

lemma group_run_weight: "group_run services es g \<Longrightarrow> length es + group_weight services g \<le> group_weight services (group_start services)"
  by (induction rule: group_run.induct) (auto dest: group_step_weight)

lemma group_progress: "(\<And>r. g_phase g \<noteq> Stopped r) \<Longrightarrow> \<exists>e g'. group_step services g e g'"
  by (cases "g_phase g"; cases "g_ctx_Err g"; cases "draining services g"; cases "g_deadline g")
    (blast intro: group_step.intros | force intro: group_step.intros)+

text \<open>
  C10. \<^verbatim>\<open>Run\<close> returns. Every execution of a group of \<open>n\<close> services with \<open>h\<close> shutdown hooks has at most
  \<open>2n + 2h + 4\<close> steps, an execution that has not returned can go on, and once the shutdown deadline has
  passed \<^verbatim>\<open>Run\<close> goes on by itself, whatever services and hooks do.
\<close>
theorem lifecycle_Run_returns:
  assumes "group_run services es g"
  shows "length es \<le> 2 * length services + 2 * length (hook_names services) + 4 \<and>
    ((\<forall>r. g_phase g \<noteq> Stopped r) \<longrightarrow> (\<exists>e g'. group_step services g e g')) \<and>
    (g_phase g = Draining \<and> g_deadline g \<longrightarrow> (\<exists>g'. group_step services g Internal g'))"
proof -
  have "group_weight services (group_start services) = 2 * length services + 2 * length (hook_names services) + 4"
    by (simp add: group_weight_def group_phase_weight_def group_start_def)
  then have "length es \<le> 2 * length services + 2 * length (hook_names services) + 4"
    using group_run_weight [OF assms] by simp
  moreover have "g_phase g = Draining \<and> g_deadline g \<longrightarrow> (\<exists>g'. group_step services g Internal g')"
    using drain_timeout [of g services] drain_complete [of g services] by blast
  ultimately show ?thesis using group_progress by blast
qed

section \<open>What a result means\<close>

text \<open>An error value occurs in the tree of another.\<close>

function contains_error :: "go_error \<Rightarrow> go_error \<Rightarrow> bool" where
  "contains_error e t = (e = t \<or> list_ex (\<lambda>c. contains_error c t) (Unwrap e))"
  by pat_completeness auto
termination
  by (relation "measure (\<lambda>(e, t). size e)") (auto dest: Unwrap_size)

declare contains_error.simps [simp del]

lemma contains_error_refl [simp]: "contains_error e e"
  by (subst contains_error.simps) simp

lemma contains_error_Wrapf: "contains_error e t \<Longrightarrow> contains_error (Wrapf m e) t"
  by (subst contains_error.simps) simp

lemma contains_error_Joined: "e \<in> set es \<Longrightarrow> contains_error e t \<Longrightarrow> contains_error (Joined es) t"
  by (subst contains_error.simps) (auto simp: list_ex_iff)

definition reported :: "go_error option \<Rightarrow> go_error \<Rightarrow> bool" where
  "reported r e \<longleftrightarrow> (case r of None \<Rightarrow> False | Some x \<Rightarrow> contains_error x e)"

lemma reported_join:
  "reported r e \<Longrightarrow> reported (errors_Join [r, Some x]) e" "contains_error x e \<Longrightarrow> reported (errors_Join [r, Some x]) e"
  by (auto simp: reported_def errors_Join_def List.map_filter_def Let_def split: option.splits intro: contains_error_Joined)

lemma errors_Join_Some [simp]: "\<exists>y. errors_Join [r, Some x] = Some y"
  by (simp add: errors_Join_def List.map_filter_def Let_def)


lemma timed_out_reported: "reported (timed_out services g) (Sentinel ContextDeadlineExceeded)"
  unfolding timed_out_def by (intro reported_join(2) contains_error_Wrapf contains_error_refl)

text \<open>The goroutines that have not been accounted for, and what the channels hold.\<close>

definition group_counts :: "Service list \<Rightarrow> group_state \<Rightarrow> bool" where
  "group_counts services g \<longleftrightarrow>
     g_completed g + length (g_runResults g) + length (g_running g) = length services \<and>
     (g_phase g = Waiting \<longrightarrow> g_hooks g = [] \<and> g_shutdownResults g = [] \<and> g_runErr g = None) \<and>
     (g_phase g \<noteq> Waiting \<longrightarrow> g_cancelled g \<and> g_shutdownsPending g = length (g_shutdownResults g) + length (g_hooks g)) \<and>
     (\<forall>r. g_phase g = Stopped r \<longrightarrow>
        (if draining services g then reported r (Sentinel ContextDeadlineExceeded) else r = g_runErr g)) \<and>
     (g_phase g \<noteq> Waiting \<and> g_ctx_Err g = None \<longrightarrow> g_runErr g \<noteq> None)"

lemma group_counts_step: "group_step services g e g' \<Longrightarrow> group_counts services g \<Longrightarrow> group_counts services g'"
proof (induction rule: group_step.induct)
  case (service_returns name g err)
  then show ?case by (auto simp: group_counts_def draining_def dest: length_remove1_mem)
next
  case (hook_returns name g err)
  then show ?case by (auto simp: group_counts_def draining_def dest: length_remove1_mem)
next
  case (select_done g)
  then show ?case by (auto simp: group_counts_def begin_shutdown_def)
next
  case (select_first g result rest)
  then show ?case by (auto simp: group_counts_def begin_shutdown_def first_stop_def split: option.splits)
next
  case (drain_run g result rest)
  then show ?case by (auto simp: group_counts_def join_stopped_def split: option.splits)
next
  case (drain_shutdown g result rest)
  then show ?case by (auto simp: group_counts_def join_shutdown_def split: option.splits)
next
  case (drain_timeout g)
  then show ?case using timed_out_reported [of services g] by (auto simp: group_counts_def draining_def)
qed (auto simp: group_counts_def draining_def)

lemma group_run_counts: "group_run services es g \<Longrightarrow> group_counts services g"
proof (induction rule: group_run.induct)
  case group_init
  show ?case by (simp add: group_counts_def group_start_def)
qed (rule group_counts_step)

text \<open>Where the failures that services and hooks have returned are: in a channel, in the joined
  error, or dropped; at most one is dropped, when it was the first result and the context had
  already ended.\<close>

definition failure :: "group_event \<Rightarrow> (bool \<times> string \<times> go_error) option" where
  "failure e =
     (case e of
        ServiceReturned name (Some err) \<Rightarrow> if isContextTermination err then None else Some (False, name, err)
      | HookReturned name (Some err) \<Rightarrow> Some (True, name, err)
      | _ \<Rightarrow> None)"

definition placed :: "group_state \<Rightarrow> (bool \<times> string \<times> go_error) \<Rightarrow> bool" where
  "placed g f \<longleftrightarrow>
     (case f of (hook, name, err) \<Rightarrow>
        (name, Some err) \<in> set (if hook then g_shutdownResults g else g_runResults g) \<or> reported (g_runErr g) err)"

definition droppable :: "(bool \<times> string \<times> go_error) set \<Rightarrow> group_state \<Rightarrow> bool" where
  "droppable D g \<longleftrightarrow>
     D = {} \<or> (\<exists>name err. D = {(False, name, err)} \<and> g_ctx_Err g \<noteq> None \<and> g_phase g \<noteq> Waiting)"

definition failures_placed :: "group_event list \<Rightarrow> group_state \<Rightarrow> bool" where
  "failures_placed es g \<longleftrightarrow>
     (\<exists>D. droppable D g \<and> (\<forall>e \<in> set es. \<forall>f. failure e = Some f \<longrightarrow> f \<in> D \<or> placed g f))"

lemma reported_None [simp]: "\<not> reported None e"
  by (simp add: reported_def)

lemma join_reported:
  "reported r e \<Longrightarrow> reported (join_stopped r x) e" "reported r e \<Longrightarrow> reported (join_shutdown r x) e"
  "\<not> isContextTermination e \<Longrightarrow> reported (join_stopped r (n, Some e)) e" "reported (join_shutdown r (n, Some e)) e"
  "reported (first_stop None (n, Some e)) e"
  by (auto simp: join_stopped_def join_shutdown_def first_stop_def reported_join split: option.splits
      intro!: reported_join(2) contains_error_Wrapf)
    (simp add: reported_def contains_error_Wrapf)

text \<open>A failure that has a place keeps one, unless it is the first result and the context has ended.\<close>

lemma placed_step:
  assumes "group_step services g e g'" "placed g (hook, name, err)" "group_counts services g"
    and "hook \<or> \<not> isContextTermination err"
  shows "placed g' (hook, name, err) \<or>
    g_phase g = Waiting \<and> g_ctx_Err g \<noteq> None \<and> g_phase g' \<noteq> Waiting \<and> g_ctx_Err g' \<noteq> None \<and> \<not> hook \<and>
      (\<exists>rest. g_runResults g = (name, Some err) # rest)"
  using assms
proof (induction rule: group_step.induct)
  case (select_done g)
  then show ?case by (auto simp: placed_def begin_shutdown_def)
next
  case (select_first g result rest)
  then show ?case
    by (cases "g_ctx_Err g") (auto simp: placed_def begin_shutdown_def group_counts_def join_reported split: if_splits)
next
  case (drain_run g result rest)
  then show ?case by (auto simp: placed_def join_reported split: if_splits)
next
  case (drain_shutdown g result rest)
  then show ?case by (auto simp: placed_def join_reported split: if_splits)
qed (auto simp: placed_def split: if_splits)

lemma group_step_mono:
  "group_step services g e g' \<Longrightarrow>
     (g_ctx_Err g \<noteq> None \<longrightarrow> g_ctx_Err g' \<noteq> None) \<and> (g_phase g \<noteq> Waiting \<longrightarrow> g_phase g' \<noteq> Waiting)"
  by (induction rule: group_step.induct) (auto simp: begin_shutdown_def)

lemma failure_placed_new: "group_step services g e g' \<Longrightarrow> failure e = Some f \<Longrightarrow> placed g' f"
  by (induction rule: group_step.induct) (auto simp: failure_def placed_def split: option.splits if_splits)

lemma failure_shape: "failure e = Some (hook, name, err) \<Longrightarrow> hook \<or> \<not> isContextTermination err"
  by (auto simp: failure_def split: group_event.splits option.splits if_splits)

lemma failures_placed_step:
  assumes "failures_placed es g" "group_step services g e g'" "group_counts services g"
  shows "failures_placed (es @ [e]) g'"
proof -
  from assms(1) obtain D where D: "droppable D g"
    and all: "\<forall>e \<in> set es. \<forall>f. failure e = Some f \<longrightarrow> f \<in> D \<or> placed g f"
    unfolding failures_placed_def by blast
  from all have old: "f \<in> D \<or> placed g f" if "e \<in> set es" "failure e = Some f" for e f
    using that by blast
  note mono = group_step_mono [OF assms(2)]
  note new = failure_placed_new [OF assms(2)]
  show ?thesis
  proof (cases "\<forall>e \<in> set es. \<forall>f. failure e = Some f \<longrightarrow> f \<in> D \<or> placed g' f")
    case True
    moreover have "droppable D g'" using D mono by (auto simp: droppable_def)
    ultimately show ?thesis unfolding failures_placed_def using new by (intro exI [of _ D]) auto
  next
    case False
    then obtain e0 hook name err where lost: "e0 \<in> set es" "failure e0 = Some (hook, name, err)"
      "(hook, name, err) \<notin> D" "\<not> placed g' (hook, name, err)" by auto
    from old [OF lost(1,2)] lost(3) have "placed g (hook, name, err)" by blast
    from placed_step [OF assms(2) this assms(3) failure_shape [OF lost(2)]] lost(4)
    obtain rest where at: "g_phase g = Waiting" "g_ctx_Err g' \<noteq> None" "g_phase g' \<noteq> Waiting" "\<not> hook"
      "g_runResults g = (name, Some err) # rest" by blast
    have "f = (False, name, err) \<or> placed g' f" if "e \<in> set es" "failure e = Some f" for e f
    proof -
      obtain h n x where f: "f = (h, n, x)" by (rule prod_cases3)
      from at(1) D old [OF that] have "placed g f" by (auto simp: droppable_def)
      with placed_step [OF assms(2) _ assms(3) failure_shape [OF that(2) [unfolded f]]] f
      have "placed g' f \<or> \<not> h \<and> (\<exists>rest. g_runResults g = (n, Some x) # rest)" by blast
      with at(5) f show ?thesis by (elim disjE) simp_all
    qed
    with new have "\<forall>x \<in> set (es @ [e]). \<forall>f. failure x = Some f \<longrightarrow> f \<in> {(False, name, err)} \<or> placed g' f"
      unfolding set_append list.set by blast
    moreover have "droppable {(False, name, err)} g'" using at(2,3) by (simp add: droppable_def)
    ultimately show ?thesis unfolding failures_placed_def by blast
  qed
qed

lemma group_run_placed: "group_run services es g \<Longrightarrow> failures_placed es g"
proof (induction rule: group_run.induct)
  case group_init
  show ?case by (auto simp: failures_placed_def droppable_def)
next
  case (group_more es g e g')
  from failures_placed_step [OF group_more.IH group_more.hyps(2) group_run_counts [OF group_more.hyps(1)]] show ?case .
qed

text \<open>A stopped group has either missed its deadline or drained both channels.\<close>

lemma stopped_settled:
  assumes "group_run services es g" "g_phase g = Stopped r" "\<not> reported r (Sentinel ContextDeadlineExceeded)"
  shows "g_running g = [] \<and> g_hooks g = [] \<and> g_runResults g = [] \<and> g_shutdownResults g = [] \<and> r = g_runErr g"
proof -
  from group_run_counts [OF assms(1)] assms(2,3) have "\<not> draining services g" "r = g_runErr g"
    by (auto simp: group_counts_def split: if_splits)
  moreover have "g_completed g + length (g_runResults g) + length (g_running g) = length services"
    "g_shutdownsPending g = length (g_shutdownResults g) + length (g_hooks g)"
    using group_run_counts [OF assms(1)] assms(2) unfolding group_counts_def by simp_all
  ultimately have "length (g_runResults g) + length (g_running g) = 0" "length (g_shutdownResults g) + length (g_hooks g) = 0"
    "r = g_runErr g" unfolding draining_def by linarith+
  then show ?thesis by simp
qed

lemma stopped_failures:
  assumes "group_run services es g" "g_phase g = Stopped r" "\<not> reported r (Sentinel ContextDeadlineExceeded)"
  obtains D where "droppable D g"
    "\<And>e hook name err. e \<in> set es \<Longrightarrow> failure e = Some (hook, name, err) \<Longrightarrow> (hook, name, err) \<in> D \<or> reported r err"
proof -
  from group_run_placed [OF assms(1)] obtain D where D: "droppable D g"
    and placed: "\<forall>e \<in> set es. \<forall>f. failure e = Some f \<longrightarrow> f \<in> D \<or> placed g f"
    unfolding failures_placed_def by blast
  have "(hook, name, err) \<in> D \<or> reported r err" if "e \<in> set es" "failure e = Some (hook, name, err)" for e hook name err
    using placed that stopped_settled [OF assms] by (fastforce simp: placed_def split: if_splits)
  with D show thesis by (rule that)
qed

lemma stopped_cancelled:
  assumes "group_run services es g" "g_phase g = Stopped r"
  shows "g_cancelled g \<and> (g_ctx_Err g = None \<longrightarrow> r \<noteq> None)"
proof -
  have "g_cancelled g" "g_ctx_Err g = None \<longrightarrow> g_runErr g \<noteq> None"
    using group_run_counts [OF assms(1)] assms(2) by (auto simp: group_counts_def)
  moreover have "r = None \<Longrightarrow> r = g_runErr g" using stopped_settled [OF assms] by simp
  ultimately show ?thesis by blast
qed

text \<open>Every failure is in the result, but for one: a service's, when the context had ended.\<close>

lemma stopped_reports:
  assumes "group_run services es g" "g_phase g = Stopped r" "\<not> reported r (Sentinel ContextDeadlineExceeded)"
  shows "\<exists>name0 err0. \<forall>e \<in> set es. \<forall>hook name err. failure e = Some (hook, name, err) \<longrightarrow>
    reported r err \<or> g_ctx_Err g \<noteq> None \<and> \<not> hook \<and> name = name0 \<and> err = err0"
proof -
  obtain D where D: "droppable D g"
    and placed: "\<And>e hook name err. e \<in> set es \<Longrightarrow> failure e = Some (hook, name, err) \<Longrightarrow> (hook, name, err) \<in> D \<or> reported r err"
    by (rule stopped_failures [OF assms]) blast
  from D consider "D = {}" | name0 err0 where "D = {(False, name0, err0)}" "g_ctx_Err g \<noteq> None"
    unfolding droppable_def by blast
  then show ?thesis
  proof cases
    case 1
    with placed show ?thesis by blast
  next
    case 2
    from placed 2 show ?thesis by (intro exI [of _ name0] exI [of _ err0]) auto
  qed
qed

text \<open>
  C11. What the result of \<^verbatim>\<open>Run\<close> means. The services' context is cancelled. Unless the result reports a
  missed deadline, every service and every hook has returned, and the result reports every error a
  hook returned and every error a service returned that is not a termination of the context, except
  for at most one error of one service, and that only if the caller's context had ended. So a nil
  result, which is given only when the caller's context had ended, means that all goroutines have
  returned, that no hook failed and that at most one service failed.
\<close>
theorem lifecycle_Run_result:
  assumes "group_run services es g" "g_phase g = Stopped r"
  shows "g_cancelled g \<and> (g_ctx_Err g = None \<longrightarrow> r \<noteq> None) \<and>
    (\<not> reported r (Sentinel ContextDeadlineExceeded) \<longrightarrow> g_running g = [] \<and> g_hooks g = [] \<and>
       (\<exists>name0 err0. \<forall>e \<in> set es. \<forall>hook name err. failure e = Some (hook, name, err) \<longrightarrow>
          reported r err \<or> g_ctx_Err g \<noteq> None \<and> \<not> hook \<and> name = name0 \<and> err = err0)) \<and>
    (r = None \<longrightarrow> g_running g = [] \<and> g_hooks g = [] \<and>
       (\<exists>name0 err0. \<forall>e \<in> set es. \<forall>hook name err. failure e = Some (hook, name, err) \<longrightarrow>
          \<not> hook \<and> name = name0 \<and> err = err0))"
proof -
  have settled: "g_running g = [] \<and> g_hooks g = []" if "\<not> reported r (Sentinel ContextDeadlineExceeded)"
    using stopped_settled [OF assms that] by simp
  have clean: "\<exists>name0 err0. \<forall>e \<in> set es. \<forall>hook name err. failure e = Some (hook, name, err) \<longrightarrow>
      \<not> hook \<and> name = name0 \<and> err = err0" if "r = None"
    using stopped_reports [OF assms] that by simp blast
  show ?thesis
    using stopped_cancelled [OF assms] stopped_reports [OF assms] settled clean
    by (intro conjI impI) simp_all
qed

section \<open>Sample executions\<close>

definition indexer_only :: "Service list" where
  "indexer_only = [\<lparr>sv_Name = ''indexer'', sv_Run = True, sv_Shutdown = False\<rparr>]"

text \<open>The state of this group after it was told to stop, with what its channels and counters hold.\<close>

definition indexer_state :: "group_phase \<Rightarrow> string list \<Rightarrow> serviceResult list \<Rightarrow> nat \<Rightarrow> bool \<Rightarrow> group_state" where
  "indexer_state phase running results completed cancelled =
     \<lparr>g_phase = phase, g_running = running, g_runResults = results, g_hooks = [], g_shutdownResults = [],
      g_completed = completed, g_shutdownsPending = 0, g_runErr = None, g_ctx_Err = Some (Sentinel ContextCanceled),
      g_cancelled = cancelled, g_deadline = False\<rparr>"

lemma indexer_ctx: "group_run indexer_only [ContextEnded (Sentinel ContextCanceled)] (indexer_state Waiting [''indexer''] [] 0 False)"
  using group_more [OF group_init context_ends [of "group_start indexer_only" "Sentinel ContextCanceled"]]
  by (simp add: group_start_def indexer_only_def indexer_state_def)

text \<open>The service returns \<open>err\<close> before the group has read the end of the context.\<close>

lemma indexer_returned:
  "group_run indexer_only [ContextEnded (Sentinel ContextCanceled), ServiceReturned ''indexer'' err]
     (indexer_state Waiting [] [(''indexer'', err)] 0 False)"
  using group_more [OF indexer_ctx service_returns [of "''indexer''" _ _ err]]
  by (simp add: indexer_state_def)

lemma indexer_stopped:
  "group_run indexer_only [ContextEnded (Sentinel ContextCanceled), ServiceReturned ''indexer'' err, Internal, Internal]
     (indexer_state (Stopped None) [] [] 1 True)"
proof -
  have "group_run indexer_only [ContextEnded (Sentinel ContextCanceled), ServiceReturned ''indexer'' err, Internal]
      (indexer_state Draining [] [] 1 True)"
    using group_more [OF indexer_returned select_first [of _ "(''indexer'', err)" "[]"]]
    by (simp add: indexer_state_def begin_shutdown_def hook_names_def first_stop_def indexer_only_def)
  from group_more [OF this drain_complete] show ?thesis
    by (simp add: indexer_state_def draining_def indexer_only_def)
qed

theorem lifecycle_Run_returns_witness:
  "length [ContextEnded (Sentinel ContextCanceled)] \<le> 2 * length indexer_only + 2 * length (hook_names indexer_only) + 4 \<and>
   (\<exists>e g'. group_step indexer_only (indexer_state Waiting [''indexer''] [] 0 False) e g')"
  using lifecycle_Run_returns [OF indexer_ctx] by (auto simp: indexer_state_def)

theorem lifecycle_Run_result_witness:
  "g_cancelled (indexer_state (Stopped None) [] [] 1 True) \<and>
   (\<exists>name0 err0. \<forall>hook name err. failure (ServiceReturned ''indexer'' (Some (Sentinel ErrDatabase))) =
      Some (hook, name, err) \<longrightarrow> \<not> hook \<and> name = name0 \<and> err = err0)"
proof -
  have "g_phase (indexer_state (Stopped None) [] [] 1 True) = Stopped None" by (simp add: indexer_state_def)
  from lifecycle_Run_result [OF indexer_stopped [of "Some (Sentinel ErrDatabase)"] this] show ?thesis by simp blast
qed

text \<open>The failure that is dropped: the context has ended, the indexer fails with a database error
  before the group looks, \<^verbatim>\<open>select\<close> takes the result first, and \<^verbatim>\<open>Run\<close> reports a clean stop.\<close>

lemma lifecycle_drops_first_failure:
  "\<exists>es g. group_run indexer_only es g \<and> g_phase g = Stopped None \<and>
     ServiceReturned ''indexer'' (Some (Sentinel ErrDatabase)) \<in> set es \<and> \<not> isContextTermination (Sentinel ErrDatabase)"
  using indexer_stopped [of "Some (Sentinel ErrDatabase)"]
  by (fastforce simp: indexer_state_def isContextTermination_def)


end
