(* ===== verification/Application.thy ===== *)
theory Application
  imports Indexing_Properties Ethereum_Client Configuration Rpc_Resilience Service_Lifecycle
begin

text \<open>
  \<^verbatim>\<open>internal/app/application.go\<close> and \<^verbatim>\<open>run\<close> of \<^verbatim>\<open>cmd/chainwatch/main.go\<close>: the parts put together. The world
  is the database with the rate limiter, the metrics and what lies outside. Dialling the node, opening
  and pinging the pool are parameters, and so is what the HTTP listeners return. Setting up the HTTP
  servers changes no state; their handler is the one of \<^verbatim>\<open>Http_Api\<close>.
\<close>

section \<open>Wiring\<close>

definition ethereumRPCConfig :: "RPCConfig \<Rightarrow> RPCResilienceConfig" where
  "ethereumRPCConfig settings =
     \<lparr>rc_MaxAttempts = rp_MaxAttempts settings, rc_InitialBackoff = rp_InitialBackoff settings,
      rc_MaxBackoff = rp_MaxBackoff settings, rc_JitterFraction = rp_JitterFraction settings,
      rc_RequestsPerSecond = rp_RequestsPerSecond settings, rc_Burst = rp_Burst settings\<rparr>"

text \<open>The methods of \<^verbatim>\<open>EthereumClient\<close> as the backend of the resilient client.\<close>

definition eth_backend :: "contract_abi \<Rightarrow> 'w EthereumClient \<Rightarrow> 'w resilientEthereumBackend" where
  "eth_backend abi client =
     \<lparr>GetObservedBlockByNumber = eth_GetObservedBlockByNumber client,
      GetERC20TransfersByBlock = eth_GetERC20TransfersByBlock client,
      GetLatestObservedBlock = eth_GetLatestObservedBlock client,
      FetchTokenMetadata = eth_FetchTokenMetadata abi client\<rparr>"

record 'e app_env =
  ae_rpc :: "'e rpc_env"
  ae_codec :: eth_codec
  ae_abi :: contract_abi
  ae_DialContext :: "string \<Rightarrow> 'e \<Rightarrow> (go_error, 'e ethclient, 'e) outcome"
  ae_NewPool :: "string \<Rightarrow> 'e \<Rightarrow> (go_error, ('e rpc_world) postgres, 'e) outcome"
  ae_Ping :: "('e rpc_world) postgres \<Rightarrow> 'e \<Rightarrow> (go_error, unit, 'e) outcome"

text \<open>\<^verbatim>\<open>Run\<close> up to the connected pool: the resilient client, its limiter, the metrics and the pool.\<close>

definition app_connect :: "'e app_env \<Rightarrow> Config \<Rightarrow> 'e \<Rightarrow>
    (go_error, 'e ResilientEthereumClient \<times> rpcRateLimiter \<times> Metrics \<times> ('e rpc_world) postgres, 'e) outcome" where
  "app_connect env runtimeConfig w =
     (case Config_Validate runtimeConfig of
        Some err \<Rightarrow> (Inl (Wrapf ''validate configuration'' err), w)
      | None \<Rightarrow>
          (case NewEthereumClient (ae_codec env) (ae_DialContext env) (cf_EthereumRPCURL runtimeConfig) w of
             (Inl err, w1) \<Rightarrow> (Inl (Wrapf ''create Ethereum client'' err), w1)
           | (Inr client, w1) \<Rightarrow>
               (case NewResilientEthereumClient (ae_rpc env) (Some (eth_backend (ae_abi env) client))
                       (ethereumRPCConfig (Config_RPCConfig runtimeConfig)) (Some NewMetrics) w1 of
                  (Inl err, w2) \<Rightarrow> (Inl (Wrapf ''create resilient Ethereum client'' err), w2)
                | (Inr (resilientClient, limiter, metrics), w2) \<Rightarrow>
                    (case ae_NewPool env (cf_DatabaseURL runtimeConfig) w2 of
                       (Inl err, w3) \<Rightarrow> (Inl (Wrapf ''create PostgreSQL pool'' err), w3)
                     | (Inr pool, w3) \<Rightarrow>
                         (case ae_Ping env pool w3 of
                            (Inl err, w4) \<Rightarrow> (Inl (Wrapf ''connect to PostgreSQL'' err), w4)
                          | (Inr _, w4) \<Rightarrow> (Inr (resilientClient, limiter, metrics, pool), w4))))))"

text \<open>The services: the indexer, the HTTP server and, when an address is set, the profiling server.\<close>

definition app_services :: "Config \<Rightarrow> Service list" where
  "app_services runtimeConfig =
     [\<lparr>sv_Name = ''indexer'', sv_Run = True, sv_Shutdown = False\<rparr>,
      \<lparr>sv_Name = ''HTTP server'', sv_Run = True, sv_Shutdown = True\<rparr>] @
     (if cf_ProfilingAddress runtimeConfig \<noteq> []
      then [\<lparr>sv_Name = ''pprof server'', sv_Run = True, sv_Shutdown = True\<rparr>] else [])"

text \<open>What an HTTP service returns, given the error \<^verbatim>\<open>ListenAndServe\<close> ends with.\<close>

definition listen_result :: "go_error \<Rightarrow> go_error option" where
  "listen_result err = (if errors_is err HttpErrServerClosed then None else Some err)"

text \<open>The indexer service counts the blocks and, at the end, an error.\<close>

definition count_block :: "BlockTransferIndex \<Rightarrow> 'e rpc_world \<Rightarrow> 'e rpc_world" where
  "count_block index w = (case w of (l, m, e) \<Rightarrow> (l, RecordIndexedBlock (TransferCount index) m, e))"

definition count_error :: "db \<times> 'e rpc_world \<Rightarrow> db \<times> 'e rpc_world" where
  "count_error w = (case w of (d, (l, m, e)) \<Rightarrow> (d, (l, RecordIndexerError m, e)))"

definition indexer_reaches :: "(db \<times> 'e rpc_world) ContinuousIndexer \<Rightarrow> db \<times> 'e rpc_world \<Rightarrow> run_state \<Rightarrow>
    db \<times> 'e rpc_world \<Rightarrow> bool" where
  "indexer_reaches c w state w' \<longleftrightarrow>
     run_reaches c (map_option env_handler (Some count_block)) others_run (Run_start c, w) (state, w')"

definition indexer_service :: "(db \<times> 'e rpc_world) ContinuousIndexer \<Rightarrow> db \<times> 'e rpc_world \<Rightarrow> go_error option \<Rightarrow>
    db \<times> 'e rpc_world \<Rightarrow> bool" where
  "indexer_service c w err w' \<longleftrightarrow>
     (\<exists>w1. indexer_reaches c w (run_state.Stopped err) w1 \<and> w' = (if err = None then w1 else count_error w1))"


section \<open>Running\<close>

text \<open>The calls of the resilient client as functions: they return in every world. (\<^verbatim>\<open>Rpc_Resilience\<close> shows
  that they do under a context that ends.)\<close>

definition computes :: "'e rpc_env \<Rightarrow> 'e ResilientEthereumClient \<Rightarrow> ('e rpc_world \<Rightarrow> (go_error, ObservedBlock, 'e rpc_world) outcome) \<Rightarrow>
    (u64 \<Rightarrow> 'e rpc_world \<Rightarrow> (go_error, ObservedBlock, 'e rpc_world) outcome) \<Rightarrow>
    (ObservedBlock \<Rightarrow> 'e rpc_world \<Rightarrow> (go_error, BlockTransferIndex, 'e rpc_world) outcome) \<Rightarrow> bool" where
  "computes env c latest fetch decode \<longleftrightarrow>
     (\<forall>s. res_GetLatestObservedBlock env c s = Some (latest s)) \<and>
     (\<forall>n s. res_GetObservedBlockByNumber env c n s = Some (fetch n s)) \<and>
     (\<forall>b s. res_GetERC20TransfersByBlock env c b s = Some (decode b s))"

text \<open>What the services of a finished group did: the indexer's part of the world, and the results of
  the HTTP servers.\<close>

definition services_did :: "(db \<times> 'e rpc_world) ContinuousIndexer \<Rightarrow> group_event list \<Rightarrow> db \<times> 'e rpc_world \<Rightarrow>
    db \<times> 'e rpc_world \<Rightarrow> bool" where
  "services_did c es w w' \<longleftrightarrow>
     (if \<exists>r. ServiceReturned ''indexer'' r \<in> set es
      then \<forall>r. ServiceReturned ''indexer'' r \<in> set es \<longrightarrow> indexer_service c w r w'
      else \<exists>state. indexer_reaches c w state w') \<and>
     (\<forall>name r. ServiceReturned name r \<in> set es \<longrightarrow> name \<noteq> ''indexer'' \<longrightarrow> (\<exists>err. r = listen_result err))"

definition app_start :: "('e rpc_world \<Rightarrow> (go_error, ObservedBlock, 'e rpc_world) outcome) \<Rightarrow>
    (u64 \<Rightarrow> 'e rpc_world \<Rightarrow> (go_error, ObservedBlock, 'e rpc_world) outcome) \<Rightarrow>
    (ObservedBlock \<Rightarrow> 'e rpc_world \<Rightarrow> (go_error, BlockTransferIndex, 'e rpc_world) outcome) \<Rightarrow>
    Config \<Rightarrow> ('e rpc_world) postgres \<Rightarrow> db \<times> 'e rpc_world \<Rightarrow>
    (go_error, (db \<times> 'e rpc_world) ContinuousIndexer, db \<times> 'e rpc_world) outcome" where
  "app_start latest fetch decode runtimeConfig pool w =
     (let persistence = NewPostgresBlockPersistence pool ''ethereum_erc20'';
          client = \<lparr>GetObservedBlockByNumber = on_env fetch, GetERC20TransfersByBlock = on_env decode,
                    GetLatestObservedBlock = (\<lambda>w. on_env (\<lambda>_. latest) () w)\<rparr>
      in case determineStartBlock client (pg_persistence persistence)
                (cf_ConfirmationDepth runtimeConfig) (cf_MaxReorgDepth runtimeConfig) w of
           (Inl err, w1) \<Rightarrow> (Inl err, w1)
         | (Inr startBlock, w1) \<Rightarrow>
             (Inr (pg_continuous latest fetch decode persistence (cf_WorkerCount runtimeConfig) startBlock
                 (cf_PollInterval runtimeConfig) (cf_ConfirmationDepth runtimeConfig)), w1))"

text \<open>\<^verbatim>\<open>app.Run\<close>: the results it may give and the database it leaves.\<close>

inductive app_Run :: "'e app_env \<Rightarrow> Config \<Rightarrow> db \<times> 'e \<Rightarrow> go_error option \<Rightarrow> db \<Rightarrow> bool"
  for env :: "'e app_env" and runtimeConfig :: Config
where
  not_connected: "app_connect env runtimeConfig e = (Inl err, e1) \<Longrightarrow> app_Run env runtimeConfig (d, e) (Some err) d"
| not_started: "app_connect env runtimeConfig e = (Inr (client, limiter, metrics, pool), e1) \<Longrightarrow>
    computes (ae_rpc env) client latest fetch decode \<Longrightarrow>
    app_start latest fetch decode runtimeConfig pool (d, (limiter, metrics, e1)) = (Inl err, w) \<Longrightarrow>
    app_Run env runtimeConfig (d, e) (Some err) (fst w)"
| not_a_group: "app_connect env runtimeConfig e = (Inr (client, limiter, metrics, pool), e1) \<Longrightarrow>
    computes (ae_rpc env) client latest fetch decode \<Longrightarrow>
    app_start latest fetch decode runtimeConfig pool (d, (limiter, metrics, e1)) = (Inr c, w) \<Longrightarrow>
    lifecycle_validate False (cf_ShutdownTimeout runtimeConfig) (app_services runtimeConfig) = Some err \<Longrightarrow>
    app_Run env runtimeConfig (d, e) (Some err) (fst w)"
| stopped: "app_connect env runtimeConfig e = (Inr (client, limiter, metrics, pool), e1) \<Longrightarrow>
    computes (ae_rpc env) client latest fetch decode \<Longrightarrow>
    app_start latest fetch decode runtimeConfig pool (d, (limiter, metrics, e1)) = (Inr c, w) \<Longrightarrow>
    lifecycle_validate False (cf_ShutdownTimeout runtimeConfig) (app_services runtimeConfig) = None \<Longrightarrow>
    group_run (app_services runtimeConfig) es g \<Longrightarrow> g_phase g = group_phase.Stopped result \<Longrightarrow>
    services_did c es w w' \<Longrightarrow> app_Run env runtimeConfig (d, e) result (fst w')"

text \<open>\<^verbatim>\<open>run\<close> of the command.\<close>

definition main_run :: "environmentLookup \<Rightarrow> 'e app_env \<Rightarrow> db \<times> 'e \<Rightarrow> go_error option \<Rightarrow> db \<Rightarrow> bool" where
  "main_run environment env w result d' \<longleftrightarrow>
     (case LoadConfig environment of
        Inl err \<Rightarrow> result = Some (Wrapf ''invalid configuration'' err) \<and> d' = fst w
      | Inr runtimeConfig \<Rightarrow> app_Run env runtimeConfig w result d')"


text \<open>\<^verbatim>\<open>main\<close>: the exit status.\<close>

definition main_exit_status :: "go_error option \<Rightarrow> nat" where
  "main_exit_status result = (case result of None \<Rightarrow> 0 | Some err \<Rightarrow> 1)"

section \<open>A loaded configuration is accepted everywhere\<close>

lemma jitter_constant: "\<not> f_less (round64 (1 / 5)) (Finite 0) \<and> \<not> f_less (Finite 1) (round64 (1 / 5))"
  by code_simp

lemma validated_resilience:
  assumes "RPCConfig_Validate (Config_RPCConfig c) = None"
  shows "RPCResilienceConfig_Validate (ethereumRPCConfig (Config_RPCConfig c)) = None"
  using RPCConfig_Validate_None [OF assms] jitter_constant
  by (simp add: RPCResilienceConfig_Validate_def ethereumRPCConfig_def Config_RPCConfig_def)

lemma validated_attempts:
  assumes "Config_Validate c = None"
  shows "RPCConfig_Validate (Config_RPCConfig c) = None"
  using assms by (auto simp: Config_Validate_def split: if_splits option.splits)

lemma resilient_created:
  assumes "RPCConfig_Validate (Config_RPCConfig c) = None"
  obtains client l m' w' where
    "NewResilientEthereumClient env (Some backend) (ethereumRPCConfig (Config_RPCConfig c)) m w = (Inr (client, l, m'), w')"
    "rec_next client = backend" "maxAttempts (rec_policy client) = cf_RPCMaxAttempts c"
    "initialBackoff (rec_policy client) = cf_RPCInitialBackoff c" "maxBackoff (rec_policy client) = cf_RPCMaxBackoff c"
  using validated_resilience [OF assms]
  by (cases "time_Now env w")
    (simp add: NewResilientEthereumClient_def ethereumRPCConfig_def Config_RPCConfig_def that)

lemma app_services_valid:
  assumes "0 < timeout"
  shows "lifecycle_validate False timeout (app_services c) = None"
proof -
  have "TrimSpace ''indexer'' \<noteq> []" "TrimSpace ''HTTP server'' \<noteq> []" "TrimSpace ''pprof server'' \<noteq> []" by code_simp+
  with assms show ?thesis by (simp add: lifecycle_validate_def app_services_def)
qed

text \<open>
  C36. A configuration that loads is never refused later on. Every check the parts make of their own
  settings passes: the resilient client is created, with a valid retry policy, the indexer starts
  polling, and the group of services is accepted.
\<close>
theorem loaded_config_accepted:
  assumes "LoadConfig environment = Inr c"
  shows "(\<exists>client l m' w'. NewResilientEthereumClient env (Some backend) (ethereumRPCConfig (Config_RPCConfig c)) m w =
        (Inr (client, l, m'), w') \<and> rec_next client = backend \<and> valid_policy (rec_policy client)) \<and>
    Run_start (pg_continuous latest fetch decode s (cf_WorkerCount c) startBlock (cf_PollInterval c) (cf_ConfirmationDepth c)) = Cycling \<and>
    0 < cf_WorkerCount c \<and> lifecycle_validate False (cf_ShutdownTimeout c) (app_services c) = None"
proof -
  have valid: "Config_Validate c = None" and ok: "config_ok c" using LoadConfig_ok [OF assms] by auto
  obtain client l m' w' where
    "NewResilientEthereumClient env (Some backend) (ethereumRPCConfig (Config_RPCConfig c)) m w = (Inr (client, l, m'), w')"
    "rec_next client = backend" "maxAttempts (rec_policy client) = cf_RPCMaxAttempts c"
    "initialBackoff (rec_policy client) = cf_RPCInitialBackoff c" "maxBackoff (rec_policy client) = cf_RPCMaxBackoff c"
    by (rule resilient_created [OF validated_attempts [OF valid]])
  with ok show ?thesis
    by (simp add: config_ok_def valid_policy_def app_services_valid Run_start_def pg_continuous_def NewContinuousIndexer_def)
qed

section \<open>The application keeps the chain it stores unbroken\<close>

text \<open>A node that answers a request for a block with the block of that number.\<close>

definition honest_node :: "'w ethclient \<Rightarrow> bool" where
  "honest_node node \<longleftrightarrow> (\<forall>n w block w'. BlockByNumber node (Some (uint n)) w = (Inr block, w') \<longrightarrow> eb_NumberU64 block = n)"

lemma resilient_success:
  assumes "0 < maxAttempts (rec_policy c)" "executeResilientRPC env c zero call s = Some (Inr x, s')"
  obtains w w' where "call w = (Inr x, w')"
proof -
  obtain es mid where "rpc_ends env (rec_policy c) call es mid (Inr x, s')"
    using assms by (rule executeResilientRPC_run)
  then show thesis by cases (use that in blast)
qed

lemma computes_answers_height:
  assumes "honest_node (eth_client e)" "0 < maxAttempts (rec_policy c)" "rec_next c = eth_backend abi e"
    and "computes env c latest fetch decode"
  shows "answers_height fetch decode"
  unfolding answers_height_def
proof (intro conjI allI impI)
  fix n s b s'
  assume "fetch n s = (Inr b, s')"
  moreover from assms(4) have "res_GetObservedBlockByNumber env c n s = Some (fetch n s)" unfolding computes_def by blast
  ultimately have "executeResilientRPC env c zero_ObservedBlock (eth_GetObservedBlockByNumber e n) s = Some (Inr b, s')"
    by (simp add: res_GetObservedBlockByNumber_def assms(3) eth_backend_def)
  then obtain w w' where "eth_GetObservedBlockByNumber e n w = (Inr b, w')" by (rule resilient_success [OF assms(2)])
  then obtain block w1 where "BlockByNumber (eth_client e) (Some (uint n)) w = (Inr block, w1)"
    "observedBlockFromEthereumBlock e block w1 = (Inr b, w')"
    by (auto simp: eth_GetObservedBlockByNumber_def rpc_classified_Inr split: prod.splits sum.splits)
  with assms(1) observedBlock_ok show "ob_Number b = n" unfolding honest_node_def by metis
next
  fix b s ix s'
  assume "decode b s = (Inr ix, s')"
  moreover from assms(4) have "res_GetERC20TransfersByBlock env c b s = Some (decode b s)" unfolding computes_def by blast
  ultimately have "executeResilientRPC env c zero_BlockTransferIndex (eth_GetERC20TransfersByBlock e b) s = Some (Inr ix, s')"
    by (simp add: res_GetERC20TransfersByBlock_def assms(3) eth_backend_def)
  then obtain w w' where "eth_GetERC20TransfersByBlock e b w = (Inr ix, w')" by (rule resilient_success [OF assms(2)])
  then show "ix_BlockNumber ix = ob_Number b"
    by (auto simp: eth_GetERC20TransfersByBlock_def rpc_classified_Inr split: prod.splits sum.splits)
qed


definition honest_env :: "'e app_env \<Rightarrow> bool" where
  "honest_env env \<longleftrightarrow> (\<forall>url w node w'. ae_DialContext env url w = (Inr node, w') \<longrightarrow> honest_node node)"

lemma wrapped_call_Inr:
  assumes "(case out of (Inl err, w) \<Rightarrow> (Inl (f err), w) | (Inr x, w) \<Rightarrow> g x w) = (Inr y, w')"
  obtains x w1 where "out = (Inr x, w1)" "g x w1 = (Inr y, w')"
  using assms by (cases out; cases "fst out") auto

text \<open>What a successful start of the connections made.\<close>

lemma app_connect_Inr:
  assumes "app_connect env c e = (Inr (client, l, m, pool), e1)"
  obtains node w1 w2 where "Config_Validate c = None" "ae_DialContext env (cf_EthereumRPCURL c) e = (Inr node, w1)"
    "NewResilientEthereumClient (ae_rpc env) (Some (eth_backend (ae_abi env) \<lparr>eth_codec_of = ae_codec env, eth_client = node\<rparr>))
      (ethereumRPCConfig (Config_RPCConfig c)) (Some NewMetrics) w1 = (Inr (client, l, m), w2)"
proof -
  from assms have valid: "Config_Validate c = None" by (cases "Config_Validate c") (simp_all add: app_connect_def)
  from assms obtain eth w1 rest w2 where steps: "NewEthereumClient (ae_codec env) (ae_DialContext env) (cf_EthereumRPCURL c) e = (Inr eth, w1)"
    "NewResilientEthereumClient (ae_rpc env) (Some (eth_backend (ae_abi env) eth))
      (ethereumRPCConfig (Config_RPCConfig c)) (Some NewMetrics) w1 = (Inr rest, w2)"
    and last: "(case rest of (rc, limiter, metrics) \<Rightarrow>
        (case ae_NewPool env (cf_DatabaseURL c) w2 of
           (Inl err, w3) \<Rightarrow> (Inl (Wrapf ''create PostgreSQL pool'' err), w3)
         | (Inr pool, w3) \<Rightarrow>
             (case ae_Ping env pool w3 of
                (Inl err, w4) \<Rightarrow> (Inl (Wrapf ''connect to PostgreSQL'' err), w4)
              | (Inr _, w4) \<Rightarrow> (Inr (rc, limiter, metrics, pool), w4)))) = (Inr (client, l, m, pool), e1)"
    unfolding app_connect_def valid option.case by (elim wrapped_call_Inr)
  obtain rc lim met where rest: "rest = (rc, lim, met)" by (rule prod_cases3)
  from last [unfolded rest prod.case] have "rest = (client, l, m)"
    by (elim wrapped_call_Inr) (auto simp: rest)
  moreover from steps(1) obtain node where "ae_DialContext env (cf_EthereumRPCURL c) e = (Inr node, w1)"
    "eth = \<lparr>eth_codec_of = ae_codec env, eth_client = node\<rparr>"
    unfolding NewEthereumClient_def by (elim wrapped_call_Inr) auto
  ultimately show thesis using valid steps(2) that by blast
qed

lemma connected_answers_height:
  assumes "honest_env env" "app_connect env c e = (Inr (client, l, m, pool), e1)"
    and "computes (ae_rpc env) client latest fetch decode"
  shows "answers_height fetch decode"
proof -
  obtain node w1 w2 where valid: "Config_Validate c = None" and dial: "ae_DialContext env (cf_EthereumRPCURL c) e = (Inr node, w1)"
    and made: "NewResilientEthereumClient (ae_rpc env) (Some (eth_backend (ae_abi env) \<lparr>eth_codec_of = ae_codec env, eth_client = node\<rparr>))
      (ethereumRPCConfig (Config_RPCConfig c)) (Some NewMetrics) w1 = (Inr (client, l, m), w2)"
    by (rule app_connect_Inr [OF assms(2)])
  let ?eth = "\<lparr>eth_codec_of = ae_codec env, eth_client = node\<rparr>"
  obtain client' l' m' w' where new: "NewResilientEthereumClient (ae_rpc env) (Some (eth_backend (ae_abi env) ?eth))
      (ethereumRPCConfig (Config_RPCConfig c)) (Some NewMetrics) w1 = (Inr (client', l', m'), w')"
    "rec_next client' = eth_backend (ae_abi env) ?eth" "maxAttempts (rec_policy client') = cf_RPCMaxAttempts c"
    by (rule resilient_created [OF validated_attempts [OF valid]])
  with made have same: "client' = client" by simp
  have "0 < maxAttempts (rec_policy client)"
    using new(3) RPCConfig_Validate_None [OF validated_attempts [OF valid]] same by simp
  moreover have "honest_node (eth_client ?eth)" using assms(1) dial by (auto simp: honest_env_def)
  ultimately show ?thesis using computes_answers_height [of ?eth client] new(2) same assms(3) by blast
qed

abbreviation chain_in :: "db \<Rightarrow> chain_view" where
  "chain_in d \<equiv> pg_view ''ethereum_erc20'' (d, ())"

lemma pg_view_fst: "pg_view name w = pg_view name (fst w, ())"
  by (simp add: pg_view_def)

lemma app_start_effect:
  assumes "db_ok (fst w)" "app_start latest fetch decode cfg pool w = (r, w')"
  shows "db_ok (fst w') \<and> startup_view (cf_MaxReorgDepth cfg) (chain_in (fst w)) (chain_in (fst w'))"
proof -
  let ?s = "NewPostgresBlockPersistence pool ''ethereum_erc20''"
  obtain q w1 where q: "determineStartBlock \<lparr>GetObservedBlockByNumber = on_env fetch, GetERC20TransfersByBlock = on_env decode,
      GetLatestObservedBlock = (\<lambda>w. on_env (\<lambda>_. latest) () w)\<rparr> (pg_persistence ?s)
      (cf_ConfirmationDepth cfg) (cf_MaxReorgDepth cfg) w = (q, w1)" by (rule prod.exhaust)
  with assms(2) have "w' = w1" by (auto simp: app_start_def Let_def split: sum.splits)
  with pg_start_effect [OF assms(1) refl q] show ?thesis
    by (simp add: NewPostgresBlockPersistence_def pg_view_def)
qed

lemma app_start_indexer:
  assumes "db_ok (fst w)" "app_start latest fetch decode cfg pool w = (Inr c, w')"
  obtains startBlock where "c = pg_continuous latest fetch decode (NewPostgresBlockPersistence pool ''ethereum_erc20'')
    (cf_WorkerCount cfg) startBlock (cf_PollInterval cfg) (cf_ConfirmationDepth cfg)"
    "\<And>cp. cv_checkpoint (chain_in (fst w')) = Some cp \<Longrightarrow> startBlock = cp_Number cp + 1"
proof -
  let ?s = "NewPostgresBlockPersistence pool ''ethereum_erc20''"
  let ?client = "\<lparr>GetObservedBlockByNumber = on_env fetch, GetERC20TransfersByBlock = on_env decode,
      GetLatestObservedBlock = (\<lambda>w. on_env (\<lambda>_. latest) () w)\<rparr>"
  obtain d e d' e' where w: "w = (d, e)" "w' = (d', e')" by (cases w, cases w')
  from assms(2) obtain startBlock where
    c: "c = pg_continuous latest fetch decode ?s (cf_WorkerCount cfg) startBlock (cf_PollInterval cfg) (cf_ConfirmationDepth cfg)"
    and start: "determineStartBlock ?client (pg_persistence ?s) (cf_ConfirmationDepth cfg) (cf_MaxReorgDepth cfg) (d, e) =
      (Inr startBlock, (d', e'))"
    unfolding w by (auto simp: app_start_def Let_def split: prod.splits sum.splits)
  from pg_start_resumes [OF _ refl start] assms(1) w have
    "startBlock = cp_Number cp + 1" if "cv_checkpoint (chain_in (fst w')) = Some cp" for cp
    using that by (simp add: NewPostgresBlockPersistence_def pg_view_fst [of _ "(d', e')"])
  with c show thesis by (rule that)
qed

lemma services_keep_chain:
  assumes "db_ok (fst w)" "answers_height fetch decode" "services_did c es w w'"
    and c: "c = pg_continuous latest fetch decode (NewPostgresBlockPersistence pool ''ethereum_erc20'')
      workers startBlock interval depth"
  shows "db_ok (fst w') \<and> one_run startBlock (chain_in (fst w)) (chain_in (fst w'))"
proof -
  have others: "db_ok (fst w') \<and> pg_view name w' = pg_view name w" if "others_run w w'" "db_ok (fst w)" for name w w'
    using that by (simp add: others_run_frame)
  have counted: "fst (count_error v) = fst v" for v by (auto simp: count_error_def split: prod.splits)
  from assms(3) obtain state w1 where run: "indexer_reaches c w state w1" and same: "fst w' = fst w1"
    unfolding services_did_def indexer_service_def by (metis counted)
  from pg_run_one_run [OF assms(1,2) c others run [unfolded indexer_reaches_def]] same show ?thesis
    by (simp add: NewPostgresBlockPersistence_def pg_view_def)
qed

text \<open>
  C4. However the application ends, cleanly or with any error of the node, the database, a service or
  the shutdown, it leaves the table invariant in place and the stored chain without a gap: startup at
  most rolled the chain back to a stored ancestor within the reorg depth, and everything written
  afterwards is one unbroken, parent-linked run of heights that begins right after the checkpoint and
  names its hash (on a database without a checkpoint it begins where startup says).
\<close>
theorem app_Run_unbroken:
  assumes "db_ok d" "honest_env env" "app_Run env cfg (d, e) result d'"
  shows "db_ok d' \<and> (\<exists>v. startup_view (cf_MaxReorgDepth cfg) (chain_in d) v \<and> chain_continues v (chain_in d'))"
  using assms(3)
proof cases
  case (not_connected err e1)
  then show ?thesis using assms(1) chain_continues_refl by (auto simp: startup_view_def)
next
  case (not_started client l m pool e1 latest fetch decode err w)
  from app_start_effect [OF _ not_started(5)] assms(1) not_started(2) show ?thesis using chain_continues_refl by auto
next
  case (not_a_group client l m pool e1 latest fetch decode c w err)
  from app_start_effect [OF _ not_a_group(5)] assms(1) not_a_group(2) show ?thesis using chain_continues_refl by auto
next
  case (stopped client l m pool e1 latest fetch decode c w es g w')
  have height: "answers_height fetch decode" by (rule connected_answers_height [OF assms(2) stopped(2,3)])
  from app_start_effect [OF _ stopped(4)] assms(1) have start: "db_ok (fst w)"
    "startup_view (cf_MaxReorgDepth cfg) (chain_in d) (chain_in (fst w))" by simp_all
  obtain startBlock where c: "c = pg_continuous latest fetch decode (NewPostgresBlockPersistence pool ''ethereum_erc20'')
      (cf_WorkerCount cfg) startBlock (cf_PollInterval cfg) (cf_ConfirmationDepth cfg)"
    and resumes: "\<And>cp. cv_checkpoint (chain_in (fst w)) = Some cp \<Longrightarrow> startBlock = cp_Number cp + 1"
    using app_start_indexer [OF _ stopped(4)] assms(1) by (metis fst_conv)
  from services_keep_chain [OF start(1) height stopped(8) c] one_run_continues [OF _ resumes] start(2) stopped(1)
  show ?thesis by blast
qed


section \<open>A sample run of the application\<close>

definition sample_environment :: environmentLookup where
  "sample_environment = [''ETH_RPC_URL'' \<mapsto> ''http://node:8545'', ''DATABASE_URL'' \<mapsto> ''postgres://db/chain'']"

definition sample_config :: Config where
  "sample_config = default_config\<lparr>cf_EthereumRPCURL := ''http://node:8545'', cf_DatabaseURL := ''postgres://db/chain''\<rparr>"

lemma sample_loaded: "LoadConfig sample_environment = Inr sample_config"
  by code_simp

theorem loaded_config_accepted_witness:
  "(\<exists>client l m w. NewResilientEthereumClient sample_env (Some sample_backend) (ethereumRPCConfig (Config_RPCConfig sample_config)) None 0 =
      (Inr (client, l, m), w) \<and> valid_policy (rec_policy client)) \<and>
   lifecycle_validate False 5000000000 (app_services sample_config) = None"
proof -
  have "cf_ShutdownTimeout sample_config = 5000000000" by (simp add: sample_config_def default_config_def)
  with loaded_config_accepted [OF sample_loaded, of sample_env sample_backend None 0 "\<lambda>e. sample_fetch 20 e" sample_fetch
      sample_decode sample_store 7] show ?thesis by auto
qed

text \<open>A node at height 20, a database that answers, and a context that ends.\<close>

definition chain_node :: "nat ethclient" where
  "chain_node = \<lparr>HeaderByNumber = \<lambda>n w. (Inl (Sentinel EthereumNotFound), w),
     BlockByNumber = \<lambda>n w. (Inr \<lparr>eb_NumberU64 = (case n of None \<Rightarrow> 20 | Some k \<Rightarrow> word_of_int k), eb_Hash = [],
       eb_ParentHash = [], eb_Time = 0, eb_Transactions = []\<rparr>, w),
     TransactionReceipt = \<lambda>h w. (Inl (Sentinel EthereumNotFound), w), FilterLogs = \<lambda>q w. (Inr [], w),
     TransactionSender = \<lambda>tx h i w. (Inr [], w), CallContract = \<lambda>a d w. (Inr d, w)\<rparr>"

definition calm_pool :: "'e postgres" where
  "calm_pool = \<lparr>pg_begin = (\<lambda>e. (None, e)), pg_statement = (\<lambda>e. (None, e)), pg_commit = (\<lambda>e. (Committed, e))\<rparr>"

definition sample_app_env :: "nat app_env" where
  "sample_app_env = \<lparr>ae_rpc = ending_env, ae_codec = sample_codec, ae_abi = sample_abi, ae_DialContext = \<lambda>u w. (Inr chain_node, w),
     ae_NewPool = \<lambda>u w. (Inr calm_pool, w), ae_Ping = \<lambda>p w. (Inr (), w)\<rparr>"

definition sample_app_client :: "nat ResilientEthereumClient" where
  "sample_app_client = fst (projr (fst (NewResilientEthereumClient ending_env
     (Some (eth_backend sample_abi \<lparr>eth_codec_of = sample_codec, eth_client = chain_node\<rparr>))
     (ethereumRPCConfig (Config_RPCConfig sample_config)) (Some NewMetrics) 5)))"

lemma sample_valid: "Config_Validate sample_config = None"
  using LoadConfig_ok [OF sample_loaded] by simp

lemma sample_connected:
  "app_connect sample_app_env sample_config 5 =
     (Inr (sample_app_client, newRPCRateLimiter 20 10 0, NewMetrics, calm_pool), 5)"
proof -
  let ?new = "NewResilientEthereumClient ending_env (Some (eth_backend sample_abi \<lparr>eth_codec_of = sample_codec, eth_client = chain_node\<rparr>))
     (ethereumRPCConfig (Config_RPCConfig sample_config)) (Some NewMetrics) (5 :: nat)"
  have now: "time_Now ending_env w = (0, w)" for w by (simp add: ending_env_def)
  have rate: "rc_RequestsPerSecond (ethereumRPCConfig (Config_RPCConfig sample_config)) = 20"
    "rc_Burst (ethereumRPCConfig (Config_RPCConfig sample_config)) = 10"
    by (simp_all add: ethereumRPCConfig_def Config_RPCConfig_def sample_config_def default_config_def)
  have new: "?new = (Inr (sample_app_client, newRPCRateLimiter 20 10 0, NewMetrics), 5)"
    unfolding sample_app_client_def NewResilientEthereumClient_def
    by (simp add: validated_resilience [OF validated_attempts [OF sample_valid]] now rate)
  show ?thesis
    unfolding app_connect_def sample_valid NewEthereumClient_def by (simp add: sample_app_env_def new)
qed

lemma ending_computes:
  "\<exists>latest fetch decode. computes ending_env c latest fetch decode"
proof -
  have ends: "context_ends ending_env (\<lambda>w. w)" by (auto simp: context_ends_def ending_env_def split: bool.split)
  have returns: "executeResilientRPC ending_env c zero call s \<noteq> None" for zero and call :: "nat \<Rightarrow> (go_error, 'a, nat) outcome" and s
    using rpc_attempts_returns [OF limiter_Wait_returns [OF ends]] by (simp add: executeResilientRPC_def)
  have "computes ending_env c (\<lambda>s. the (res_GetLatestObservedBlock ending_env c s))
      (\<lambda>n s. the (res_GetObservedBlockByNumber ending_env c n s)) (\<lambda>b s. the (res_GetERC20TransfersByBlock ending_env c b s))"
    unfolding computes_def res_GetLatestObservedBlock_def res_GetObservedBlockByNumber_def res_GetERC20TransfersByBlock_def
    by (intro conjI allI) (rule option.collapse [symmetric], rule returns)+
  then show ?thesis by blast
qed

text \<open>The group stops when its context has ended and the shutdown deadline has passed.\<close>

lemma group_times_out:
  "\<exists>g result. group_run services [ContextEnded (Sentinel ContextCanceled), Internal, DeadlinePassed, Internal] g \<and>
     g_phase g = group_phase.Stopped result" if "services \<noteq> []"
proof -
  let ?g0 = "group_start services"
  let ?g1 = "?g0\<lparr>g_ctx_Err := Some (Sentinel ContextCanceled)\<rparr>"
  let ?g2 = "begin_shutdown services ?g1"
  let ?g3 = "?g2\<lparr>g_deadline := True\<rparr>"
  have 1: "group_run services ([] @ [ContextEnded (Sentinel ContextCanceled)]) ?g1"
    by (rule group_more [OF group_init]) (rule group_step.context_ends; simp add: group_start_def)
  have 2: "group_run services (([] @ [ContextEnded (Sentinel ContextCanceled)]) @ [Internal]) ?g2"
    by (rule group_more [OF 1]) (rule select_done; simp add: group_start_def)
  have 3: "group_run services ((([] @ [ContextEnded (Sentinel ContextCanceled)]) @ [Internal]) @ [DeadlinePassed]) ?g3"
    by (rule group_more [OF 2]) (rule deadline_passes; simp add: group_start_def begin_shutdown_def)
  have "group_step services ?g3 Internal (?g3\<lparr>g_phase := group_phase.Stopped (timed_out services ?g3)\<rparr>)"
    using that by (intro drain_timeout) (simp_all add: group_start_def begin_shutdown_def draining_def)
  from group_more [OF 3 this] show ?thesis by fastforce
qed

lemma honest_sample: "honest_env sample_app_env"
  by (simp add: honest_env_def honest_node_def sample_app_env_def chain_node_def)

lemma sample_app_client_simps:
  "rec_next sample_app_client = eth_backend sample_abi \<lparr>eth_codec_of = sample_codec, eth_client = chain_node\<rparr>"
  "maxAttempts (rec_policy sample_app_client) = 4"
proof -
  obtain client l m w where "NewResilientEthereumClient ending_env
      (Some (eth_backend sample_abi \<lparr>eth_codec_of = sample_codec, eth_client = chain_node\<rparr>))
      (ethereumRPCConfig (Config_RPCConfig sample_config)) (Some NewMetrics) 5 = (Inr (client, l, m), w)"
    "rec_next client = eth_backend sample_abi \<lparr>eth_codec_of = sample_codec, eth_client = chain_node\<rparr>"
    "maxAttempts (rec_policy client) = cf_RPCMaxAttempts sample_config"
    by (rule resilient_created [OF validated_attempts [OF sample_valid]])
  then show "rec_next sample_app_client = eth_backend sample_abi \<lparr>eth_codec_of = sample_codec, eth_client = chain_node\<rparr>"
    "maxAttempts (rec_policy sample_app_client) = 4"
    by (simp_all add: sample_app_client_def sample_config_def default_config_def)
qed

lemma sample_latest:
  "\<exists>b s. res_GetLatestObservedBlock ending_env sample_app_client (newRPCRateLimiter 20 10 0, NewMetrics, 5) = Some (Inr b, s)"
proof -
  have "fst (limiter_poll (\<lambda>f. 0) 0 (newRPCRateLimiter 20 10 0)) = None" by code_simp
  then obtain l where "limiter_Wait ending_env (newRPCRateLimiter 20 10 0) 5 = Some (Inr (), l, 5)"
    by (cases "limiter_poll (\<lambda>f. 0) 0 (newRPCRateLimiter 20 10 0)")
      (subst (asm) limiter_Wait.simps, simp add: ending_env_def)
  moreover have "\<exists>b. eth_GetLatestObservedBlock \<lparr>eth_codec_of = sample_codec, eth_client = chain_node\<rparr> 5 = (Inr b, 5)"
    by (simp add: eth_GetLatestObservedBlock_def chain_node_def observedBlockFromEthereumBlock_def rpc_classified_Inr)
  ultimately show ?thesis
    unfolding res_GetLatestObservedBlock_def executeResilientRPC_def sample_app_client_simps
    by (subst rpc_attempts.simps) (auto simp: sample_app_client_simps eth_backend_def Let_def)
qed

lemma sample_app_start:
  assumes "computes ending_env sample_app_client latest fetch decode"
  shows "\<exists>c w. app_start latest fetch decode sample_config calm_pool (empty_db, (newRPCRateLimiter 20 10 0, NewMetrics, 5)) = (Inr c, w)"
proof -
  let ?s = "(newRPCRateLimiter 20 10 0, NewMetrics, 5 :: nat)"
  from assms have "res_GetLatestObservedBlock ending_env sample_app_client ?s = Some (latest ?s)"
    unfolding computes_def by blast
  with sample_latest obtain b s where latest: "latest ?s = (Inr b, s)" by auto
  have "bp_Load (NewPostgresBlockPersistence calm_pool name) (empty_db, e) = (Inr None, (empty_db, e))" for name and e :: "nat rpc_world"
    by (simp add: bp_Load_def cs_Load_def NewPostgresBlockPersistence_def NewPostgresCheckpointStore_def calm_pool_def
        run_statement_def sql_select_checkpoint_def classified_def empty_db_def)
  moreover have "cf_MaxReorgDepth sample_config \<noteq> 0" by (simp add: sample_config_def default_config_def)
  ultimately show ?thesis using latest
    by (cases s) (simp add: app_start_def determineStartBlock_def Reconcile_def NewReorgManager_def pg_persistence_def empty_ReorgResult_def
        on_env_def Let_def)
qed

theorem app_Run_unbroken_witness:
  "\<exists>result d'. app_Run sample_app_env sample_config (empty_db, 5) result d' \<and> db_ok d'"
proof -
  obtain latest fetch decode where fs: "computes ending_env sample_app_client latest fetch decode" using ending_computes by blast
  from sample_app_start [OF this] obtain c w where
    start: "app_start latest fetch decode sample_config calm_pool (empty_db, (newRPCRateLimiter 20 10 0, NewMetrics, 5)) = (Inr c, w)"
    by blast
  have group: "lifecycle_validate False (cf_ShutdownTimeout sample_config) (app_services sample_config) = None"
    by (rule app_services_valid) (simp add: sample_config_def default_config_def)
  have some: "app_services sample_config \<noteq> []" by (simp add: app_services_def)
  from group_times_out [OF some] obtain g result where
    g: "group_run (app_services sample_config) [ContextEnded (Sentinel ContextCanceled), Internal, DeadlinePassed, Internal] g"
    "g_phase g = group_phase.Stopped result" by blast
  have "services_did c [ContextEnded (Sentinel ContextCanceled), Internal, DeadlinePassed, Internal] w w"
    by (auto simp: services_did_def indexer_reaches_def intro: run_reaches.run_start)
  from app_Run.stopped [OF sample_connected _ start group g this] fs
  have "app_Run sample_app_env sample_config (empty_db, 5) result (fst w)" by (simp add: sample_app_env_def)
  with app_Run_unbroken [OF db_ok_empty honest_sample this] show ?thesis by blast
qed

end
