(* ===== verification/Spec2Isabelle.thy ===== *)
theory Spec2Isabelle
  imports Sync_Service Memory_Store Metadata_Requests Http_Paging Application
begin

text \<open>
  A verification development for ChainWatch, an Ethereum ERC-20 transfer indexer written in Go.

  \<^bold>\<open>The program.\<close> One process runs two services in a group (\<^verbatim>\<open>internal/lifecycle\<close>). The \<^emph>\<open>indexer\<close>
  (\<^verbatim>\<open>internal/indexer\<close>) polls an Ethereum node, fetches the confirmed blocks it has not seen with a pool of
  workers, decodes their ERC-20 transfers and commits them to PostgreSQL (\<^verbatim>\<open>internal/store\<close>) block by block,
  in order, each with its hash and the checkpoint; at startup it compares the checkpoint with the node
  and rolls back a reorganised chain. The \<^emph>\<open>HTTP server\<close> (\<^verbatim>\<open>internal/api\<close>) answers queries for the stored
  transfers page by page and adds token metadata (\<^verbatim>\<open>internal/metadata\<close>). Both reach the node through a
  client with retries and rate limiting (\<^verbatim>\<open>internal/ethereum\<close>). \<^verbatim>\<open>internal/config\<close> reads the settings,
  \<^verbatim>\<open>internal/observability\<close> keeps the metrics, \<^verbatim>\<open>internal/app\<close> puts the parts together. Beside that stands
  a small in-memory ledger (\<^verbatim>\<open>internal/domain/blockchain.go\<close>) with its synchronisation service
  (\<^verbatim>\<open>internal/service\<close>).

  \<^bold>\<open>How it is modelled.\<close> Structs are records, errors are trees of a datatype with \<^verbatim>\<open>errors.Is\<close>,
  \<^verbatim>\<open>errors.As\<close> and \<^verbatim>\<open>errors.Join\<close> (\<open>Go_Errors\<close>), \<^verbatim>\<open>uint64\<close> and \<^verbatim>\<open>uint8\<close> are words, \<^verbatim>\<open>int64\<close> values are integers
  whose range or wrap-around is written out, \<^verbatim>\<open>float64\<close> is binary64 with rounding (\<open>Go_Float\<close>). An operation
  with effects takes a world and returns a result (error or value) with the world after it. Code
  outside the repository (go-ethereum, pgx, the server behind it, the clock, the random source) is a
  parameter: an operation on the world that may fail at any time. Where the code is concurrent the model is a
  step relation and the theorems hold for every interleaving: the worker pipeline
  (\<open>pipeline_step\<close>), the polling loop (\<open>run_step\<close>), the service group (\<open>group_step\<close>), requests for token
  metadata (\<open>request_step\<close>). The indexer and the HTTP requests share the database: between any two steps of
  the indexer, inside a cycle and outside, other goroutines may do what \<open>others_run\<close> allows, which is to write
  token metadata (\<open>shared_IndexRange\<close>, \<open>run_step\<close>); and between any two steps of the requests the indexer may do
  any of its operations, which neither read nor write that table (\<open>oblivious_indexer\<close>).

  \<^bold>\<open>Theories and what they show.\<close>

  \<^item> \<open>Prelude\<close>, \<open>Go_Errors\<close>, \<open>Go_Float\<close>, \<open>Go_Text\<close>: what the program uses of the language and its library
    (decimal text, \<^verbatim>\<open>strconv\<close>, \<^verbatim>\<open>time.ParseDuration\<close>, addresses), and \<^verbatim>\<open>domain/error.go\<close>. \<^verbatim>\<open>ClassifyError\<close> adds
    exactly its category.
  \<^item> \<open>Domain_Types\<close>, \<open>Chain_Persistence\<close>: the value types of \<^verbatim>\<open>internal/domain\<close>; the interfaces of
    \<^verbatim>\<open>internal/indexer\<close> as records, and their contracts as the locales \<open>block_persistence\<close>, \<open>range_indexing\<close>,
    \<open>transfer_storing\<close> and \<open>reorg_persistence\<close> over an abstract \<open>chain_view\<close>: the checkpoint, the hash recorded
    per height and the transfers kept, with their contents (the in-memory store does not account for transfers).
  \<^item> \<open>Sequential_Indexer\<close>, \<open>Concurrent_Indexer\<close>, \<open>Reorg_Manager\<close>, \<open>Continuous_Indexer\<close>: the two range indexers,
    the reorg search and the polling loop (with \<^verbatim>\<open>determineStartBlock\<close>), verified against the locales. The
    worker pipeline ends on every schedule, with no goroutine left.
  \<^item> \<open>Memory_Store\<close>, \<open>Postgres_Database\<close>, \<open>Postgres_Persistence\<close>: the two providers, which interpret the locales.
    SQL statements are functions on tables, transactions commit atomically, any statement may fail and
    a commit may be applied without its acknowledgement. Saves and rollbacks are atomic, a save is
    idempotent, a conflicting block is refused.
  \<^item> \<open>Indexing_Properties\<close>: the indexers over PostgreSQL. Whatever fails or interleaves, what is stored is
    one unbroken, parent-linked run of heights with the checkpoint at its end and the transfers of its blocks;
    the concurrent indexer returns and leaves what the sequential one does, unless the caller's context
    ended, and then it leaves what the sequential one does on a shorter range; only confirmed blocks are
    indexed; the reorg search is sound and complete, and a rollback takes the orphaned transfers along.
  \<^item> \<open>Transfer_Reader\<close>, \<open>Token_Amount\<close>, \<open>Erc20_Transfer\<close>, \<open>Token_Metadata\<close>: pages of the reader are exact,
    paging is complete, and it stays exact while the table changes between pages; formatted amounts and decoded logs are inverses of what they come from; the
    metadata service over a store (locale \<open>metadata_store\<close>, interpreted over PostgreSQL).
  \<^item> \<open>Token_Fetching\<close>, \<open>Metadata_Requests\<close>: the metadata service with the fetcher of the application, for addresses
    as go-ethereum writes them. With calls one at a time the cache agrees with PostgreSQL whatever the node
    answers. Then requests in every interleaving with each other and with the indexer: with a node that answers
    the same each time all answers for a token agree with each other and
    with PostgreSQL, and five of its own steps bring a request to its end; with a node that changes its answer
    cache and store may come to differ (\<open>unsteady_node_diverges\<close>).
  \<^item> \<open>Runtime_Metrics\<close>, \<open>Rpc_Resilience\<close>, \<open>Ethereum_Client\<close>: a snapshot is the tally of the calls in whatever
    order their additions took effect; a resilient call makes a bounded number of attempts, retries only
    what is worth it, keeps its token bucket in range, counts exactly the answers, retries and failures
    of its backend and returns under a context that ends; backoff is capped
    doubling; the client adapter invents, drops and reorders no transfer.
  \<^item> \<open>Configuration\<close>, \<open>Service_Lifecycle\<close>: a configuration that loads is well-formed; a group of services
    stops within its deadline, and what its result says of the failures.
  \<^item> \<open>Transfer_Cursors\<close>, \<open>Http_Observability\<close>, \<open>Http_Api\<close>, \<open>Http_Paging\<close>: cursors survive their text form;
    accepted queries are well-formed; every request is answered once, panics included; profiling is not served publicly; and, over
    the contract \<open>paged_reader\<close> that the PostgreSQL reader interprets, a client that follows the cursors
    receives every matching transfer once.
  \<^item> \<open>Blockchain_Ledger\<close>, \<open>Sync_Service\<close>: the ledger conserves its supply, applies no transaction twice and
    is unchanged by a rejected block; synchronisation keeps that.
  \<^item> \<open>Application\<close>: \<^verbatim>\<open>app.Run\<close> and \<^verbatim>\<open>run\<close> of the command. A configuration that loads is accepted by every part;
    however the application ends, the stored chain is unbroken and goes on right after its checkpoint.

  \<^bold>\<open>Bounds and fuel.\<close> \<open>read_pages\<close> and \<open>http_pages\<close> stand for a caller that asks for page after page; one page
  more than there are rows is enough, since every page but the last holds a row (proved). The JSON parser of
  cursors takes twice the length of its input as fuel; every call consumes a character or
  ends a nesting level. The loops of the code itself carry no fuel: they are structural, have a
  termination proof, or, for the rate limiter, are a partial function whose value \<^term>\<open>None\<close> means that it
  waits for ever, which is excluded under a context that ends. The pipeline is bounded by a measure linear in the
  range, the service group by one linear in services and hooks.

  \<^bold>\<open>Not modelled.\<close> Logging, which changes no other state; the sockets and timeouts of \<^verbatim>\<open>net/http\<close> and the
  redirects of its multiplexer for paths that are not clean; JSON text of responses (a response is the tree
  that is marshalled); non-ASCII white space in \<^verbatim>\<open>strings.TrimSpace\<close>; the handlers of \<^verbatim>\<open>net/http/pprof\<close>
  (which path they serve is modelled); \<^verbatim>\<open>PrintBalances\<close>; aliasing of the transaction slices a caller hands to
  \<^verbatim>\<open>ProcessBlock\<close> (lists are values). A page is read in one step, as one SQL statement is. A resilient call is
  one step of the goroutine that makes it: other goroutines that use the same limiter and metrics while it
  sleeps are not interleaved inside it (the metrics alone are, in \<open>Runtime_Metrics\<close>).
\<close>

end
